(* ===== verification/Prelude.thy ===== *)
theory Prelude
  imports Complex_Main "HOL-Library.List_Lexorder" "HOL-Library.Sublist" "HOL-Library.AList" "HOL-Library.Multiset"
begin

text \<open>
  Shared vocabulary of the development: Python text as lists of code points, the string
  methods the backend calls, Python values, fallible results, and the lemma collections the
  component theories use.

  A Python \<open>str\<close> is a list of code points, so \<open>len\<close>, slicing and comparison are those of
  the list. \<open>str ''abc''\<close> embeds an ASCII literal. The white-space test is the complete
  table of \<open>str.isspace\<close>. Case conversion and the alphanumeric test follow Python on the
  code points up to 255 and leave every later code point unchanged, not alphanumeric.
  Fractions of seconds, confidences and money are \<open>rat\<close>.
\<close>

named_theorems invs "lemmas that a component's operations keep its invariant"
named_theorems unfolds "definitions a component's functional lemmas unfold"

type_synonym pystr = "nat list"

definition str :: "string \<Rightarrow> pystr" where
  "str = map of_char"

lemma str_eq_iff [simp]: "str a = str b \<longleftrightarrow> a = b"
  by (simp add: str_def inj_map_eq_map inj_def)

lemma str_Nil [simp]: "str [] = []"
  by (simp add: str_def)

lemma str_eq_Nil [simp]: "str a = [] \<longleftrightarrow> a = []" "[] = str a \<longleftrightarrow> a = []"
  by (auto simp: str_def)

lemma length_str [simp]: "length (str a) = length a"
  by (simp add: str_def)

subsection \<open>Character classes\<close>

definition isspace :: "nat \<Rightarrow> bool" where
  "isspace c \<longleftrightarrow> (9 \<le> c \<and> c \<le> 13) \<or> (28 \<le> c \<and> c \<le> 32) \<or> c = 133 \<or> c = 160 \<or> c = 5760 \<or>
     (8192 \<le> c \<and> c \<le> 8202) \<or> c = 8232 \<or> c = 8233 \<or> c = 8239 \<or> c = 8287 \<or> c = 12288"

definition isdigit :: "nat \<Rightarrow> bool" where
  "isdigit c \<longleftrightarrow> 48 \<le> c \<and> c \<le> 57"

definition islower_ascii :: "nat \<Rightarrow> bool" where
  "islower_ascii c \<longleftrightarrow> 97 \<le> c \<and> c \<le> 122"

definition isalnum :: "nat \<Rightarrow> bool" where
  "isalnum c \<longleftrightarrow> isdigit c \<or> (65 \<le> c \<and> c \<le> 90) \<or> islower_ascii c \<or>
     c \<in> {170, 178, 179, 181, 185, 186, 188, 189, 190} \<or>
     (192 \<le> c \<and> c \<le> 255 \<and> c \<noteq> 215 \<and> c \<noteq> 247)"

definition lower_cp :: "nat \<Rightarrow> nat" where
  "lower_cp c =
     (if (65 \<le> c \<and> c \<le> 90) \<or> (192 \<le> c \<and> c \<le> 222 \<and> c \<noteq> 215) then c + 32 else c)"

definition lower :: "pystr \<Rightarrow> pystr" where
  "lower = map lower_cp"

lemma lower_cp_idem [simp]: "lower_cp (lower_cp c) = lower_cp c"
  by (auto simp: lower_cp_def)

lemma lower_idem [simp]: "lower (lower s) = lower s"
  by (simp add: lower_def)

lemma isspace_lower_cp [simp]: "isspace (lower_cp c) = isspace c"
  by (auto simp: isspace_def lower_cp_def)

subsection \<open>String methods\<close>

definition lstrip :: "pystr \<Rightarrow> pystr" where
  "lstrip s = dropWhile isspace s"

definition rstrip :: "pystr \<Rightarrow> pystr" where
  "rstrip s = rev (dropWhile isspace (rev s))"

definition strip :: "pystr \<Rightarrow> pystr" where
  "strip s = rstrip (lstrip s)"

lemmas strip_defs = strip_def lstrip_def rstrip_def isspace_def

function split_ws :: "pystr \<Rightarrow> pystr list" where
  "split_ws s =
     (let r = dropWhile isspace s in
      if r = [] then []
      else takeWhile (\<lambda>c. \<not> isspace c) r # split_ws (dropWhile (\<lambda>c. \<not> isspace c) r))"
  by pat_completeness auto
termination
proof (relation "measure length")
  fix s r :: pystr
  assume r: "r = dropWhile isspace s" "r \<noteq> []"
  then have "\<not> isspace (hd r)"
    by (metis hd_dropWhile)
  with r(2) have "length (dropWhile (\<lambda>c. \<not> isspace c) r) < length r"
    by (cases r) (auto simp: length_dropWhile_le le_imp_less_Suc)
  also have "length r \<le> length s"
    by (simp add: r(1) length_dropWhile_le)
  finally show "(dropWhile (\<lambda>c. \<not> isspace c) r, s) \<in> measure length"
    by simp
qed simp

declare split_ws.simps [simp del]

fun join :: "pystr \<Rightarrow> pystr list \<Rightarrow> pystr" where
  "join sep [] = []"
| "join sep [x] = x"
| "join sep (x # y # xs) = x @ sep @ join sep (y # xs)"

text \<open>\<open>s.split(c)\<close> for a one-character separator, and \<open>s.rsplit(c, n)\<close>\<close>

fun split_on :: "nat \<Rightarrow> pystr \<Rightarrow> pystr list" where
  "split_on c [] = [[]]"
| "split_on c (x # xs) =
     (if x = c then [] # split_on c xs
      else (case split_on c xs of [] \<Rightarrow> [[x]] | w # ws \<Rightarrow> (x # w) # ws))"

definition rsplit_on :: "nat \<Rightarrow> nat \<Rightarrow> pystr \<Rightarrow> pystr list" where
  "rsplit_on c n s =
     (let parts = split_on c s; k = length parts - n in
      if k \<le> 1 then parts else join [c] (take k parts) # drop k parts)"

lemma split_on_ne [simp]: "split_on c s \<noteq> []"
  by (induction s) (auto split: list.splits)

lemma join_Cons: "xs \<noteq> [] \<Longrightarrow> join sep (x # xs) = x @ sep @ join sep xs"
  by (cases xs) auto

lemma join_split_on [simp]: "join [c] (split_on c s) = s"
proof (induction s)
  case (Cons x s)
  show ?case
  proof (cases "split_on c s")
    case Nil
    then show ?thesis by simp
  next
    case (Cons w ws)
    with Cons.IH show ?thesis by (cases ws) (auto simp: join_Cons)
  qed
qed simp

lemma split_on_notin: "c \<notin> set s \<Longrightarrow> split_on c s = [s]"
  by (induction s) auto

lemma split_on_sep: "c \<notin> set s \<Longrightarrow> split_on c (t @ c # s) = split_on c t @ [s]"
proof (induction t)
  case Nil
  then show ?case by (simp add: split_on_notin)
next
  case (Cons x t)
  then show ?case by (cases "split_on c t") auto
qed

lemma split_on_parts: "p \<in> set (split_on c s) \<Longrightarrow> c \<notin> set p"
  by (induction s arbitrary: p) (auto split: list.splits if_splits)

text \<open>\<open>needle in hay\<close>\<close>

fun contains :: "pystr \<Rightarrow> pystr \<Rightarrow> bool" where
  "contains needle [] = (needle = [])"
| "contains needle (c # hay) = (prefix needle (c # hay) \<or> contains needle hay)"

lemma contains_append_left: "contains n h \<Longrightarrow> contains n (g @ h)"
  by (induction g) (auto elim: contains.elims)

lemma contains_self_append: "contains n (n @ h)"
proof (cases "n @ h")
  case (Cons c t)
  have "prefix n (c # t)" by (metis Cons prefixI)
  then show ?thesis by (simp add: Cons)
qed simp

lemma contains_mid: "contains n (g @ n @ h)"
  by (intro contains_append_left contains_self_append)

lemma lower_append [simp]: "lower (a @ b) = lower a @ lower b"
  by (simp add: lower_def)

text \<open>\<open>f"{n}"\<close> for an \<open>int\<close>\<close>

fun show_nat :: "nat \<Rightarrow> pystr" where
  "show_nat n = (if n < 10 then [48 + n] else show_nat (n div 10) @ [48 + n mod 10])"

declare show_nat.simps [simp del]

definition show_int :: "int \<Rightarrow> pystr" where
  "show_int n = (if n < 0 then 45 # show_nat (nat (- n)) else show_nat (nat n))"

lemma show_nat_ne [simp]: "show_nat n \<noteq> []"
  by (subst show_nat.simps) simp

lemma show_nat_digits: "c \<in> set (show_nat n) \<Longrightarrow> 48 \<le> c \<and> c \<le> 57"
proof (induction n rule: show_nat.induct)
  case (1 n)
  from "1.prems" show ?case
    by (subst (asm) show_nat.simps) (auto split: if_splits dest: "1.IH")
qed

text \<open>
  \<open>f"{s!r}"\<close>: single quotes unless the text has some and no double ones; a backslash, the
  quote, control characters and separators other than the space are escaped. Every other code
  point above 255 counts as printable.
\<close>

definition hex_digit :: "nat \<Rightarrow> nat" where
  "hex_digit d = (if d < 10 then 48 + d else 87 + d)"

definition repr_char :: "nat \<Rightarrow> nat \<Rightarrow> pystr" where
  "repr_char quote c =
     (if c = quote \<or> c = 92 then [92, c]
      else if c = 9 then [92, 116] else if c = 10 then [92, 110] else if c = 13 then [92, 114]
      else if c < 32 \<or> (127 \<le> c \<and> c \<le> 160) \<or> c = 173 then [92, 120, hex_digit (c div 16), hex_digit (c mod 16)]
      else if 255 < c \<and> isspace c then
        [92, 117, hex_digit (c div 4096), hex_digit (c div 256 mod 16), hex_digit (c div 16 mod 16), hex_digit (c mod 16)]
      else [c])"

definition repr_str :: "pystr \<Rightarrow> pystr" where
  "repr_str s =
     (let quote = (if 39 \<in> set s \<and> 34 \<notin> set s then 34 else 39)
      in quote # concat (map (repr_char quote) s) @ [quote])"

subsection \<open>Python values\<close>

text \<open>
  What a JSON payload, a tool parameter or an attribute may hold. \<open>PObject\<close> is any other
  object, known by its type name.
\<close>

datatype pyval =
    PNone
  | PBool bool
  | PInt int
  | PFloat rat
  | PNan
  | PInf bool
  | PStr pystr
  | PList "pyval list"
  | PTuple "pyval list"
  | PDict "(pyval \<times> pyval) list"
  | PObject pystr

subsection \<open>Lemmas on white space\<close>

lemma dropWhile_idem: "dropWhile P (dropWhile P xs) = dropWhile P xs"
  by (induction xs) auto

lemma rstrip_idem [simp]: "rstrip (rstrip s) = rstrip s"
  by (simp add: rstrip_def dropWhile_idem)

lemma rstrip_prefix: "prefix (rstrip s) s"
proof -
  have "rev (takeWhile isspace (rev s) @ dropWhile isspace (rev s)) = s"
    by simp
  then have "s = rstrip s @ rev (takeWhile isspace (rev s))"
    by (simp only: rev_append rstrip_def)
  then show ?thesis by (metis prefixI)
qed

lemma hd_rstrip: "rstrip s \<noteq> [] \<Longrightarrow> hd (rstrip s) = hd s"
  using rstrip_prefix [of s] by (metis hd_append2 prefix_def)

lemma lstrip_rstrip: "lstrip (rstrip (lstrip s)) = rstrip (lstrip s)"
proof (cases "rstrip (lstrip s) = []")
  case True
  then show ?thesis by (simp add: lstrip_def)
next
  case False
  then have ne: "lstrip s \<noteq> []" by (auto simp: rstrip_def)
  then have "\<not> isspace (hd (lstrip s))"
    unfolding lstrip_def by (metis hd_dropWhile)
  with False have "\<not> isspace (hd (rstrip (lstrip s)))"
    by (simp add: hd_rstrip)
  with False show ?thesis
    by (cases "rstrip (lstrip s)") (auto simp: lstrip_def)
qed

lemma strip_idem [simp]: "strip (strip s) = strip s"
  by (simp add: strip_def lstrip_rstrip)

lemma strip_eq_Nil: "strip s = [] \<longleftrightarrow> (\<forall>c \<in> set s. isspace c)"
proof -
  have "rstrip t = [] \<longleftrightarrow> (\<forall>c \<in> set t. isspace c)" for t
    by (simp add: rstrip_def dropWhile_eq_Nil_conv)
  moreover have "(\<forall>c \<in> set (lstrip s). isspace c) \<longleftrightarrow> (\<forall>c \<in> set s. isspace c)"
    by (induction s) (auto simp: lstrip_def)
  ultimately show ?thesis by (simp add: strip_def)
qed

lemma set_strip_subset: "set (strip s) \<subseteq> set s"
proof
  fix c assume "c \<in> set (strip s)"
  then have "c \<in> set (dropWhile isspace s)"
    unfolding strip_def rstrip_def lstrip_def using set_dropWhileD by fastforce
  then show "c \<in> set s" by (rule set_dropWhileD)
qed

lemma lower_strip: "lower (strip s) = strip (lower s)"
proof -
  have "map lower_cp (dropWhile isspace t) = dropWhile isspace (map lower_cp t)" for t
    by (induction t) auto
  then show ?thesis
    by (simp add: lower_def strip_def rstrip_def lstrip_def rev_map [symmetric])
qed

text \<open>The words of a text: non-empty, free of white space.\<close>

lemma split_ws_words: "w \<in> set (split_ws s) \<Longrightarrow> w \<noteq> [] \<and> (\<forall>c \<in> set w. \<not> isspace c)"
proof (induction s rule: split_ws.induct)
  case (1 s)
  define r where "r = dropWhile isspace s"
  show ?case
  proof (cases "r = []")
    case True
    with "1.prems" show ?thesis by (simp add: split_ws.simps [of s] r_def)
  next
    case False
    then have hd: "\<not> isspace (hd r)" unfolding r_def by (metis hd_dropWhile)
    from "1.prems" False have
      "w = takeWhile (\<lambda>c. \<not> isspace c) r \<or> w \<in> set (split_ws (dropWhile (\<lambda>c. \<not> isspace c) r))"
      unfolding r_def [symmetric] by (simp add: split_ws.simps [of s] r_def [symmetric] del: dropWhile_eq_Nil_conv)
    then show ?thesis
    proof
      assume "w = takeWhile (\<lambda>c. \<not> isspace c) r"
      with hd False show ?thesis by (cases r) (auto dest: set_takeWhileD)
    next
      assume "w \<in> set (split_ws (dropWhile (\<lambda>c. \<not> isspace c) r))"
      with False show ?thesis by (intro "1.IH" [OF r_def])
    qed
  qed
qed

lemma split_ws_eq_Nil: "split_ws s = [] \<longleftrightarrow> (\<forall>c \<in> set s. isspace c)"
  by (simp add: split_ws.simps [of s] Let_def dropWhile_eq_Nil_conv)

lemma split_ws_dropWhile: "split_ws (dropWhile isspace s) = split_ws s"
  by (subst (1 2) split_ws.simps) (simp add: dropWhile_idem)

lemma split_ws_Nil [simp]: "split_ws [] = []"
  by (simp add: split_ws_eq_Nil)

lemma split_ws_spaces: "\<forall>c \<in> set a. isspace c \<Longrightarrow> split_ws (a @ s) = split_ws s"
  by (subst (1 2) split_ws_dropWhile [symmetric]) (simp add: dropWhile_append2)

lemma split_ws_space_between: "isspace c \<Longrightarrow> split_ws (a @ c # b) = split_ws a @ split_ws b"
proof (induction a rule: split_ws.induct)
  case (1 a)
  define r where "r = dropWhile isspace a"
  show ?case
  proof (cases "r = []")
    case True
    then have sp: "\<forall>d \<in> set a. isspace d" by (simp add: r_def dropWhile_eq_Nil_conv)
    with 1 have "\<forall>d \<in> set (a @ [c]). isspace d" by auto
    from split_ws_spaces [OF this, of b] sp show ?thesis by (simp add: split_ws_eq_Nil)
  next
    case False
    then obtain d where d: "d \<in> set a" "\<not> isspace d" by (auto simp: r_def dropWhile_eq_Nil_conv)
    let ?w = "takeWhile (\<lambda>c. \<not> isspace c) r" and ?r = "dropWhile (\<lambda>c. \<not> isspace c) r"
    have "dropWhile isspace (a @ c # b) = r @ c # b"
      unfolding r_def using d by (simp add: dropWhile_append1)
    then have "split_ws (a @ c # b) = takeWhile (\<lambda>c. \<not> isspace c) (r @ c # b) #
        split_ws (dropWhile (\<lambda>c. \<not> isspace c) (r @ c # b))"
      by (simp add: split_ws.simps [of "a @ c # b"] Let_def)
    also have "takeWhile (\<lambda>c. \<not> isspace c) (r @ c # b) = ?w"
      using "1.prems" by (simp add: takeWhile_tail)
    also have "dropWhile (\<lambda>c. \<not> isspace c) (r @ c # b) = ?r @ c # b"
    proof -
      have "r @ c # b = ?w @ dropWhile (\<lambda>c. \<not> isspace c) (r @ c # b)"
        using "1.prems" by (metis takeWhile_dropWhile_id takeWhile_tail)
      then show ?thesis by (metis append.assoc append_same_eq same_append_eq takeWhile_dropWhile_id)
    qed
    also have "split_ws (?r @ c # b) = split_ws ?r @ split_ws b"
      using "1.IH" [OF r_def False "1.prems"] .
    also have "?w # split_ws ?r @ split_ws b = split_ws a @ split_ws b"
      using False by (simp add: split_ws.simps [of a] r_def Let_def)
    finally show ?thesis .
  qed
qed

lemma split_ws_trailing: "\<forall>c \<in> set b. isspace c \<Longrightarrow> split_ws (s @ b) = split_ws s"
  by (cases b) (simp_all add: split_ws_space_between split_ws_eq_Nil)

lemma strip_parts:
  obtains a b where "s = a @ strip s @ b" "\<forall>c \<in> set a. isspace c" "\<forall>c \<in> set b. isspace c"
proof -
  have l: "s = takeWhile isspace s @ lstrip s" by (simp add: lstrip_def)
  have "rev (takeWhile isspace (rev (lstrip s)) @ dropWhile isspace (rev (lstrip s))) = lstrip s" by simp
  then have "lstrip s = strip s @ rev (takeWhile isspace (rev (lstrip s)))"
    by (simp only: rev_append strip_def rstrip_def)
  with l have "s = takeWhile isspace s @ strip s @ rev (takeWhile isspace (rev (lstrip s)))" by simp
  with that [of "takeWhile isspace s" "rev (takeWhile isspace (rev (lstrip s)))"] show ?thesis
    by (auto dest: set_takeWhileD)
qed

lemma split_ws_strip [simp]: "split_ws (strip s) = split_ws s"
proof -
  obtain a b where "s = a @ strip s @ b" "\<forall>c \<in> set a. isspace c" "\<forall>c \<in> set b. isspace c"
    by (rule strip_parts)
  then have "split_ws s = split_ws (strip s @ b)" "split_ws (strip s @ b) = split_ws (strip s)"
    by (metis split_ws_spaces, metis split_ws_trailing)
  then show ?thesis by simp
qed

lemma split_ws_word:
  assumes "w \<noteq> []" "\<forall>c \<in> set w. \<not> isspace c"
  shows "split_ws w = [w]"
proof -
  have "dropWhile isspace w = w" using assms by (cases w) auto
  moreover have "takeWhile (\<lambda>c. \<not> isspace c) w = w" "dropWhile (\<lambda>c. \<not> isspace c) w = []"
    using assms by (simp_all add: takeWhile_eq_all_conv dropWhile_eq_Nil_conv)
  ultimately show ?thesis using assms(1) by (simp add: split_ws.simps [of w] del: dropWhile_eq_Nil_conv)
qed

lemma strip_ends:
  assumes "s \<noteq> []" "\<not> isspace (hd s)" "\<not> isspace (last s)"
  shows "strip s = s"
proof -
  have "dropWhile isspace t = t" if "t \<noteq> []" "\<not> isspace (hd t)" for t
    using that by (cases t) auto
  from this [of s] this [of "rev s"] assms show ?thesis
    by (simp add: strip_def lstrip_def rstrip_def hd_rev)
qed

lemma strip_fixed_ends:
  assumes "strip s = s" "s \<noteq> []"
  shows "\<not> isspace (hd s)" "\<not> isspace (last s)"
proof -
  have ne: "lstrip s \<noteq> []" using assms by (auto simp: strip_def rstrip_def)
  have "hd (strip s) = hd (lstrip s)"
    using assms hd_rstrip [of "lstrip s"] by (metis strip_def)
  then have "hd s = hd (lstrip s)" by (simp only: assms(1))
  then show "\<not> isspace (hd s)" using ne assms unfolding lstrip_def by (metis hd_dropWhile)
  have "dropWhile isspace (rev (lstrip s)) \<noteq> []"
    using assms by (metis rev.simps(1) rstrip_def strip_def)
  then have "\<not> isspace (hd (dropWhile isspace (rev (lstrip s))))" by (metis hd_dropWhile)
  then show "\<not> isspace (last s)"
    using assms by (metis hd_rev rev_rev_ident rstrip_def strip_def)
qed

subsection \<open>Python dictionaries\<close>

text \<open>
  A \<open>dict\<close> is an association list in insertion order without duplicate keys:
  \<open>AList.update\<close> is \<open>d[k] = v\<close>, \<open>map_of\<close> the lookup, \<open>dict_of\<close> the constructor that keeps the
  last value of a repeated key at its first position.
\<close>

definition dict_of :: "('k \<times> 'v) list \<Rightarrow> ('k \<times> 'v) list" where
  "dict_of kvs = foldl (\<lambda>d (k, v). AList.update k v d) [] kvs"

lemma those_map_Some: "(\<And>x. x \<in> set xs \<Longrightarrow> f x = Some (g x)) \<Longrightarrow> those (map f xs) = Some (map g xs)"
  by (induction xs) auto

lemma those_eq_Some: "those (map f xs) = Some ys \<longleftrightarrow> list_all2 (\<lambda>x y. f x = Some y) xs ys"
proof (induction xs arbitrary: ys)
  case (Cons x xs)
  then show ?case by (cases ys) (auto split: option.splits)
qed auto

lemma foldl_update_distinct:
  "distinct (map fst (d @ kvs)) \<Longrightarrow> foldl (\<lambda>d (k, v). AList.update k v d) d kvs = d @ kvs"
proof (induction kvs arbitrary: d)
  case (Cons kv kvs)
  obtain k v where kv: "kv = (k, v)" by force
  have "k \<notin> set (map fst d)" using Cons.prems kv by auto
  then have "AList.update k v d = d @ [(k, v)]"
    by (induction d) auto
  with Cons kv show ?case by simp
qed simp

lemma dict_of_distinct: "distinct (map fst kvs) \<Longrightarrow> dict_of kvs = kvs"
  using foldl_update_distinct [of "[]" kvs] by (simp add: dict_of_def)

lemma distinct_dict_of: "distinct (map fst (dict_of kvs))"
proof -
  have "distinct (map fst d) \<Longrightarrow> distinct (map fst (foldl (\<lambda>d (k, v). AList.update k v d) d kvs))"
    for d :: "('a \<times> 'b) list"
    by (induction kvs arbitrary: d) (auto simp: distinct_update split: prod.splits)
  then show ?thesis by (simp add: dict_of_def)
qed

lemma keys_dict_of: "set (map fst (dict_of kvs)) \<subseteq> set (map fst kvs)"
proof -
  have "set (map fst (foldl (\<lambda>d (k, v). AList.update k v d) d kvs)) \<subseteq> set (map fst d) \<union> set (map fst kvs)"
    for d :: "('a \<times> 'b) list"
  proof (induction kvs arbitrary: d)
    case (Cons kv kvs)
    obtain k v where kv: "kv = (k, v)" by force
    have "set (map fst (AList.update k v d)) \<subseteq> insert k (set (map fst d))"
      by (simp only: AList.update_keys split: if_splits) auto
    with Cons [of "AList.update k v d"] kv show ?case by (simp del: set_map) blast
  qed simp
  from this [of "[]"] show ?thesis by (simp add: dict_of_def)
qed

lemma set_update_keys: "set (map fst (AList.update k v d)) = insert k (set (map fst d))"
  by (simp only: AList.update_keys split: if_splits) auto

lemma length_update: "length (AList.update k v d) = (if k \<in> set (map fst d) then length d else Suc (length d))"
  by (induction d) auto

subsection \<open>Maps\<close>

lemma distinct_filter_map: "distinct (map f xs) \<Longrightarrow> distinct (map f (filter P xs))"
  by (simp add: distinct_map_filter)

lemma filter_by_key:
  assumes "distinct (map f xs)" "c \<in> set xs"
  shows "filter (\<lambda>x. f x = f c) xs = [c]"
  using assms
proof (induction xs)
  case (Cons x xs)
  show ?case
  proof (cases "x = c")
    case True
    with Cons.prems(1) have "f y \<noteq> f c" if "y \<in> set xs" for y
      using that by (metis distinct.simps(2) image_eqI list.simps(9) set_map)
    with True show ?thesis by (simp add: filter_empty_conv)
  next
    case False
    with Cons.prems have "c \<in> set xs" "f x \<noteq> f c" by auto
    with Cons show ?thesis by simp
  qed
qed simp

lemma map_the_map_upd_notin: "k \<notin> set ks \<Longrightarrow> map (\<lambda>x. the ((m(k \<mapsto> v)) x)) ks = map (\<lambda>x. the (m x)) ks"
  by (induction ks) auto

lemma sum_list_map_upd_notin:
  "k \<notin> set ks \<Longrightarrow> sum_list (map (\<lambda>x. f (the ((m(k \<mapsto> v)) x))) ks) = sum_list (map (\<lambda>x. f (the (m x))) ks)"
  by (induction ks) auto

lemma sum_list_if_notin:
  "k \<notin> set ks \<Longrightarrow>
   sum_list (map (\<lambda>x. f (the (if x = k then v else m x))) ks) = sum_list (map (\<lambda>x. f (the (m x))) ks)"
  by (induction ks) auto

lemma sum_list_sort_key: "sum_list (map f (sort_key g xs)) = (sum_list (map f xs) :: 'a::comm_monoid_add)"
  by (metis mset_map mset_sort sum_mset_sum_list)

lemma sum_list_map_zero: "\<forall>x \<in> set xs. f x = (0 :: 'a::comm_monoid_add) \<Longrightarrow> sum_list (map f xs) = 0"
  by (induction xs) auto

lemma sorted_list_of_set_nodup: "finite A \<Longrightarrow> set (sorted_list_of_set A) = (A :: 'a::linorder set)"
  by simp

subsection \<open>First occurrences\<close>

text \<open>\<open>list(dict.fromkeys(xs))\<close>: the distinct elements in the order they first appear.\<close>

fun first_seen :: "'a list \<Rightarrow> 'a list \<Rightarrow> 'a list" where
  "first_seen seen [] = seen"
| "first_seen seen (x # xs) = first_seen (if x \<in> set seen then seen else seen @ [x]) xs"

lemma set_first_seen [simp]: "set (first_seen seen xs) = set seen \<union> set xs"
  by (induction xs arbitrary: seen) auto

lemma distinct_first_seen [simp]: "distinct (first_seen seen xs) = distinct seen"
  by (induction xs arbitrary: seen) auto

lemma first_seen_distinct: "distinct (seen @ xs) \<Longrightarrow> first_seen seen xs = seen @ xs"
  by (induction xs arbitrary: seen) auto

end
