(* ===== verification/Errors.thy ===== *)
theory Errors
  imports Prelude
begin

text \<open>
  The error taxonomy of \<open>core/exceptions.py\<close> and of every package's \<open>errors.py\<close>. An error
  class is a record of its class attributes; a subclass is its parent's record with the
  attributes the class statement overrides, so inheritance is record update. A raised
  application error is an instance with its own message and details. The HTTP rendering of
  an error is the handler of \<open>register_exception_handlers\<close>.
\<close>

record err_class =
  ec_mro :: "string list"
  ec_status :: int
  ec_code :: pystr
  ec_message :: pystr

definition AppError :: err_class where
  "AppError = \<lparr>ec_mro = [''AppError''], ec_status = 500,
     ec_code = str ''internal_error'', ec_message = str ''An unexpected error occurred.''\<rparr>"

definition NotFoundError :: err_class where
  "NotFoundError = AppError
     \<lparr>ec_mro := ''NotFoundError'' # ec_mro AppError,
       ec_status := 404,
       ec_code := str ''not_found'',
       ec_message := str ''The requested resource was not found.''\<rparr>"

definition JobNotFoundError :: err_class where
  "JobNotFoundError = NotFoundError
     \<lparr>ec_mro := ''JobNotFoundError'' # ec_mro NotFoundError,
       ec_code := str ''job_not_found'',
       ec_message := str ''The requested job was not found.''\<rparr>"

definition JobPayloadError :: err_class where
  "JobPayloadError = AppError
     \<lparr>ec_mro := ''JobPayloadError'' # ec_mro AppError,
       ec_status := 500,
       ec_code := str ''job_payload_error'',
       ec_message := str ''The job payload could not be serialised.''\<rparr>"

definition JobDefinitionError :: err_class where
  "JobDefinitionError = AppError
     \<lparr>ec_mro := ''JobDefinitionError'' # ec_mro AppError,
       ec_status := 500,
       ec_code := str ''job_definition_error'',
       ec_message := str ''The job definition is not valid.''\<rparr>"

definition JobQueueUnavailableError :: err_class where
  "JobQueueUnavailableError = AppError
     \<lparr>ec_mro := ''JobQueueUnavailableError'' # ec_mro AppError,
       ec_status := 503,
       ec_code := str ''job_queue_unavailable'',
       ec_message := str ''The job queue is currently unavailable.''\<rparr>"

definition RateLimitExceededError :: err_class where
  "RateLimitExceededError = AppError
     \<lparr>ec_mro := ''RateLimitExceededError'' # ec_mro AppError,
       ec_status := 429,
       ec_code := str ''rate_limit_exceeded'',
       ec_message := str ''Too many requests. Please retry shortly.''\<rparr>"

definition RateLimitConfigurationError :: err_class where
  "RateLimitConfigurationError = AppError
     \<lparr>ec_mro := ''RateLimitConfigurationError'' # ec_mro AppError,
       ec_status := 500,
       ec_code := str ''rate_limit_configuration_error'',
       ec_message := str ''The rate limit configuration is not valid.''\<rparr>"

definition AuthenticationError :: err_class where
  "AuthenticationError = AppError
     \<lparr>ec_mro := ''AuthenticationError'' # ec_mro AppError,
       ec_status := 401,
       ec_code := str ''unauthenticated'',
       ec_message := str ''Authentication is required.''\<rparr>"

definition AuthenticationRequiredError :: err_class where
  "AuthenticationRequiredError = AuthenticationError
     \<lparr>ec_mro := ''AuthenticationRequiredError'' # ec_mro AuthenticationError,
       ec_code := str ''authentication_required'',
       ec_message := str ''Authentication is required.''\<rparr>"

definition InvalidCredentialsError :: err_class where
  "InvalidCredentialsError = AuthenticationError
     \<lparr>ec_mro := ''InvalidCredentialsError'' # ec_mro AuthenticationError,
       ec_code := str ''invalid_credentials'',
       ec_message := str ''Authentication is required.''\<rparr>"

definition AuthenticationConfigurationError :: err_class where
  "AuthenticationConfigurationError = AppError
     \<lparr>ec_mro := ''AuthenticationConfigurationError'' # ec_mro AppError,
       ec_status := 500,
       ec_code := str ''authentication_configuration_error'',
       ec_message := str ''The authentication configuration is not valid.''\<rparr>"

definition ToolNotFoundError :: err_class where
  "ToolNotFoundError = NotFoundError
     \<lparr>ec_mro := ''ToolNotFoundError'' # ec_mro NotFoundError,
       ec_code := str ''tool_not_found'',
       ec_message := str ''The requested tool is not registered.''\<rparr>"

definition ToolRegistrationError :: err_class where
  "ToolRegistrationError = AppError
     \<lparr>ec_mro := ''ToolRegistrationError'' # ec_mro AppError,
       ec_status := 500,
       ec_code := str ''tool_registration_error'',
       ec_message := str ''The tool could not be registered.''\<rparr>"

definition TicketNotFoundError :: err_class where
  "TicketNotFoundError = NotFoundError
     \<lparr>ec_mro := ''TicketNotFoundError'' # ec_mro NotFoundError,
       ec_code := str ''ticket_not_found'',
       ec_message := str ''The requested ticket was not found.''\<rparr>"

definition DocumentNotFoundError :: err_class where
  "DocumentNotFoundError = NotFoundError
     \<lparr>ec_mro := ''DocumentNotFoundError'' # ec_mro NotFoundError,
       ec_code := str ''document_not_found'',
       ec_message := str ''The requested document was not found.''\<rparr>"

definition ReviewItemNotFoundError :: err_class where
  "ReviewItemNotFoundError = NotFoundError
     \<lparr>ec_mro := ''ReviewItemNotFoundError'' # ec_mro NotFoundError,
       ec_code := str ''review_item_not_found'',
       ec_message := str ''The requested review item was not found.''\<rparr>"

definition ConversationNotFoundError :: err_class where
  "ConversationNotFoundError = NotFoundError
     \<lparr>ec_mro := ''ConversationNotFoundError'' # ec_mro NotFoundError,
       ec_code := str ''conversation_not_found'',
       ec_message := str ''The requested conversation was not found.''\<rparr>"

definition HandlerRegistrationError :: err_class where
  "HandlerRegistrationError = AppError
     \<lparr>ec_mro := ''HandlerRegistrationError'' # ec_mro AppError,
       ec_status := 500,
       ec_code := str ''handler_registration_error'',
       ec_message := str ''The intent handler could not be registered.''\<rparr>"

definition WorkflowNotFoundError :: err_class where
  "WorkflowNotFoundError = NotFoundError
     \<lparr>ec_mro := ''WorkflowNotFoundError'' # ec_mro NotFoundError,
       ec_code := str ''workflow_not_found'',
       ec_message := str ''The requested workflow is not defined.''\<rparr>"

definition EvaluationDefinitionError :: err_class where
  "EvaluationDefinitionError = AppError
     \<lparr>ec_mro := ''EvaluationDefinitionError'' # ec_mro AppError,
       ec_status := 500,
       ec_code := str ''evaluation_definition_error'',
       ec_message := str ''The evaluation is not valid.''\<rparr>"

definition TracingConfigurationError :: err_class where
  "TracingConfigurationError = AppError
     \<lparr>ec_mro := ''TracingConfigurationError'' # ec_mro AppError,
       ec_status := 500,
       ec_code := str ''tracing_configuration_error'',
       ec_message := str ''The tracing configuration is not valid.''\<rparr>"

definition PricingConfigurationError :: err_class where
  "PricingConfigurationError = AppError
     \<lparr>ec_mro := ''PricingConfigurationError'' # ec_mro AppError,
       ec_status := 500,
       ec_code := str ''pricing_configuration_error'',
       ec_message := str ''The model pricing configuration is not valid.''\<rparr>"

definition RealtimeCapacityError :: err_class where
  "RealtimeCapacityError = AppError
     \<lparr>ec_mro := ''RealtimeCapacityError'' # ec_mro AppError,
       ec_status := 503,
       ec_code := str ''realtime_at_capacity'',
       ec_message := str ''The service is not accepting new realtime connections.''\<rparr>"

definition RealtimeProtocolError :: err_class where
  "RealtimeProtocolError = AppError
     \<lparr>ec_mro := ''RealtimeProtocolError'' # ec_mro AppError,
       ec_status := 400,
       ec_code := str ''realtime_protocol_error'',
       ec_message := str ''The message did not match the expected format.''\<rparr>"

definition LLMError :: err_class where
  "LLMError = AppError
     \<lparr>ec_mro := ''LLMError'' # ec_mro AppError,
       ec_status := 500,
       ec_code := str ''llm_error'',
       ec_message := str ''The language model request could not be completed.''\<rparr>"

definition LLMConfigurationError :: err_class where
  "LLMConfigurationError = LLMError
     \<lparr>ec_mro := ''LLMConfigurationError'' # ec_mro LLMError,
       ec_status := 500,
       ec_code := str ''llm_configuration_error'',
       ec_message := str ''The language model provider is not configured correctly.''\<rparr>"

definition LLMRateLimitError :: err_class where
  "LLMRateLimitError = LLMError
     \<lparr>ec_mro := ''LLMRateLimitError'' # ec_mro LLMError,
       ec_status := 429,
       ec_code := str ''llm_rate_limited'',
       ec_message := str ''The language model provider is rate limiting requests.''\<rparr>"

definition LLMTimeoutError :: err_class where
  "LLMTimeoutError = LLMError
     \<lparr>ec_mro := ''LLMTimeoutError'' # ec_mro LLMError,
       ec_status := 504,
       ec_code := str ''llm_timeout'',
       ec_message := str ''The language model request timed out.''\<rparr>"

definition LLMUnavailableError :: err_class where
  "LLMUnavailableError = LLMError
     \<lparr>ec_mro := ''LLMUnavailableError'' # ec_mro LLMError,
       ec_status := 503,
       ec_code := str ''llm_unavailable'',
       ec_message := str ''The language model provider is currently unavailable.''\<rparr>"

definition LLMRequestError :: err_class where
  "LLMRequestError = LLMError
     \<lparr>ec_mro := ''LLMRequestError'' # ec_mro LLMError,
       ec_status := 500,
       ec_code := str ''llm_request_error'',
       ec_message := str ''The language model request was rejected by the provider.''\<rparr>"

definition LLMInvalidOutputError :: err_class where
  "LLMInvalidOutputError = LLMError
     \<lparr>ec_mro := ''LLMInvalidOutputError'' # ec_mro LLMError,
       ec_status := 500,
       ec_code := str ''llm_invalid_output'',
       ec_message := str ''The language model returned an unusable response.''\<rparr>"

definition DatabaseError :: err_class where
  "DatabaseError = AppError
     \<lparr>ec_mro := ''DatabaseError'' # ec_mro AppError,
       ec_status := 503,
       ec_code := str ''database_error'',
       ec_message := str ''The database request could not be completed.''\<rparr>"

definition DatabaseNotConfiguredError :: err_class where
  "DatabaseNotConfiguredError = DatabaseError
     \<lparr>ec_mro := ''DatabaseNotConfiguredError'' # ec_mro DatabaseError,
       ec_status := 500,
       ec_code := str ''database_not_configured'',
       ec_message := str ''No database is configured for this service.''\<rparr>"

definition DatabaseUnavailableError :: err_class where
  "DatabaseUnavailableError = DatabaseError
     \<lparr>ec_mro := ''DatabaseUnavailableError'' # ec_mro DatabaseError,
       ec_status := 503,
       ec_code := str ''database_unavailable'',
       ec_message := str ''The database is currently unavailable.''\<rparr>"

definition issubclass :: "err_class \<Rightarrow> err_class \<Rightarrow> bool" where
  "issubclass c d \<longleftrightarrow> hd (ec_mro d) \<in> set (ec_mro c)"

subsection \<open>Raised errors\<close>

record app_error =
  ae_class :: err_class
  ae_message :: pystr
  ae_details :: "(pystr \<times> pyval) list option"
  ae_retry_after :: "pyval option"

text \<open>\<open>AppError.__init__\<close>: the class message unless one is given.\<close>

definition new_error ::
  "err_class \<Rightarrow> pystr option \<Rightarrow> (pystr \<times> pyval) list option \<Rightarrow> app_error" where
  "new_error c msg details =
     \<lparr>ae_class = c,
      ae_message = (case msg of None \<Rightarrow> ec_message c | Some m \<Rightarrow> m),
      ae_details = details, ae_retry_after = None\<rparr>"

definition ae_code :: "app_error \<Rightarrow> pystr" where
  "ae_code e = ec_code (ae_class e)"

definition ae_status :: "app_error \<Rightarrow> int" where
  "ae_status e = ec_status (ae_class e)"

definition rate_limit_exceeded :: "int \<Rightarrow> app_error" where
  "rate_limit_exceeded retry =
     (let n = max 1 retry in
      (new_error RateLimitExceededError None
         (Some [(str ''retry_after_seconds'', PInt n)]))\<lparr>ae_retry_after := Some (PInt n)\<rparr>)"

definition llm_rate_limited ::
  "(pystr \<times> pyval) list option \<Rightarrow> pyval option \<Rightarrow> app_error" where
  "llm_rate_limited details retry =
     (let merged = (case (retry, details) of
          (Some r, Some d) \<Rightarrow> Some (AList.update (str ''retry_after_seconds'') r d)
        | _ \<Rightarrow> details)
      in (new_error LLMRateLimitError None merged)\<lparr>ae_retry_after := retry\<rparr>)"

text \<open>
  Everything the model's code can raise. \<open>ToolError\<close> is \<open>tools/base.py\<close>'s, with its message and
  whether another attempt could help.
\<close>

datatype exn =
    App app_error
  | ValueError pystr
  | TypeError pystr
  | ValidationError "(pystr list \<times> pystr) list"
  | SQLAlchemyError pystr
  | IntegrityError
  | RedisError pystr
  | OSError pystr
  | TimeoutError
  | ToolError pystr bool
  | OtherError pystr

type_synonym 'a result = "exn + 'a"

definition raise_app ::
  "err_class \<Rightarrow> pystr option \<Rightarrow> (pystr \<times> pyval) list option \<Rightarrow> 'a result" where
  "raise_app c msg details = Inl (App (new_error c msg details))"

text \<open>The name \<open>type(exc).__name__\<close> that log lines and spans may carry.\<close>

fun exn_type :: "exn \<Rightarrow> pystr" where
  "exn_type (App e) = str (hd (ec_mro (ae_class e)))"
| "exn_type (ValueError _) = str ''ValueError''"
| "exn_type (TypeError _) = str ''TypeError''"
| "exn_type (ValidationError _) = str ''ValidationError''"
| "exn_type (SQLAlchemyError n) = n"
| "exn_type IntegrityError = str ''IntegrityError''"
| "exn_type (RedisError n) = n"
| "exn_type (OSError n) = n"
| "exn_type TimeoutError = str ''TimeoutError''"
| "exn_type (ToolError _ _) = str ''ToolError''"
| "exn_type (OtherError n) = n"

text \<open>\<open>except (RedisError, OSError)\<close>; \<open>TimeoutError\<close> is an \<open>OSError\<close> in Python.\<close>

fun redis_failure :: "exn \<Rightarrow> bool" where
  "redis_failure (RedisError _) = True"
| "redis_failure (OSError _) = True"
| "redis_failure TimeoutError = True"
| "redis_failure _ = False"

text \<open>\<open>except SQLAlchemyError\<close>\<close>

fun sqlalchemy_failure :: "exn \<Rightarrow> bool" where
  "sqlalchemy_failure (SQLAlchemyError _) = True"
| "sqlalchemy_failure IntegrityError = True"
| "sqlalchemy_failure _ = False"

text \<open>
  The \<open>headers\<close> attribute and the properties that override it. \<open>math.ceil\<close> raises for a float
  that is not finite.
\<close>

fun ceil_seconds :: "pyval \<Rightarrow> int result" where
  "ceil_seconds (PInt n) = Inr n"
| "ceil_seconds (PFloat r) = Inr \<lceil>r\<rceil>"
| "ceil_seconds PNan = Inl (ValueError (str ''cannot convert float NaN to integer''))"
| "ceil_seconds (PInf _) = Inl (OtherError (str ''OverflowError''))"
| "ceil_seconds _ = Inl (TypeError (str ''must be real number''))"

definition retry_header :: "int \<Rightarrow> (pystr \<times> pystr) list" where
  "retry_header n = [(str ''Retry-After'', show_int n)]"

definition ae_headers :: "app_error \<Rightarrow> (pystr \<times> pystr) list option result" where
  "ae_headers e =
     (if issubclass (ae_class e) RateLimitExceededError \<or> issubclass (ae_class e) LLMRateLimitError then
        (case ae_retry_after e of
           None \<Rightarrow> Inr None
         | Some v \<Rightarrow>
             (case ceil_seconds v of
                Inl x \<Rightarrow> Inl x
              | Inr n \<Rightarrow> Inr (Some (retry_header
                  (if issubclass (ae_class e) LLMRateLimitError then max 0 n else n)))))
      else if issubclass (ae_class e) AuthenticationError then
        Inr (Some [(str ''WWW-Authenticate'', str ''X-API-Key'')])
      else Inr None)"

subsection \<open>Rendering over HTTP\<close>

record error_response =
  er_code :: pystr
  er_message :: pystr
  er_details :: "(pystr \<times> pyval) list option"

record http_response =
  hr_status :: int
  hr_content :: error_response
  hr_headers :: "(pystr \<times> pystr) list option"

definition to_response :: "app_error \<Rightarrow> error_response" where
  "to_response e = \<lparr>er_code = ae_code e, er_message = ae_message e, er_details = ae_details e\<rparr>"

definition render_error ::
  "error_response \<Rightarrow> int \<Rightarrow> (pystr \<times> pystr) list option \<Rightarrow> http_response" where
  "render_error er status hs = \<lparr>hr_status = status, hr_content = er, hr_headers = hs\<rparr>"

text \<open>
  \<open>handle_app_error\<close>: an HTTP request gets the rendered error; a WebSocket is closed with
  1011 unless it already is, and gets no body.
\<close>

datatype scope_kind = Http | Websocket

datatype handled_error =
    Rendered http_response
  | Socket_Closed int
  | Socket_Already_Closed
  | Handler_Raised exn

definition handle_app_error :: "scope_kind \<Rightarrow> bool \<Rightarrow> app_error \<Rightarrow> handled_error" where
  "handle_app_error kind disconnected e =
     (case kind of
        Websocket \<Rightarrow> (if disconnected then Socket_Already_Closed else Socket_Closed 1011)
      | Http \<Rightarrow>
          (case ae_headers e of
             Inl x \<Rightarrow> Handler_Raised x
           | Inr hs \<Rightarrow> Rendered (render_error (to_response e) (ae_status e) hs)))"

text \<open>
  \<open>handle_validation_error\<close>: the sorted field paths, each without its first element, and
  nothing else of the request.
\<close>

definition field_path :: "pystr list \<Rightarrow> pystr" where
  "field_path loc =
     (let p = join (str ''.'') (drop 1 loc) in if p = [] then str ''body'' else p)"

definition handle_validation_error :: "(pystr list \<times> pystr) list \<Rightarrow> http_response" where
  "handle_validation_error errors =
     (let fields = sort (map (\<lambda>(loc, _). field_path loc) errors) in
      render_error
        \<lparr>er_code = str ''invalid_request'', er_message = str ''The request body is not valid.'',
         er_details = Some [(str ''fields'', PList (map PStr fields))]\<rparr>
        422 None)"

text \<open>
  \<open>handle_http_exception\<close>. The status phrases are the standard library's \<open>HTTPStatus\<close>
  table, an argument here because its wording follows the interpreter's version.
\<close>

definition code_for_status :: "(int \<Rightarrow> pystr option) \<Rightarrow> int \<Rightarrow> pystr" where
  "code_for_status phrases status =
     (case phrases status of
        None \<Rightarrow> str ''http_error''
      | Some p \<Rightarrow> map (\<lambda>c. if c = 32 then 95 else c) (lower p))"

definition handle_http_exception ::
  "(int \<Rightarrow> pystr option) \<Rightarrow> int \<Rightarrow> pystr \<Rightarrow> (pystr \<times> pystr) list option \<Rightarrow> http_response" where
  "handle_http_exception phrases status detail hs =
     render_error \<lparr>er_code = code_for_status phrases status, er_message = detail, er_details = None\<rparr>
       status hs"

subsection \<open>Facts about the taxonomy\<close>

lemmas err_class_defs = AppError_def NotFoundError_def JobNotFoundError_def JobPayloadError_def
  JobDefinitionError_def JobQueueUnavailableError_def RateLimitExceededError_def
  RateLimitConfigurationError_def AuthenticationError_def AuthenticationRequiredError_def
  InvalidCredentialsError_def AuthenticationConfigurationError_def ToolNotFoundError_def
  ToolRegistrationError_def TicketNotFoundError_def DocumentNotFoundError_def
  ReviewItemNotFoundError_def ConversationNotFoundError_def HandlerRegistrationError_def
  WorkflowNotFoundError_def EvaluationDefinitionError_def TracingConfigurationError_def
  PricingConfigurationError_def RealtimeCapacityError_def RealtimeProtocolError_def LLMError_def
  LLMConfigurationError_def LLMRateLimitError_def LLMTimeoutError_def LLMUnavailableError_def
  LLMRequestError_def LLMInvalidOutputError_def DatabaseError_def DatabaseNotConfiguredError_def
  DatabaseUnavailableError_def

lemma ae_class_new_error [simp]: "ae_class (new_error c m d) = c"
  by (simp add: new_error_def)

lemma ae_code_new_error [simp]: "ae_code (new_error c m d) = ec_code c"
  by (simp add: ae_code_def)

lemma issubclass_refl: "ec_mro c \<noteq> [] \<Longrightarrow> issubclass c c"
  by (simp add: issubclass_def)

lemma field_path_ne: "field_path loc \<noteq> []"
  by (simp add: field_path_def Let_def)

text \<open>
  The claims of this theory are in the root theory; here are the two facts they need about
  classes.
\<close>

lemma llm_rate_limited_class [simp]: "ae_class (llm_rate_limited d r) = LLMRateLimitError"
  by (simp add: llm_rate_limited_def Let_def)

lemma rate_limit_exceeded_class [simp]: "ae_class (rate_limit_exceeded n) = RateLimitExceededError"
  by (simp add: rate_limit_exceeded_def Let_def)

end
