(* ===== verification/Metrics.thy ===== *)
theory Metrics
  imports Errors "HOL-Library.Product_Lexorder"
begin

text \<open>
  \<open>observability/spans.py\<close> (what an attribute may hold) and \<open>observability/metrics.py\<close>
  (counters and durations under a cap on label combinations). A metric store is a
  dictionary from a series key to a value; the two recording methods never raise, so they
  return the next state alone.
\<close>

subsection \<open>Attributes\<close>

definition MAX_ATTRIBUTE_LENGTH :: nat where
  "MAX_ATTRIBUTE_LENGTH = 120"

definition OMITTED :: pystr where
  "OMITTED = str ''<omitted>''"

fun safe_value :: "pyval \<Rightarrow> pyval" where
  "safe_value PNone = PNone"
| "safe_value (PBool b) = PBool b"
| "safe_value (PInt n) = PInt n"
| "safe_value (PFloat r) = PFloat r"
| "safe_value PNan = PNan"
| "safe_value (PInf b) = PInf b"
| "safe_value (PStr s) =
     (if MAX_ATTRIBUTE_LENGTH < length s \<or> list_ex isspace s then PStr OMITTED else PStr s)"
| "safe_value (PList _) = PStr OMITTED"
| "safe_value (PTuple _) = PStr OMITTED"
| "safe_value (PDict _) = PStr OMITTED"
| "safe_value (PObject _) = PStr OMITTED"

type_synonym attrs = "(pystr \<times> pyval) list"

definition sanitise_attributes :: "attrs option \<Rightarrow> attrs" where
  "sanitise_attributes raw =
     (case raw of
        None \<Rightarrow> []
      | Some kvs \<Rightarrow> foldl (\<lambda>clean (k, v). AList.update k (safe_value v) clean) [] kvs)"

text \<open>A value that cannot be prose.\<close>

fun content_free :: "pyval \<Rightarrow> bool" where
  "content_free (PStr s) \<longleftrightarrow> length s \<le> MAX_ATTRIBUTE_LENGTH \<and> (\<forall>c \<in> set s. \<not> isspace c)"
| "content_free (PList _) \<longleftrightarrow> False"
| "content_free (PTuple _) \<longleftrightarrow> False"
| "content_free (PDict _) \<longleftrightarrow> False"
| "content_free (PObject _) \<longleftrightarrow> False"
| "content_free _ \<longleftrightarrow> True"

lemma OMITTED_content_free [simp]: "content_free (PStr OMITTED)"
  by (simp add: OMITTED_def str_def isspace_def MAX_ATTRIBUTE_LENGTH_def)

lemma safe_value_content_free [simp]: "content_free (safe_value v)"
  by (cases v) (auto simp: list_ex_iff not_less OMITTED_content_free [unfolded content_free.simps])

lemma safe_value_id: "content_free v \<Longrightarrow> safe_value v = v"
  by (cases v) (auto simp: list_ex_iff)

lemma safe_value_idem [simp]: "safe_value (safe_value v) = safe_value v"
  by (simp add: safe_value_id)

lemma set_AList_update: "set (AList.update k v d) \<subseteq> insert (k, v) (set d)"
  by (induction d) auto

lemma sanitise_attributes_values:
  "(k, v) \<in> set (sanitise_attributes raw) \<Longrightarrow> content_free v"
proof -
  have "\<forall>(k, v) \<in> set d. content_free v \<Longrightarrow>
    \<forall>(k, v) \<in> set (foldl (\<lambda>clean (k, v). AList.update k (safe_value v) clean) d kvs). content_free v"
    for d kvs :: attrs
  proof (induction kvs arbitrary: d)
    case (Cons kv kvs)
    obtain k v where kv: "kv = (k, v)" by force
    have "\<forall>(k, v) \<in> set (AList.update k (safe_value v) d). content_free v"
      using Cons.prems set_AList_update [of k "safe_value v" d] by fastforce
    from Cons.IH [OF this] show ?case by (simp add: kv)
  qed simp
  from this [of "[]"] show "(k, v) \<in> set (sanitise_attributes raw) \<Longrightarrow> content_free v"
    by (auto simp: sanitise_attributes_def split: option.splits)
qed

lemma map_of_AList_update: "map_of (AList.update k v d) = (map_of d)(k \<mapsto> v)"
  by (simp add: update_conv')

text \<open>The keys that arrive are the keys that are recorded: nothing is silently dropped.\<close>

lemma sanitise_attributes_lookup:
  assumes "distinct (map fst kvs)"
  shows "map_of (sanitise_attributes (Some kvs)) k = map_option safe_value (map_of kvs k)"
proof -
  have "distinct (map fst kvs) \<Longrightarrow>
    map_of (foldl (\<lambda>clean (k, v). AList.update k (safe_value v) clean) d kvs) k
      = (case map_of kvs k of None \<Rightarrow> map_of d k | Some v \<Rightarrow> Some (safe_value v))" for d
  proof (induction kvs arbitrary: d)
    case (Cons kv kvs)
    obtain k' v where kv: "kv = (k', v)" by force
    with Cons.prems have "map_of kvs k' = None" "distinct (map fst kvs)"
      by (auto simp: map_of_eq_None_iff)
    with Cons.IH [of "AList.update k' (safe_value v) d"] show ?case
      by (auto simp: kv map_of_AList_update split: option.splits)
  qed simp
  with assms show ?thesis
    by (simp add: sanitise_attributes_def split: option.splits)
qed

subsection \<open>Metric calls\<close>

text \<open>
  A component that records metrics is modelled by the calls it makes, in order; any
  implementation of the protocol is a state and the two operations that consume them.
\<close>

datatype metric_call =
    Increment pystr "attrs option" int
  | Observe pystr rat "attrs option"

type_synonym series_key = "pystr \<times> (pystr \<times> pystr) list"

fun py_str :: "(rat \<Rightarrow> pystr) \<Rightarrow> pyval \<Rightarrow> pystr" where
  "py_str frepr PNone = str ''None''"
| "py_str frepr (PBool b) = (if b then str ''True'' else str ''False'')"
| "py_str frepr (PInt n) = show_int n"
| "py_str frepr (PFloat r) = frepr r"
| "py_str frepr PNan = str ''nan''"
| "py_str frepr (PInf neg) = (if neg then str ''-inf'' else str ''inf'')"
| "py_str frepr (PStr s) = s"
| "py_str frepr v = str ''<object>''"

definition labels_key :: "(rat \<Rightarrow> pystr) \<Rightarrow> attrs option \<Rightarrow> (pystr \<times> pystr) list" where
  "labels_key frepr labels =
     (case labels of
        None \<Rightarrow> []
      | Some [] \<Rightarrow> []
      | Some kvs \<Rightarrow> sort (map (\<lambda>(k, v). (k, py_str frepr v)) (sanitise_attributes (Some kvs))))"

subsection \<open>The in-memory implementation\<close>

record mem_metrics =
  mm_max_series :: int
  mm_counters :: "(series_key \<times> int) list"
  mm_durations :: "(series_key \<times> rat list) list"
  mm_dropped :: "pystr list"

definition MAX_SERIES_PER_METRIC :: int where
  "MAX_SERIES_PER_METRIC = 200"

definition metrics_init :: "int \<Rightarrow> mem_metrics" where
  "metrics_init max_series =
     \<lparr>mm_max_series = max_series, mm_counters = [], mm_durations = [], mm_dropped = []\<rparr>"

definition series_of :: "pystr \<Rightarrow> (series_key \<times> 'v) list \<Rightarrow> nat" where
  "series_of metric store = length (filter (\<lambda>(k, _). fst k = metric) store)"

text \<open>
  \<open>_key\<close>: the series to write, or nothing past the cap; the second component is the set of
  metrics whose drop has been logged.
\<close>

definition metric_key ::
  "(rat \<Rightarrow> pystr) \<Rightarrow> int \<Rightarrow> pystr list \<Rightarrow> pystr \<Rightarrow> attrs option \<Rightarrow> (series_key \<times> 'v) list
     \<Rightarrow> series_key option \<times> pystr list" where
  "metric_key frepr max_series dropped metric labels store =
     (let key = (metric, labels_key frepr labels) in
      if map_of store key \<noteq> None then (Some key, dropped)
      else if max_series \<le> int (series_of metric store) then
        (None, if metric \<in> set dropped then dropped else dropped @ [metric])
      else (Some key, dropped))"

definition metrics_increment ::
  "(rat \<Rightarrow> pystr) \<Rightarrow> pystr \<Rightarrow> attrs option \<Rightarrow> int \<Rightarrow> mem_metrics \<Rightarrow> mem_metrics" where
  "metrics_increment frepr metric labels by_n m =
     (case metric_key frepr (mm_max_series m) (mm_dropped m) metric labels (mm_counters m) of
        (None, d) \<Rightarrow> m\<lparr>mm_dropped := d\<rparr>
      | (Some key, d) \<Rightarrow>
          m\<lparr>mm_dropped := d,
            mm_counters := AList.update key
              ((case map_of (mm_counters m) key of None \<Rightarrow> 0 | Some n \<Rightarrow> n) + by_n) (mm_counters m)\<rparr>)"

definition metrics_observe ::
  "(rat \<Rightarrow> pystr) \<Rightarrow> pystr \<Rightarrow> rat \<Rightarrow> attrs option \<Rightarrow> mem_metrics \<Rightarrow> mem_metrics" where
  "metrics_observe frepr metric ms labels m =
     (case metric_key frepr (mm_max_series m) (mm_dropped m) metric labels (mm_durations m) of
        (None, d) \<Rightarrow> m\<lparr>mm_dropped := d\<rparr>
      | (Some key, d) \<Rightarrow>
          m\<lparr>mm_dropped := d,
            mm_durations := AList.update key
              ((case map_of (mm_durations m) key of None \<Rightarrow> [] | Some xs \<Rightarrow> xs) @ [ms]) (mm_durations m)\<rparr>)"

fun metrics_record :: "(rat \<Rightarrow> pystr) \<Rightarrow> metric_call \<Rightarrow> mem_metrics \<Rightarrow> mem_metrics" where
  "metrics_record frepr (Increment metric labels n) m = metrics_increment frepr metric labels n m"
| "metrics_record frepr (Observe metric ms labels) m = metrics_observe frepr metric ms labels m"

definition metrics_record_all :: "(rat \<Rightarrow> pystr) \<Rightarrow> metric_call list \<Rightarrow> mem_metrics \<Rightarrow> mem_metrics" where
  "metrics_record_all frepr calls m = foldl (\<lambda>m c. metrics_record frepr c m) m calls"

subsection \<open>Reading\<close>

definition metrics_counter :: "(rat \<Rightarrow> pystr) \<Rightarrow> pystr \<Rightarrow> attrs option \<Rightarrow> mem_metrics \<Rightarrow> int" where
  "metrics_counter frepr metric labels m =
     (case map_of (mm_counters m) (metric, labels_key frepr labels) of None \<Rightarrow> 0 | Some n \<Rightarrow> n)"

definition metrics_total :: "pystr \<Rightarrow> mem_metrics \<Rightarrow> int" where
  "metrics_total metric m =
     sum_list (map snd (filter (\<lambda>(k, _). fst k = metric) (mm_counters m)))"

definition metrics_observations ::
  "(rat \<Rightarrow> pystr) \<Rightarrow> pystr \<Rightarrow> attrs option \<Rightarrow> mem_metrics \<Rightarrow> rat list" where
  "metrics_observations frepr metric labels m =
     (case map_of (mm_durations m) (metric, labels_key frepr labels) of None \<Rightarrow> [] | Some xs \<Rightarrow> xs)"

definition metrics_count :: "(rat \<Rightarrow> pystr) \<Rightarrow> pystr \<Rightarrow> attrs option \<Rightarrow> mem_metrics \<Rightarrow> int" where
  "metrics_count frepr metric labels m = int (length (metrics_observations frepr metric labels m))"

definition metrics_series :: "mem_metrics \<Rightarrow> int" where
  "metrics_series m = int (length (mm_counters m)) + int (length (mm_durations m))"

definition metrics_clear :: "mem_metrics \<Rightarrow> mem_metrics" where
  "metrics_clear m = m\<lparr>mm_counters := [], mm_durations := [], mm_dropped := []\<rparr>"

definition metric_render :: "pystr \<Rightarrow> (pystr \<times> pystr) list \<Rightarrow> pystr" where
  "metric_render metric labels =
     (if labels = [] then metric
      else metric @ str ''{'' @ join (str '','') (map (\<lambda>(k, v). k @ str ''='' @ v) labels) @ str ''}'')"

text \<open>\<open>snapshot\<close>; \<open>round3\<close> is the interpreter's \<open>round(_, 3)\<close>.\<close>

record metrics_snapshot =
  ms_counters :: "(pystr \<times> int) list"
  ms_durations :: "(pystr \<times> (int \<times> rat)) list"

definition take_snapshot :: "(rat \<Rightarrow> rat) \<Rightarrow> mem_metrics \<Rightarrow> metrics_snapshot" where
  "take_snapshot round3 m =
     (let render = (\<lambda>k. metric_render (fst k) (snd k)) in
      \<lparr>ms_counters = dict_of
         (map (\<lambda>(k, v). (render k, v)) (sort_key (\<lambda>kv. render (fst kv)) (mm_counters m))),
       ms_durations = dict_of
         (map (\<lambda>(k, vs). (render k, (int (length vs), round3 (sum_list vs))))
           (sort_key (\<lambda>kv. render (fst kv)) (mm_durations m)))\<rparr>)"

subsection \<open>Invariant: bounded, content-free series\<close>

definition store_inv :: "int \<Rightarrow> (series_key \<times> 'v) list \<Rightarrow> bool" where
  "store_inv cap store \<longleftrightarrow>
     distinct (map fst store) \<and> (\<forall>metric. int (series_of metric store) \<le> max 0 cap)"

definition metrics_inv :: "mem_metrics \<Rightarrow> bool" where
  "metrics_inv m \<longleftrightarrow>
     store_inv (mm_max_series m) (mm_counters m) \<and> store_inv (mm_max_series m) (mm_durations m) \<and>
     distinct (mm_dropped m)"

lemma series_of_update:
  "series_of metric (AList.update k v d) =
   series_of metric d + (if fst k = metric \<and> k \<notin> set (map fst d) then 1 else 0)"
  by (induction d) (auto simp: series_of_def)

lemma map_of_None_keys: "map_of d k = None \<longleftrightarrow> k \<notin> set (map fst d)"
  by (induction d) auto

lemma metric_key_store_inv:
  assumes "store_inv cap store" "metric_key frepr cap dropped metric labels store = (Some key, d)"
  shows "store_inv cap (AList.update key v store)"
  using assms
  by (auto simp: store_inv_def metric_key_def Let_def series_of_update distinct_update
      map_of_None_keys split: if_splits)

lemma metric_key_dropped:
  "distinct dropped \<Longrightarrow> metric_key frepr cap dropped metric labels store = (r, d) \<Longrightarrow> distinct d"
  by (auto simp: metric_key_def Let_def split: if_splits)

lemma metrics_init_inv [invs]: "metrics_inv (metrics_init cap)"
  by (simp add: metrics_inv_def metrics_init_def store_inv_def series_of_def)

lemma metrics_record_inv [invs]: "metrics_inv m \<Longrightarrow> metrics_inv (metrics_record frepr c m)"
  by (cases c) (auto simp: metrics_inv_def metrics_increment_def metrics_observe_def
      intro: metric_key_store_inv metric_key_dropped split: prod.splits option.splits)

lemma metrics_record_cap [simp]: "mm_max_series (metrics_record frepr c m) = mm_max_series m"
  by (cases c) (auto simp: metrics_increment_def metrics_observe_def split: prod.splits option.splits)

lemma metrics_record_all_inv: "metrics_inv m \<Longrightarrow> metrics_inv (metrics_record_all frepr cs m)"
  unfolding metrics_record_all_def by (induction cs arbitrary: m) (auto intro: metrics_record_inv)

lemma metrics_record_all_cap [simp]:
  "mm_max_series (metrics_record_all frepr cs m) = mm_max_series m"
  unfolding metrics_record_all_def by (induction cs arbitrary: m) auto

subsection \<open>Counters\<close>

lemma map_of_update_other: "k' \<noteq> k \<Longrightarrow> map_of (AList.update k v d) k' = map_of d k'"
  by (simp add: map_of_AList_update)

text \<open>Whether a call is recorded: its series exists already or the metric has room.\<close>

definition has_room :: "(rat \<Rightarrow> pystr) \<Rightarrow> pystr \<Rightarrow> attrs option \<Rightarrow> mem_metrics \<Rightarrow> bool" where
  "has_room frepr metric labels m \<longleftrightarrow>
     (metric, labels_key frepr labels) \<in> set (map fst (mm_counters m)) \<or>
     int (series_of metric (mm_counters m)) < mm_max_series m"

lemma metrics_increment_counter:
  "metrics_counter frepr metric' labels' (metrics_increment frepr metric labels n m) =
   metrics_counter frepr metric' labels' m +
   (if has_room frepr metric labels m \<and> metric' = metric \<and>
       labels_key frepr labels' = labels_key frepr labels then n else 0)"
  by (auto simp: metrics_counter_def metrics_increment_def metric_key_def Let_def has_room_def
      map_of_AList_update map_of_None_keys split: option.splits if_splits)

subsection \<open>Properties\<close>

lemma labels_key_values:
  assumes "(k, v) \<in> set (labels_key frepr labels)"
  shows "\<exists>x. content_free x \<and> v = py_str frepr x"
proof (cases labels)
  case (Some kvs)
  with assms show ?thesis
    using sanitise_attributes_values [of k _ "Some kvs"]
    by (auto simp: labels_key_def split: list.splits)
qed (use assms in \<open>simp add: labels_key_def\<close>)

definition keys_ok :: "(rat \<Rightarrow> pystr) \<Rightarrow> (series_key \<times> 'v) list \<Rightarrow> bool" where
  "keys_ok frepr store \<longleftrightarrow>
     (\<forall>key \<in> set (map fst store). \<forall>(k, v) \<in> set (snd key). \<exists>x. content_free x \<and> v = py_str frepr x)"

lemma keys_ok_update:
  assumes "keys_ok frepr store" "metric_key frepr cap dropped metric labels store = (Some key, d)"
  shows "keys_ok frepr (AList.update key v store)"
proof -
  have "key = (metric, labels_key frepr labels)"
    using assms(2) by (auto simp: metric_key_def Let_def split: if_splits)
  with assms(1) show ?thesis
    by (auto simp: keys_ok_def set_update_keys labels_key_values simp del: set_map)
qed

lemma metrics_record_keys:
  assumes "keys_ok frepr (mm_counters m)" "keys_ok frepr (mm_durations m)"
  shows "keys_ok frepr (mm_counters (metrics_record frepr c m)) \<and>
    keys_ok frepr (mm_durations (metrics_record frepr c m))"
  using assms by (cases c) (auto simp: metrics_increment_def metrics_observe_def
      intro: keys_ok_update split: prod.splits option.splits)

lemma metrics_record_all_keys:
  "keys_ok frepr (mm_counters m) \<Longrightarrow> keys_ok frepr (mm_durations m) \<Longrightarrow>
   keys_ok frepr (mm_counters (metrics_record_all frepr cs m)) \<and>
   keys_ok frepr (mm_durations (metrics_record_all frepr cs m))"
  unfolding metrics_record_all_def
  by (induction cs arbitrary: m) (auto dest: metrics_record_keys)

text \<open>
  Whatever is recorded, in whatever order, no metric ever tracks more label combinations
  than the cap, of counters or of durations, and every label value that was kept renders a
  scalar or a string of at most 120 characters without white space: prose never becomes a
  series.
\<close>

theorem metrics_bounded_and_content_free:
  fixes calls :: "metric_call list" and cap :: int and frepr :: "rat \<Rightarrow> pystr"
  defines "m \<equiv> metrics_record_all frepr calls (metrics_init cap)"
  shows "int (series_of metric (mm_counters m)) \<le> max 0 cap \<and>
    int (series_of metric (mm_durations m)) \<le> max 0 cap \<and>
    keys_ok frepr (mm_counters m) \<and> keys_ok frepr (mm_durations m)"
proof -
  have "metrics_inv m" unfolding m_def by (intro metrics_record_all_inv metrics_init_inv)
  moreover have "mm_max_series m = cap" by (simp add: m_def metrics_init_def)
  moreover have "keys_ok frepr (mm_counters m) \<and> keys_ok frepr (mm_durations m)"
    unfolding m_def by (rule metrics_record_all_keys) (simp_all add: metrics_init_def keys_ok_def)
  ultimately show ?thesis by (simp add: metrics_inv_def store_inv_def)
qed

end
