(* ===== verification/Cost.thy ===== *)
theory Cost
  imports Metrics
begin

text \<open>
  \<open>observability/cost.py\<close>: the price list, the price of one call and the ledger of several.
  Money is \<open>Decimal\<close> in the code and \<open>rat\<close> here: the products and sums are exact within the 28
  digits the code's context keeps, and \<open>quantize\<close> is written out.
\<close>

subsection \<open>Reading a decimal\<close>

text \<open>
  \<open>Decimal(text)\<close> on ASCII text: white space around and underscores anywhere are ignored, an
  exponent is allowed; \<open>Special\<close> is an infinity or a \<open>nan\<close>.
\<close>

datatype decimal = Finite rat | Special

definition digits_value :: "pystr \<Rightarrow> int" where
  "digits_value ds = foldl (\<lambda>n d. 10 * n + (int d - 48)) 0 ds"

definition parse_exponent :: "pystr \<Rightarrow> int option" where
  "parse_exponent s =
     (let (sign, ds) = (case s of [] \<Rightarrow> (1, [])
                         | c # cs \<Rightarrow> if c = 45 then (-1, cs) else if c = 43 then (1, cs) else (1, s))
      in if ds \<noteq> [] \<and> list_all isdigit ds then Some (sign * digits_value ds) else None)"

definition scale10 :: "int \<Rightarrow> rat" where
  "scale10 e = (if 0 \<le> e then of_int (10 ^ nat e) else 1 / of_int (10 ^ nat (- e)))"

definition parse_unsigned :: "pystr \<Rightarrow> decimal option" where
  "parse_unsigned s =
     (if s = str ''inf'' \<or> s = str ''infinity'' then Some Special
      else if (prefix (str ''nan'') s \<and> list_all isdigit (drop 3 s)) \<or>
              (prefix (str ''snan'') s \<and> list_all isdigit (drop 4 s)) then Some Special
      else
        (let mantissa = takeWhile (\<lambda>c. c \<noteq> 101) s;
             rest = dropWhile (\<lambda>c. c \<noteq> 101) s;
             whole = takeWhile (\<lambda>c. c \<noteq> 46) mantissa;
             frac = drop 1 (dropWhile (\<lambda>c. c \<noteq> 46) mantissa);
             exponent = (if rest = [] then Some 0 else parse_exponent (drop 1 rest))
         in if whole @ frac = [] \<or> \<not> list_all isdigit (whole @ frac) then None
            else map_option
                   (\<lambda>e. Finite (of_int (digits_value (whole @ frac)) * scale10 (e - int (length frac))))
                   exponent))"

definition parse_decimal :: "pystr \<Rightarrow> decimal option" where
  "parse_decimal text =
     (let s = lower (filter (\<lambda>c. c \<noteq> 95) (strip text)) in
      case s of
        [] \<Rightarrow> None
      | c # cs \<Rightarrow>
          if c = 45 then
            map_option (\<lambda>d. case d of Finite r \<Rightarrow> Finite (- r) | Special \<Rightarrow> Special) (parse_unsigned cs)
          else if c = 43 then parse_unsigned cs
          else parse_unsigned s)"

subsection \<open>Prices\<close>

record model_pricing =
  mp_model :: pystr
  mp_input :: rat
  mp_output :: rat

text \<open>\<open>ModelPricing\<close> accepts a non-empty name and finite prices that are not negative.\<close>

definition ModelPricing :: "pystr \<Rightarrow> decimal \<Rightarrow> decimal \<Rightarrow> model_pricing option" where
  "ModelPricing model inp out =
     (case (inp, out) of
        (Finite i, Finite u) \<Rightarrow>
          if model \<noteq> [] \<and> 0 \<le> i \<and> 0 \<le> u then Some \<lparr>mp_model = model, mp_input = i, mp_output = u\<rparr>
          else None
      | _ \<Rightarrow> None)"

type_synonym pricing_table = "(pystr \<times> model_pricing) list"

definition pricing_add :: "pricing_table \<Rightarrow> model_pricing \<Rightarrow> pricing_table result" where
  "pricing_add t p =
     (if map_of t (mp_model p) \<noteq> None then
        raise_app PricingConfigurationError (Some (str ''A model may be priced only once.''))
          (Some [(str ''model'', PStr (mp_model p))])
      else Inr (AList.update (mp_model p) p t))"

definition pricing_get :: "pystr \<Rightarrow> pricing_table \<Rightarrow> model_pricing option" where
  "pricing_get model t = map_of t model"

definition pricing_models :: "pricing_table \<Rightarrow> pystr list" where
  "pricing_models t = sort (map fst t)"

definition parse_entry :: "pystr \<Rightarrow> model_pricing result" where
  "parse_entry entry =
     (case rsplit_on 58 2 entry of
        [m, i, u] \<Rightarrow>
          (let model = strip m;
               refuse = (\<lambda>reason. raise_app PricingConfigurationError
                 (Some (str ''A price entry could not be read.''))
                 (Some [(str ''model'', PStr model), (str ''reason'', PStr (str reason))]))
           in case parse_decimal (strip i) of
                None \<Rightarrow> refuse ''InvalidOperation''
              | Some di \<Rightarrow>
                  (case parse_decimal (strip u) of
                     None \<Rightarrow> refuse ''InvalidOperation''
                   | Some du \<Rightarrow>
                       (case ModelPricing model di du of
                          None \<Rightarrow> refuse ''ValidationError''
                        | Some p \<Rightarrow> Inr p)))
      | parts \<Rightarrow>
          raise_app PricingConfigurationError
            (Some (str ''A price entry must be 'model:input_per_million:output_per_million'.''))
            (Some [(str ''fields'', PInt (int (length parts)))]))"

text \<open>The constructor consumes the parsed entries lazily: entry by entry, parse then insert.\<close>

fun from_entries_into :: "pricing_table \<Rightarrow> pystr list \<Rightarrow> pricing_table result" where
  "from_entries_into t [] = Inr t"
| "from_entries_into t (e # es) =
     (if strip e = [] then from_entries_into t es
      else (case parse_entry e of
              Inl x \<Rightarrow> Inl x
            | Inr p \<Rightarrow>
                (case pricing_add t p of Inl x \<Rightarrow> Inl x | Inr t' \<Rightarrow> from_entries_into t' es)))"

definition from_entries :: "pystr list \<Rightarrow> pricing_table result" where
  "from_entries es = from_entries_into [] es"

subsection \<open>The price of one call\<close>

record llm_usage =
  lu_input :: int
  lu_output :: int

record cost_estimate =
  ce_provider :: pystr
  ce_model :: pystr
  ce_input_tokens :: int
  ce_output_tokens :: int
  ce_input_cost :: rat
  ce_output_cost :: rat
  ce_usage_reported :: bool
  ce_priced :: bool

definition ce_total_tokens :: "cost_estimate \<Rightarrow> int" where
  "ce_total_tokens e = ce_input_tokens e + ce_output_tokens e"

definition ce_total_cost :: "cost_estimate \<Rightarrow> rat" where
  "ce_total_cost e = ce_input_cost e + ce_output_cost e"

text \<open>\<open>quantize(Decimal("0.000001"), ROUND_HALF_UP)\<close>: halves go away from zero.\<close>

definition quantize6 :: "rat \<Rightarrow> rat" where
  "quantize6 x =
     (if 0 \<le> x then of_int \<lfloor>x * 1000000 + 1 / 2\<rfloor> / 1000000
      else - (of_int \<lfloor>- x * 1000000 + 1 / 2\<rfloor> / 1000000))"

definition call_cost :: "int \<Rightarrow> rat \<Rightarrow> rat" where
  "call_cost tokens per_million = quantize6 (of_int tokens / 1000000 * per_million)"

text \<open>\<open>CostEstimate\<close> refuses a negative field.\<close>

definition CostEstimate :: "cost_estimate \<Rightarrow> cost_estimate result" where
  "CostEstimate e =
     (let bad = map (\<lambda>(n, _). ([str n], str ''Input should be greater than or equal to 0''))
        (filter snd [(''input_tokens'', ce_input_tokens e < 0), (''output_tokens'', ce_output_tokens e < 0),
           (''input_cost'', ce_input_cost e < 0), (''output_cost'', ce_output_cost e < 0)])
      in if bad = [] then Inr e else Inl (ValidationError bad))"

definition estimate_cost ::
  "pystr \<Rightarrow> pystr \<Rightarrow> llm_usage option \<Rightarrow> pricing_table \<Rightarrow> cost_estimate result" where
  "estimate_cost provider model usage pricing =
     (let reported = (case usage of None \<Rightarrow> False | Some u \<Rightarrow> lu_input u \<noteq> 0 \<or> lu_output u \<noteq> 0);
          input_tokens = (case usage of None \<Rightarrow> 0 | Some u \<Rightarrow> lu_input u);
          output_tokens = (case usage of None \<Rightarrow> 0 | Some u \<Rightarrow> lu_output u);
          base = \<lparr>ce_provider = provider, ce_model = model, ce_input_tokens = input_tokens,
            ce_output_tokens = output_tokens, ce_input_cost = 0, ce_output_cost = 0,
            ce_usage_reported = reported, ce_priced = False\<rparr>
      in case pricing_get model pricing of
           None \<Rightarrow> CostEstimate base
         | Some price \<Rightarrow>
             CostEstimate (base\<lparr>ce_input_cost := call_cost input_tokens (mp_input price),
               ce_output_cost := call_cost output_tokens (mp_output price), ce_priced := True\<rparr>))"

subsection \<open>The ledger\<close>

type_synonym ledger = "cost_estimate list"

definition ledger_add :: "cost_estimate \<Rightarrow> ledger \<Rightarrow> ledger" where
  "ledger_add e l = l @ [e]"

definition ledger_calls :: "ledger \<Rightarrow> int" where
  "ledger_calls l = int (length l)"

definition ledger_input_tokens :: "ledger \<Rightarrow> int" where
  "ledger_input_tokens l = sum_list (map ce_input_tokens l)"

definition ledger_output_tokens :: "ledger \<Rightarrow> int" where
  "ledger_output_tokens l = sum_list (map ce_output_tokens l)"

definition ledger_total_tokens :: "ledger \<Rightarrow> int" where
  "ledger_total_tokens l = ledger_input_tokens l + ledger_output_tokens l"

definition ledger_total_cost :: "ledger \<Rightarrow> rat" where
  "ledger_total_cost l = sum_list (map ce_total_cost l)"

definition ledger_fully_priced :: "ledger \<Rightarrow> bool" where
  "ledger_fully_priced l = list_all ce_priced l"

definition ledger_by_model :: "ledger \<Rightarrow> (pystr \<times> rat) list" where
  "ledger_by_model l =
     sort_key fst
       (foldl (\<lambda>t e. AList.update (ce_model e)
          ((case map_of t (ce_model e) of None \<Rightarrow> 0 | Some x \<Rightarrow> x) + ce_total_cost e) t) [] l)"

text \<open>
  \<open>str\<close> of an amount: a sum in which a priced call takes part has six decimals, a sum of
  unpriced ones is the literal \<open>Decimal("0")\<close>.
\<close>

definition show_micros :: "rat \<Rightarrow> pystr" where
  "show_micros x =
     (let n = nat \<lfloor>x * 1000000\<rfloor>; ds = show_nat (n mod 1000000)
      in show_nat (n div 1000000) @ str ''.'' @ replicate (6 - length ds) 48 @ ds)"

definition show_cost :: "bool \<Rightarrow> rat \<Rightarrow> pystr" where
  "show_cost priced x = (if priced then show_micros x else str ''0'')"

definition ledger_summary :: "ledger \<Rightarrow> pystr" where
  "ledger_summary l =
     str ''calls='' @ show_int (ledger_calls l) @ str '' input_tokens='' @ show_int (ledger_input_tokens l) @
     str '' output_tokens='' @ show_int (ledger_output_tokens l) @ str '' cost='' @
     show_cost (list_ex ce_priced l) (ledger_total_cost l) @ str '' fully_priced='' @
     (if ledger_fully_priced l then str ''True'' else str ''False'')"

subsection \<open>Lemmas\<close>

lemma quantize6_nonneg: "0 \<le> x \<Longrightarrow> 0 \<le> quantize6 x"
  by (simp add: quantize6_def)

lemma quantize6_error:
  assumes "0 \<le> x"
  shows "\<bar>quantize6 x - x\<bar> \<le> 1 / 2000000"
proof -
  have "of_int \<lfloor>x * 1000000 + 1 / 2\<rfloor> \<le> x * 1000000 + 1 / 2"
    "x * 1000000 + 1 / 2 < of_int \<lfloor>x * 1000000 + 1 / 2\<rfloor> + 1"
    by linarith+
  then have "\<bar>of_int \<lfloor>x * 1000000 + 1 / 2\<rfloor> / 1000000 - x\<bar> \<le> 1 / 2000000"
    by (simp only: abs_le_iff) (auto simp: field_simps)
  with assms show ?thesis by (simp add: quantize6_def)
qed

lemma quantize6_mono: "0 \<le> x \<Longrightarrow> x \<le> y \<Longrightarrow> quantize6 x \<le> quantize6 y"
  by (simp add: quantize6_def divide_right_mono floor_mono)

lemma CostEstimate_Inr: "CostEstimate e = Inr e' \<Longrightarrow>
    e' = e \<and> 0 \<le> ce_input_tokens e \<and> 0 \<le> ce_output_tokens e \<and> 0 \<le> ce_input_cost e \<and> 0 \<le> ce_output_cost e"
  by (auto simp: CostEstimate_def Let_def split: if_splits)

lemma sum_snd_update:
  fixes t :: "('k \<times> rat) list"
  assumes "distinct (map fst t)"
  shows "sum_list (map snd (AList.update k ((case map_of t k of None \<Rightarrow> 0 | Some x \<Rightarrow> x) + v) t)) =
    sum_list (map snd t) + v"
proof -
  have "\<lbrakk>distinct (map fst t); map_of t k = Some x\<rbrakk> \<Longrightarrow>
     sum_list (map snd (AList.update k (x + v) t)) = sum_list (map snd t) + v" for x
    by (induction t) (auto split: if_splits)
  moreover have "map_of t k = None \<Longrightarrow> sum_list (map snd (AList.update k v t)) = sum_list (map snd t) + v"
    by (induction t) (auto split: if_splits)
  ultimately show ?thesis using assms by (auto split: option.splits)
qed

lemma ledger_by_model_sum: "sum_list (map snd (ledger_by_model l)) = ledger_total_cost l"
proof -
  define step where "step = (\<lambda>t e. AList.update (ce_model e)
    ((case map_of t (ce_model e) of None \<Rightarrow> 0 | Some x \<Rightarrow> x) + ce_total_cost e) t)"
  have "distinct (map fst t) \<Longrightarrow>
    sum_list (map snd (foldl step t l)) = sum_list (map snd t) + sum_list (map ce_total_cost l)" for t
  proof (induction l arbitrary: t)
    case (Cons e l)
    then show ?case
      using sum_snd_update [of t "ce_model e" "ce_total_cost e"] by (simp add: step_def distinct_update)
  qed simp
  from this [of "[]"] show ?thesis
    by (simp add: ledger_by_model_def sum_list_sort_key ledger_total_cost_def step_def)
qed

lemma ledger_by_model_keys:
  "set (map fst (ledger_by_model l)) = set (map ce_model l) \<and> distinct (map fst (ledger_by_model l)) \<and>
   sorted (map fst (ledger_by_model l))"
proof -
  define step where "step = (\<lambda>t e. AList.update (ce_model e)
    ((case map_of t (ce_model e) of None \<Rightarrow> 0 | Some x \<Rightarrow> x) + ce_total_cost e) t)"
  have keys: "set (map fst (foldl step t l)) = set (map fst t) \<union> set (map ce_model l)" for t
    by (induction l arbitrary: t) (auto simp: step_def set_update_keys simp del: set_map)
  have "distinct (map fst t) \<Longrightarrow> distinct (map fst (foldl step t l))" for t
    by (induction l arbitrary: t) (auto simp: step_def distinct_update)
  then have "distinct (map fst (foldl step [] l))" by simp
  moreover have "mset (map fst (ledger_by_model l)) = mset (map fst (foldl step [] l))"
    by (simp add: ledger_by_model_def step_def)
  ultimately show ?thesis
    using keys [of "[]"]
    by (metis (no_types, lifting) ledger_by_model_def mset_eq_imp_distinct_iff set_mset_mset sorted_sort_key
        list.set(1) list.simps(8) sup_bot_left)
qed

lemma rsplit_on_two:
  assumes "58 \<notin> set i" "58 \<notin> set u"
  shows "rsplit_on 58 2 (m @ [58] @ i @ [58] @ u) = [m, i, u]"
proof -
  have "split_on 58 (m @ [58] @ i @ [58] @ u) = (split_on 58 m @ [i]) @ [u]"
    using split_on_sep [OF assms(2), of "m @ [58] @ i"] split_on_sep [OF assms(1), of m] by simp
  then show ?thesis
    by (cases "split_on 58 m") (auto simp: rsplit_on_def Let_def dest: arg_cong [where f = "join [58]"])
qed

subsection \<open>Properties\<close>

lemma call_cost_error:
  assumes "0 \<le> n" "0 \<le> p"
  shows "0 \<le> call_cost n p" "\<bar>call_cost n p - of_int n * p / 1000000\<bar> \<le> 1 / 2000000"
proof -
  have nn: "0 \<le> of_int n / 1000000 * p" using assms by simp
  show "0 \<le> call_cost n p" unfolding call_cost_def by (rule quantize6_nonneg [OF nn])
  show "\<bar>call_cost n p - of_int n * p / 1000000\<bar> \<le> 1 / 2000000"
    using quantize6_error [OF nn] unfolding call_cost_def by (simp add: mult.commute)
qed

text \<open>
  A call of a priced model that reports token counts always gets an estimate, marked
  priced, whose two costs are not negative and whose total is within a microdollar of the
  exact price; a call of an unpriced model gets zero money, marked unpriced.
\<close>

theorem estimate_within_a_microdollar:
  assumes "0 \<le> lu_input u" "0 \<le> lu_output u"
    and "\<And>p. pricing_get model t = Some p \<Longrightarrow> 0 \<le> mp_input p \<and> 0 \<le> mp_output p"
  shows "\<exists>e. estimate_cost provider model (Some u) t = Inr e \<and>
    ce_total_tokens e = lu_input u + lu_output u \<and>
    (case pricing_get model t of
       None \<Rightarrow> \<not> ce_priced e \<and> ce_total_cost e = 0
     | Some p \<Rightarrow> ce_priced e \<and> 0 \<le> ce_input_cost e \<and> 0 \<le> ce_output_cost e \<and>
         \<bar>ce_total_cost e - (of_int (lu_input u) * mp_input p + of_int (lu_output u) * mp_output p) / 1000000\<bar>
           \<le> 1 / 1000000)"
proof (cases "pricing_get model t")
  case None
  with assms show ?thesis
    by (simp add: estimate_cost_def Let_def CostEstimate_def ce_total_tokens_def ce_total_cost_def)
next
  case (Some p)
  from assms(3) [OF Some] have p: "0 \<le> mp_input p" "0 \<le> mp_output p" by auto
  note i = call_cost_error [OF assms(1) p(1)] and o = call_cost_error [OF assms(2) p(2)]
  have "\<bar>call_cost (lu_input u) (mp_input p) + call_cost (lu_output u) (mp_output p) -
      (of_int (lu_input u) * mp_input p + of_int (lu_output u) * mp_output p) / 1000000\<bar> \<le> 1 / 1000000"
    using i(2) o(2) unfolding abs_le_iff add_divide_distrib by linarith
  with Some assms(1,2) i(1) o(1) show ?thesis
    by (simp add: estimate_cost_def Let_def CostEstimate_def ce_total_tokens_def ce_total_cost_def)
qed

lemma estimate_within_a_microdollar_witness:
  "\<exists>e. estimate_cost (str ''groq'') (str ''m'') (Some \<lparr>lu_input = 1000, lu_output = 50\<rparr>)
      [(str ''m'', \<lparr>mp_model = str ''m'', mp_input = 1 / 2, mp_output = 3\<rparr>)] = Inr e \<and> ce_total_tokens e = 1050"
  using estimate_within_a_microdollar [of "\<lparr>lu_input = 1000, lu_output = 50\<rparr>" "str ''m''"
      "[(str ''m'', \<lparr>mp_model = str ''m'', mp_input = 1 / 2, mp_output = 3\<rparr>)]" "str ''groq''"]
  by (auto simp: pricing_get_def)

text \<open>
  The ledger's break-down by model accounts for every call exactly once: the amounts of
  the models sum to the total cost, there is one entry per model used, and the entries are in
  the order of the model names.
\<close>

theorem ledger_break_down_exact:
  "sum_list (map snd (ledger_by_model l)) = ledger_total_cost l \<and>
   set (map fst (ledger_by_model l)) = set (map ce_model l) \<and>
   distinct (map fst (ledger_by_model l)) \<and> sorted (map fst (ledger_by_model l))"
  using ledger_by_model_sum ledger_by_model_keys by blast

text \<open>
  A price entry is read from the right, so a model name may contain colons: the text
  \<open>model:input:output\<close> with two readable prices yields exactly that model and those prices.
\<close>

theorem price_entry_round_trip:
  assumes "58 \<notin> set i" "58 \<notin> set u" "strip m \<noteq> []"
    and "parse_decimal (strip i) = Some (Finite x)" "parse_decimal (strip u) = Some (Finite y)"
    and "0 \<le> x" "0 \<le> y"
  shows "parse_entry (m @ [58] @ i @ [58] @ u) =
    Inr \<lparr>mp_model = strip m, mp_input = x, mp_output = y\<rparr>"
  using assms rsplit_on_two [OF assms(1,2), of m] by (simp add: parse_entry_def ModelPricing_def Let_def)

lemma price_entry_round_trip_witness:
  "parse_entry (str ''org/model:v2:0.59:0.79'') =
    Inr \<lparr>mp_model = str ''org/model:v2'', mp_input = 59 / 100, mp_output = 79 / 100\<rparr>"
proof -
  have "parse_entry (str ''org/model:v2'' @ [58] @ str ''0.59'' @ [58] @ str ''0.79'') =
    Inr \<lparr>mp_model = strip (str ''org/model:v2''), mp_input = 59 / 100, mp_output = 79 / 100\<rparr>"
  proof (rule price_entry_round_trip)
    show "parse_decimal (strip (str ''0.59'')) = Some (Finite (59 / 100))"
      "parse_decimal (strip (str ''0.79'')) = Some (Finite (79 / 100))"
      by (simp_all add: parse_decimal_def strip_defs str_def lower_def lower_cp_def
          parse_unsigned_def digits_value_def scale10_def isdigit_def)
    show "strip (str ''org/model:v2'') \<noteq> []" by (simp add: strip_defs str_def)
    show "58 \<notin> set (str ''0.59'')" "58 \<notin> set (str ''0.79'')" by (simp_all add: str_def)
  qed simp_all
  moreover have "str ''org/model:v2'' @ [58] @ str ''0.59'' @ [58] @ str ''0.79'' = str ''org/model:v2:0.59:0.79''"
    by (simp add: str_def)
  moreover have "strip (str ''org/model:v2'') = str ''org/model:v2''" by (simp add: strip_defs str_def)
  ultimately show ?thesis by simp
qed

end
