(* ===== verification/Tracing.thy ===== *)
theory Tracing
  imports Cost
begin

text \<open>
  \<open>observability/tracer.py\<close> and the wrappers of \<open>observability/integration.py\<close>. The context
  variable of the tracer is the stack of open spans, innermost first: a handle is stored there
  once, so the traced body that sets an attribute and the context manager that closes the span
  see the same object. A traced body is a function from the state to a result and a state.
  \<open>fresh n\<close> is the \<open>n\<close>-th value of \<open>new_id()\<close>, \<open>clock\<close> reads the time off the world \<open>'w\<close> that
  the traced work moves, and a recorder is an operation on its own state \<open>'r\<close> that may raise.
\<close>

subsection \<open>Spans\<close>

datatype span_kind = REQUEST | AGENT | TOOL | WORKFLOW | LLM | ROUTING | RETRIEVAL

datatype span_status = SpanOk | SpanError

record span =
  sp_trace_id :: pystr
  sp_span_id :: pystr
  sp_parent :: "pystr option"
  sp_name :: pystr
  sp_kind :: span_kind
  sp_status :: span_status
  sp_duration_ms :: rat
  sp_error :: "pystr option"
  sp_attributes :: attrs

definition span_root :: "span \<Rightarrow> bool" where
  "span_root s \<longleftrightarrow> sp_parent s = None"

record span_handle =
  sh_trace_id :: pystr
  sh_span_id :: pystr
  sh_parent :: "pystr option"
  sh_name :: pystr
  sh_kind :: span_kind
  sh_attributes :: attrs
  sh_status :: span_status
  sh_error :: "pystr option"

definition dict_update :: "('k \<times> 'v) list \<Rightarrow> ('k \<times> 'v) list \<Rightarrow> ('k \<times> 'v) list" where
  "dict_update d new = foldl (\<lambda>d (k, v). AList.update k v d) d new"

definition handle_set_attributes :: "attrs \<Rightarrow> span_handle \<Rightarrow> span_handle" where
  "handle_set_attributes values h =
     h\<lparr>sh_attributes := dict_update (sh_attributes h) (sanitise_attributes (Some values))\<rparr>"

definition handle_set_attribute :: "pystr \<Rightarrow> pyval \<Rightarrow> span_handle \<Rightarrow> span_handle" where
  "handle_set_attribute key v h = handle_set_attributes [(key, v)] h"

definition handle_record_error :: "pystr \<Rightarrow> span_handle \<Rightarrow> span_handle" where
  "handle_record_error category h = h\<lparr>sh_status := SpanError, sh_error := Some category\<rparr>"

definition to_span :: "rat \<Rightarrow> span_handle \<Rightarrow> span" where
  "to_span duration h =
     \<lparr>sp_trace_id = sh_trace_id h, sp_span_id = sh_span_id h, sp_parent = sh_parent h,
      sp_name = sh_name h, sp_kind = sh_kind h, sp_status = sh_status h,
      sp_duration_ms = duration, sp_error = sh_error h, sp_attributes = sh_attributes h\<rparr>"

subsection \<open>Recorders\<close>

type_synonym 'r recorder = "span \<Rightarrow> 'r \<Rightarrow> exn option \<times> 'r"

definition memory_record :: "span list recorder" where
  "memory_record s spans = (None, spans @ [s])"

definition spans_by_name :: "pystr \<Rightarrow> span list \<Rightarrow> span list" where
  "spans_by_name name spans = filter (\<lambda>s. sp_name s = name) spans"

definition null_record :: "'r recorder" where
  "null_record s r = (None, r)"

fun kind_value :: "span_kind \<Rightarrow> pystr" where
  "kind_value REQUEST = str ''request''"
| "kind_value AGENT = str ''agent''"
| "kind_value TOOL = str ''tool''"
| "kind_value WORKFLOW = str ''workflow''"
| "kind_value LLM = str ''llm''"
| "kind_value ROUTING = str ''routing''"
| "kind_value RETRIEVAL = str ''retrieval''"

fun status_value :: "span_status \<Rightarrow> pystr" where
  "status_value SpanOk = str ''ok''"
| "status_value SpanError = str ''error''"

text \<open>The log line of \<open>LoggingRecorder\<close>; \<open>fmt1\<close> is \<open>%.1f\<close>.\<close>

definition span_line :: "(rat \<Rightarrow> pystr) \<Rightarrow> (rat \<Rightarrow> pystr) \<Rightarrow> span \<Rightarrow> pystr" where
  "span_line frepr fmt1 s =
     str ''span trace='' @ sp_trace_id s @ str '' span='' @ sp_span_id s @ str '' parent='' @
     (case sp_parent s of None \<Rightarrow> str ''-'' | Some p \<Rightarrow> if p = [] then str ''-'' else p) @
     str '' name='' @ sp_name s @ str '' kind='' @ kind_value (sp_kind s) @
     str '' status='' @ status_value (sp_status s) @ str '' duration_ms='' @ fmt1 (sp_duration_ms s) @
     (case sp_error s of None \<Rightarrow> [] | Some e \<Rightarrow> if e = [] then [] else str '' error='' @ e) @
     concat (map (\<lambda>(k, v). str '' '' @ k @ str ''='' @ py_str frepr v)
       (sort_key fst (sp_attributes s)))"

definition logging_record :: "(rat \<Rightarrow> pystr) \<Rightarrow> (rat \<Rightarrow> pystr) \<Rightarrow> pystr list recorder" where
  "logging_record frepr fmt1 s lines = (None, lines @ [span_line frepr fmt1 s])"

subsection \<open>The tracer\<close>

record ('r, 'w) tracer =
  tr_open :: "span_handle list"
  tr_ids :: nat
  tr_sink :: 'r
  tr_ledger :: "ledger option"
  tr_metrics :: "metric_call list"
  tr_world :: 'w

type_synonym ('r, 'w, 'a) traced = "('r, 'w) tracer \<Rightarrow> 'a result \<times> ('r, 'w) tracer"

definition current_span :: "('r, 'w) tracer \<Rightarrow> span_handle option" where
  "current_span t = (case tr_open t of [] \<Rightarrow> None | h # _ \<Rightarrow> Some h)"

definition current_trace_id :: "('r, 'w) tracer \<Rightarrow> pystr option" where
  "current_trace_id t = map_option sh_trace_id (current_span t)"

definition on_current :: "(span_handle \<Rightarrow> span_handle) \<Rightarrow> ('r, 'w) tracer \<Rightarrow> ('r, 'w) tracer" where
  "on_current f t =
     (case tr_open t of [] \<Rightarrow> t | h # hs \<Rightarrow> t\<lparr>tr_open := f h # hs\<rparr>)"

definition open_span ::
  "(nat \<Rightarrow> pystr) \<Rightarrow> pystr \<Rightarrow> span_kind \<Rightarrow> attrs \<Rightarrow> ('r, 'w) tracer \<Rightarrow> ('r, 'w) tracer" where
  "open_span fresh name kind attributes t =
     (let (trace, parent, n) =
        (case current_span t of
           None \<Rightarrow> (fresh (tr_ids t), None, Suc (tr_ids t))
         | Some p \<Rightarrow> (sh_trace_id p, Some (sh_span_id p), tr_ids t));
        h = \<lparr>sh_trace_id = trace, sh_span_id = fresh n, sh_parent = parent, sh_name = name,
             sh_kind = kind, sh_attributes = sanitise_attributes (Some attributes),
             sh_status = SpanOk, sh_error = None\<rparr>
      in t\<lparr>tr_open := h # tr_open t, tr_ids := Suc n\<rparr>)"

text \<open>\<open>_emit\<close>: a recorder that raises is ignored.\<close>

definition emit :: "'r recorder \<Rightarrow> span \<Rightarrow> ('r, 'w) tracer \<Rightarrow> ('r, 'w) tracer" where
  "emit rec_span s t = t\<lparr>tr_sink := snd (rec_span s (tr_sink t))\<rparr>"

definition close_span ::
  "'r recorder \<Rightarrow> ('w \<Rightarrow> rat) \<Rightarrow> rat \<Rightarrow> ('r, 'w) tracer \<Rightarrow> ('r, 'w) tracer" where
  "close_span rec_span clock started t =
     (case tr_open t of
        [] \<Rightarrow> t
      | h # hs \<Rightarrow>
          emit rec_span (to_span ((clock (tr_world t) - started) * 1000) h) (t\<lparr>tr_open := hs\<rparr>))"

definition with_span ::
  "(nat \<Rightarrow> pystr) \<Rightarrow> ('w \<Rightarrow> rat) \<Rightarrow> 'r recorder \<Rightarrow> pystr \<Rightarrow> span_kind \<Rightarrow> attrs \<Rightarrow>
   ('r, 'w, 'a) traced \<Rightarrow> ('r, 'w, 'a) traced" where
  "with_span fresh clock rec_span name kind attributes body t =
     (let t1 = open_span fresh name kind attributes t;
          started = clock (tr_world t1);
          (r, t2) = body t1;
          t3 = (case r of Inl e \<Rightarrow> on_current (handle_record_error (exn_type e)) t2 | Inr _ \<Rightarrow> t2)
      in (r, close_span rec_span clock started t3))"

subsection \<open>The wrappers\<close>

definition log_metric :: "metric_call \<Rightarrow> ('r, 'w) tracer \<Rightarrow> ('r, 'w) tracer" where
  "log_metric c t = t\<lparr>tr_metrics := tr_metrics t @ [c]\<rparr>"

record completion =
  co_provider :: pystr
  co_model :: pystr
  co_stop_reason :: "pystr option"
  co_usage :: llm_usage

text \<open>\<open>TracedLLMProvider._account\<close> and \<open>complete_structured\<close>.\<close>

definition traced_account ::
  "pricing_table \<Rightarrow> completion \<Rightarrow> ('r, 'w, cost_estimate) traced" where
  "traced_account pricing c t =
     (case estimate_cost (co_provider c) (co_model c) (Some (co_usage c)) pricing of
        Inl e \<Rightarrow> (Inl e, t)
      | Inr est \<Rightarrow>
          let labels = Some [(str ''provider'', PStr (co_provider c)), (str ''model'', PStr (co_model c))];
              t1 = on_current (handle_set_attributes
                 [(str ''model'', PStr (co_model c)),
                  (str ''input_tokens'', PInt (ce_input_tokens est)),
                  (str ''output_tokens'', PInt (ce_output_tokens est)),
                  (str ''usage_reported'', PBool (ce_usage_reported est)),
                  (str ''priced'', PBool (ce_priced est)),
                  (str ''cost'', PStr (show_cost (ce_priced est) (ce_total_cost est))),
                  (str ''stop_reason'', case co_stop_reason c of None \<Rightarrow> PNone | Some s \<Rightarrow> PStr s)]) t;
              t2 = t1\<lparr>tr_ledger := map_option (ledger_add est) (tr_ledger t1)\<rparr>;
              t3 = log_metric (Increment (str ''llm_calls_total'') labels 1) t2;
              t4 = log_metric (Increment (str ''llm_input_tokens_total'') labels (ce_input_tokens est)) t3;
              t5 = log_metric (Increment (str ''llm_output_tokens_total'') labels (ce_output_tokens est)) t4
          in (Inr est, t5))"

definition traced_complete ::
  "(nat \<Rightarrow> pystr) \<Rightarrow> ('w \<Rightarrow> rat) \<Rightarrow> 'r recorder \<Rightarrow> pricing_table \<Rightarrow> pystr \<Rightarrow> pystr \<Rightarrow>
   ('c \<Rightarrow> completion) \<Rightarrow> ('r, 'w, 'c) traced \<Rightarrow> ('r, 'w, 'c) traced" where
  "traced_complete fresh clock rec_span pricing provider schema meta call =
     with_span fresh clock rec_span (str ''llm.complete_structured'') LLM
       [(str ''provider'', PStr provider), (str ''schema'', PStr schema)]
       (\<lambda>t. case call t of
              (Inl e, t1) \<Rightarrow> (Inl e, t1)
            | (Inr c, t1) \<Rightarrow>
                (case traced_account pricing (meta c) t1 of
                   (Inl e, t2) \<Rightarrow> (Inl e, t2)
                 | (Inr _, t2) \<Rightarrow> (Inr c, t2)))"

text \<open>\<open>TracedTool.run\<close>; the elapsed time is read on the same world.\<close>

definition traced_tool_run ::
  "(nat \<Rightarrow> pystr) \<Rightarrow> ('w \<Rightarrow> rat) \<Rightarrow> 'r recorder \<Rightarrow> pystr \<Rightarrow>
   ('r, 'w, 'o) traced \<Rightarrow> ('r, 'w, 'o) traced" where
  "traced_tool_run fresh clock rec_span name run t =
     (let started = clock (tr_world t); label = (str ''tool'', PStr name) in
      with_span fresh clock rec_span (str ''tool.run'') TOOL [label]
        (\<lambda>t. case run t of
              (Inl e, t1) \<Rightarrow>
                (Inl e, log_metric (Increment (str ''tool_runs_total'')
                   (Some [label, (str ''outcome'', PStr (str ''error''))]) 1) t1)
            | (Inr out, t1) \<Rightarrow>
                let t2 = log_metric (Increment (str ''tool_runs_total'')
                       (Some [label, (str ''outcome'', PStr (str ''ok''))]) 1) t1;
                    t3 = log_metric (Observe (str ''tool_duration_ms'')
                       ((clock (tr_world t2) - started) * 1000) (Some [label])) t2
                in (Inr out, t3)) t)"

text \<open>\<open>TracedIntentHandler.handle\<close>\<close>

definition traced_handle ::
  "(nat \<Rightarrow> pystr) \<Rightarrow> ('w \<Rightarrow> rat) \<Rightarrow> 'r recorder \<Rightarrow> pystr \<Rightarrow> ('resp \<Rightarrow> bool) \<Rightarrow>
   ('r, 'w, 'resp) traced \<Rightarrow> ('r, 'w, 'resp) traced" where
  "traced_handle fresh clock rec_span name handled handle =
     with_span fresh clock rec_span (str ''routing.handle'') ROUTING [(str ''handler'', PStr name)]
       (\<lambda>t. case handle t of
              (Inl e, t1) \<Rightarrow> (Inl e, t1)
            | (Inr resp, t1) \<Rightarrow>
                let t2 = on_current (handle_set_attribute (str ''handled'') (PBool (handled resp))) t1;
                    t3 = log_metric (Increment (str ''handler_runs_total'')
                       (Some [(str ''handler'', PStr name), (str ''handled'', PBool (handled resp))]) 1) t2
                in (Inr resp, t3))"

subsection \<open>Well-nested bodies\<close>

text \<open>
  A body is well nested when it leaves open exactly the spans it found open. Bodies made of
  the operations above are: opening a span around a well-nested body is well nested.
\<close>

definition open_ids :: "('r, 'w) tracer \<Rightarrow> (pystr \<times> pystr) list" where
  "open_ids t = map (\<lambda>h. (sh_trace_id h, sh_span_id h)) (tr_open t)"

definition well_nested :: "('r, 'w, 'a) traced \<Rightarrow> bool" where
  "well_nested body \<longleftrightarrow> (\<forall>t. open_ids (snd (body t)) = open_ids t)"

lemma on_current_ids:
  "(\<And>h. sh_trace_id (f h) = sh_trace_id h \<and> sh_span_id (f h) = sh_span_id h) \<Longrightarrow>
   open_ids (on_current f t) = open_ids t"
  by (simp add: on_current_def open_ids_def split: list.split)

lemma record_error_ids [simp]:
  "open_ids (on_current (handle_record_error c) t) = open_ids t"
  by (rule on_current_ids) (simp add: handle_record_error_def)

lemma set_attributes_ids [simp]:
  "open_ids (on_current (handle_set_attributes kvs) t) = open_ids t"
  "open_ids (on_current (handle_set_attribute k v) t) = open_ids t"
  by (rule on_current_ids, simp add: handle_set_attributes_def handle_set_attribute_def)+

lemma log_metric_ids [simp]: "open_ids (log_metric c t) = open_ids t" "tr_open (log_metric c t) = tr_open t"
  by (simp_all add: log_metric_def open_ids_def)

lemma open_ids_upd [simp]:
  "open_ids (t\<lparr>tr_ids := n\<rparr>) = open_ids t" "open_ids (t\<lparr>tr_sink := r\<rparr>) = open_ids t"
  "open_ids (t\<lparr>tr_ledger := l\<rparr>) = open_ids t" "open_ids (t\<lparr>tr_world := w\<rparr>) = open_ids t"
  by (simp_all add: open_ids_def)

lemma close_span_ids: "open_ids (close_span rc clock st t) = tl (open_ids t)"
  by (simp add: close_span_def emit_def open_ids_def split: list.split)

lemma open_span_ids: "tl (open_ids (open_span fresh name kind a t)) = open_ids t"
  by (simp add: open_span_def open_ids_def Let_def split: option.split)

lemma well_nestedD: "well_nested body \<Longrightarrow> body t = (r, t') \<Longrightarrow> open_ids t' = open_ids t"
  unfolding well_nested_def by (metis snd_conv)

lemma with_span_well_nested [intro]:
  assumes "well_nested body"
  shows "well_nested (with_span fresh clock rc name kind a body)"
  using well_nestedD [OF assms]
  by (auto simp: well_nested_def with_span_def Let_def close_span_ids open_span_ids
      split: prod.split sum.split)

lemma traced_account_ids: "open_ids (snd (traced_account pricing c t)) = open_ids t"
  by (simp add: traced_account_def Let_def split: sum.split)

lemma traced_complete_well_nested:
  assumes "well_nested call"
  shows "well_nested (traced_complete fresh clock rc pricing p s meta call)"
  unfolding traced_complete_def
proof (rule with_span_well_nested)
  show "well_nested (\<lambda>t. case call t of (Inl e, t1) \<Rightarrow> (Inl e, t1)
      | (Inr c, t1) \<Rightarrow> (case traced_account pricing (meta c) t1 of
          (Inl e, t2) \<Rightarrow> (Inl e, t2) | (Inr _, t2) \<Rightarrow> (Inr c, t2)))"
    unfolding well_nested_def
  proof
    fix t
    obtain r t1 where c: "call t = (r, t1)" by force
    then have ids: "open_ids t1 = open_ids t" by (rule well_nestedD [OF assms])
    have acc: "open_ids t2 = open_ids t1" if "traced_account pricing x t1 = (y, t2)" for x y t2
      using traced_account_ids [of pricing x t1] that by simp
    show "open_ids (snd (case call t of (Inl e, t1) \<Rightarrow> (Inl e, t1)
      | (Inr c, t1) \<Rightarrow> (case traced_account pricing (meta c) t1 of
          (Inl e, t2) \<Rightarrow> (Inl e, t2) | (Inr _, t2) \<Rightarrow> (Inr c, t2)))) = open_ids t"
      using ids by (cases r) (auto simp: c dest: acc split: prod.split sum.split)
  qed
qed

subsection \<open>What a span records\<close>

lemma with_span_result: "fst (with_span fresh clock rc name kind a body t) = fst (body (open_span fresh name kind a t))"
  by (simp add: with_span_def Let_def split: prod.split)

text \<open>Every span handed to the recorder is content free, however the body sets attributes.\<close>

definition attrs_ok :: "attrs \<Rightarrow> bool" where
  "attrs_ok kvs \<longleftrightarrow> (\<forall>(k, v) \<in> set kvs. content_free v)"

definition spans_ok :: "(span list, 'w) tracer \<Rightarrow> bool" where
  "spans_ok t \<longleftrightarrow>
     (\<forall>h \<in> set (tr_open t). attrs_ok (sh_attributes h)) \<and>
     (\<forall>s \<in> set (tr_sink t). attrs_ok (sp_attributes s))"

definition keeps_spans_ok :: "(span list, 'w, 'a) traced \<Rightarrow> bool" where
  "keeps_spans_ok body \<longleftrightarrow> (\<forall>t. spans_ok t \<longrightarrow> spans_ok (snd (body t)))"

lemma attrs_ok_sanitise [simp]: "attrs_ok (sanitise_attributes raw)"
  unfolding attrs_ok_def using sanitise_attributes_values by blast

lemma attrs_ok_update: "attrs_ok d \<Longrightarrow> content_free v \<Longrightarrow> attrs_ok (AList.update k v d)"
  unfolding attrs_ok_def using set_AList_update [of k v d] by blast

lemma attrs_ok_dict_update: "attrs_ok d \<Longrightarrow> attrs_ok new \<Longrightarrow> attrs_ok (dict_update d new)"
  unfolding dict_update_def
proof (induction new arbitrary: d)
  case (Cons kv new)
  obtain k v where kv: "kv = (k, v)" by force
  from Cons.prems(2) have new: "content_free v" "attrs_ok new"
    by (simp_all add: attrs_ok_def kv)
  have "attrs_ok (AList.update k v d)" by (rule attrs_ok_update [OF Cons.prems(1) new(1)])
  from Cons.IH [OF this new(2)] show ?case by (simp add: kv)
qed simp

lemma on_current_ok:
  "spans_ok t \<Longrightarrow> (\<And>h. attrs_ok (sh_attributes h) \<Longrightarrow> attrs_ok (sh_attributes (f h))) \<Longrightarrow>
   spans_ok (on_current f t)"
  by (auto simp: spans_ok_def on_current_def split: list.split)

lemma set_attributes_ok [invs]:
  "spans_ok t \<Longrightarrow> spans_ok (on_current (handle_set_attributes kvs) t)"
  by (erule on_current_ok) (simp add: handle_set_attributes_def attrs_ok_dict_update)

lemma open_span_ok [invs]: "spans_ok t \<Longrightarrow> spans_ok (open_span fresh name kind a t)"
  by (auto simp: spans_ok_def open_span_def Let_def split: option.split)

lemma close_span_ok [invs]: "spans_ok t \<Longrightarrow> spans_ok (close_span memory_record clock st t)"
  by (auto simp: spans_ok_def close_span_def emit_def memory_record_def to_span_def split: list.split)

lemma with_span_keeps_ok [intro]:
  assumes "keeps_spans_ok body"
  shows "keeps_spans_ok (with_span fresh clock memory_record name kind a body)"
  unfolding keeps_spans_ok_def
proof (intro allI impI)
  fix t :: "(span list, 'a) tracer"
  assume "spans_ok t"
  then have "spans_ok (open_span fresh name kind a t)" by (rule open_span_ok)
  moreover obtain r t2 where b: "body (open_span fresh name kind a t) = (r, t2)" by force
  ultimately have "spans_ok t2" using assms unfolding keeps_spans_ok_def by (metis snd_conv)
  then have "spans_ok (on_current (handle_record_error c) t2)" for c
    by (rule on_current_ok) (simp add: handle_record_error_def)
  with \<open>spans_ok t2\<close> show "spans_ok (snd (with_span fresh clock memory_record name kind a body t))"
    by (cases r) (auto simp: with_span_def b intro: close_span_ok)
qed

subsection \<open>One trace\<close>

text \<open>Every span a body finishes belongs to the trace of the span it runs under.\<close>

definition one_trace :: "(span list, 'w, 'a) traced \<Rightarrow> bool" where
  "one_trace body \<longleftrightarrow> well_nested body \<and>
     (\<forall>t tid. current_trace_id t = Some tid \<longrightarrow>
        (\<exists>new. tr_sink (snd (body t)) = tr_sink t @ new \<and> (\<forall>s \<in> set new. sp_trace_id s = tid)))"

lemma current_trace_id_ids: "current_trace_id t = (case open_ids t of [] \<Rightarrow> None | (tid, _) # _ \<Rightarrow> Some tid)"
  by (simp add: current_trace_id_def current_span_def open_ids_def split: list.split)

lemma on_current_sink [simp]: "tr_sink (on_current f t) = tr_sink t"
  by (simp add: on_current_def split: list.split)

lemma open_span_sink [simp]: "tr_sink (open_span fresh name kind a t) = tr_sink t"
  by (simp add: open_span_def Let_def split: option.split)

lemma open_span_trace:
  "current_trace_id (open_span fresh name kind a t) =
   Some (case current_trace_id t of None \<Rightarrow> fresh (tr_ids t) | Some tid \<Rightarrow> tid)"
  by (simp add: open_span_def current_trace_id_def current_span_def Let_def split: list.split)

lemma close_span_sink:
  "current_trace_id t = Some tid \<Longrightarrow>
   \<exists>s. tr_sink (close_span memory_record clock st t) = tr_sink t @ [s] \<and> sp_trace_id s = tid"
  by (auto simp: close_span_def current_trace_id_def current_span_def emit_def memory_record_def
      to_span_def split: list.splits)

lemma with_span_trace:
  fixes fresh :: "nat \<Rightarrow> pystr"
  assumes "one_trace body"
  defines "tid \<equiv> \<lambda>t. case current_trace_id t of None \<Rightarrow> fresh (tr_ids t) | Some tid \<Rightarrow> tid"
  shows "\<exists>new. tr_sink (snd (with_span fresh clock memory_record name kind a body t)) = tr_sink t @ new \<and>
    new \<noteq> [] \<and> (\<forall>s \<in> set new. sp_trace_id s = tid t)"
proof -
  let ?t1 = "open_span fresh name kind a t"
  obtain r t2 where b: "body ?t1 = (r, t2)" by force
  have c1: "current_trace_id ?t1 = Some (tid t)"
    by (simp add: open_span_trace tid_def)
  with assms b obtain new where new: "tr_sink t2 = tr_sink t @ new" "\<forall>s \<in> set new. sp_trace_id s = tid t"
    unfolding one_trace_def by (metis open_span_sink snd_conv)
  have c2: "current_trace_id t2 = Some (tid t)"
    using c1 assms(1) b unfolding one_trace_def by (metis current_trace_id_ids well_nestedD)
  define t3 where "t3 = (case r of Inl e \<Rightarrow> on_current (handle_record_error (exn_type e)) t2 | Inr _ \<Rightarrow> t2)"
  have "current_trace_id t3 = Some (tid t)" "tr_sink t3 = tr_sink t2"
    using c2 by (auto simp: t3_def current_trace_id_ids split: sum.split)
  with close_span_sink [of t3 "tid t" clock "clock (tr_world ?t1)"] obtain s where
    "tr_sink (close_span memory_record clock (clock (tr_world ?t1)) t3) = tr_sink t @ new @ [s]"
    "sp_trace_id s = tid t"
    using new(1) by auto
  with new(2) show ?thesis
    by (intro exI [of _ "new @ [s]"]) (auto simp: with_span_def b t3_def Let_def)
qed

lemma with_span_one_trace [intro]:
  assumes "one_trace body"
  shows "one_trace (with_span fresh clock memory_record name kind a body)"
  unfolding one_trace_def
proof (intro conjI allI impI)
  show "well_nested (with_span fresh clock memory_record name kind a body)"
    using assms by (auto simp: one_trace_def)
  fix t :: "(span list, 'a) tracer" and tid
  assume "current_trace_id t = Some tid"
  with with_span_trace [OF assms, where t = t]
  show "\<exists>new. tr_sink (snd (with_span fresh clock memory_record name kind a body t)) = tr_sink t @ new \<and>
      (\<forall>s \<in> set new. sp_trace_id s = tid)"
    by (metis (no_types, lifting) option.simps(5))
qed

subsection \<open>Properties\<close>

text \<open>
  Tracing never breaks the work it observes. A span around a well-nested body returns
  exactly what the body returns or raises, even when the recorder raises on every span, and
  leaves open exactly the spans that were open before.
\<close>

theorem span_is_transparent:
  assumes "well_nested body"
  shows "fst (with_span fresh clock rec_span name kind a body t) = fst (body (open_span fresh name kind a t)) \<and>
    open_ids (snd (with_span fresh clock rec_span name kind a body t)) = open_ids t"
  using with_span_result with_span_well_nested [OF assms] unfolding well_nested_def by metis

text \<open>A tool run under a request span: the inner wrapper is a well-nested body.\<close>

definition sample_tracer :: "(span list, rat) tracer" where
  "sample_tracer = \<lparr>tr_open = [], tr_ids = 0, tr_sink = [], tr_ledger = None, tr_metrics = [], tr_world = 0\<rparr>"

definition sample_body :: "(span list, rat, nat) traced" where
  "sample_body =
     with_span (\<lambda>n. [n]) (\<lambda>w. w) memory_record (str ''tool.run'') TOOL [(str ''tool'', PStr (str ''get ticket''))]
       (\<lambda>t. (Inr 7, t\<lparr>tr_world := tr_world t + 1\<rparr>))"

lemma sample_body_nested: "well_nested sample_body"
  unfolding sample_body_def by (rule with_span_well_nested) (simp add: well_nested_def)

lemma sample_body_ok: "keeps_spans_ok sample_body"
  unfolding sample_body_def by (rule with_span_keeps_ok) (simp add: keeps_spans_ok_def spans_ok_def)

lemma sample_body_one_trace: "one_trace sample_body"
  unfolding sample_body_def
  by (rule with_span_one_trace) (simp add: one_trace_def well_nested_def)

lemma span_is_transparent_witness:
  "open_ids (snd (with_span (\<lambda>n. [n]) (\<lambda>w. w) memory_record (str ''request'') REQUEST [] sample_body sample_tracer)) = []"
proof -
  have "open_ids sample_tracer = []" by (simp add: open_ids_def sample_tracer_def)
  with span_is_transparent [OF sample_body_nested] show ?thesis by metis
qed

text \<open>
  No span that reaches the recorder carries prose. If the body only touches attributes
  through the tracer's operations, every attribute of every recorded span is a number, a flag,
  nothing, or a string of at most 120 characters without white space.
\<close>

theorem recorded_spans_content_free:
  assumes "keeps_spans_ok body" "spans_ok t"
    and "s \<in> set (tr_sink (snd (with_span fresh clock memory_record name kind a body t)))"
    and "(k, v) \<in> set (sp_attributes s)"
  shows "content_free v"
proof -
  have "spans_ok (snd (with_span fresh clock memory_record name kind a body t))"
    using with_span_keeps_ok [OF assms(1)] assms(2) unfolding keeps_spans_ok_def by blast
  with assms(3,4) show ?thesis unfolding spans_ok_def attrs_ok_def by fastforce
qed

definition sample_trace :: "(span list, rat) tracer" where
  "sample_trace = snd (with_span (\<lambda>n. [n]) (\<lambda>w. w) memory_record (str ''request'') REQUEST [] sample_body sample_tracer)"

lemma sample_trace_shape:
  "tr_sink sample_trace \<noteq> []" "sp_attributes (hd (tr_sink sample_trace)) \<noteq> []"
  by (simp_all add: sample_trace_def sample_tracer_def sample_body_def with_span_def open_span_def
      current_span_def close_span_def emit_def memory_record_def to_span_def sanitise_attributes_def)

lemma recorded_spans_content_free_witness:
  "content_free (snd (hd (sp_attributes (hd (tr_sink sample_trace)))))"
proof (rule recorded_spans_content_free [OF sample_body_ok])
  show "spans_ok sample_tracer" by (simp add: spans_ok_def sample_tracer_def)
  show "hd (tr_sink sample_trace) \<in> set (tr_sink (snd
      (with_span (\<lambda>n. [n]) (\<lambda>w. w) memory_record (str ''request'') REQUEST [] sample_body sample_tracer)))"
    unfolding sample_trace_def [symmetric] by (rule hd_in_set) (rule sample_trace_shape)
  show "(fst (hd (sp_attributes (hd (tr_sink sample_trace)))), snd (hd (sp_attributes (hd (tr_sink sample_trace)))))
      \<in> set (sp_attributes (hd (tr_sink sample_trace)))"
    by (simp add: sample_trace_shape)
qed

text \<open>
  Correlation. Every span recorded while a span is open -- its own and, at any depth, those
  of the work inside it -- carries one trace id: that of the enclosing span if there is one, a
  fresh one otherwise.
\<close>

theorem spans_share_one_trace:
  assumes "one_trace body"
  shows "\<exists>new. tr_sink (snd (with_span fresh clock memory_record name kind a body t)) = tr_sink t @ new \<and>
    new \<noteq> [] \<and>
    (\<forall>s \<in> set new. sp_trace_id s =
       (case current_trace_id t of None \<Rightarrow> fresh (tr_ids t) | Some tid \<Rightarrow> tid))"
  by (rule with_span_trace [OF assms])

lemma spans_share_one_trace_witness:
  "list_all (\<lambda>s. sp_trace_id s = [0]) (tr_sink sample_trace)"
proof -
  have "current_trace_id sample_tracer = None" "tr_sink sample_tracer = []" "tr_ids sample_tracer = 0"
    by (simp_all add: sample_tracer_def current_trace_id_def current_span_def)
  with spans_share_one_trace [OF sample_body_one_trace, of "\<lambda>n. [n]" "\<lambda>w. w" "str ''request''" REQUEST "[]" sample_tracer]
  show ?thesis by (simp add: sample_trace_def list_all_iff)
qed

end
