(* ===== verification/Jobs.thy ===== *)
theory Jobs
  imports Errors
begin

text \<open>
  Background jobs: \<open>jobs/base.py\<close> (the job value and its validation) and \<open>jobs/memory.py\<close>
  (the in-process queue). The queue state is the record \<open>mem_queue\<close> with the fields of
  \<open>InMemoryJobQueue\<close>; every coroutine of the queue is a function from the state to a result
  and the next state. \<open>uuid4().hex\<close> is an argument of the operation that draws it.
\<close>

subsection \<open>Job values\<close>

datatype job_status = PENDING | RUNNING | SUCCEEDED | FAILED

type_synonym payload = "(pyval \<times> pyval) list"

record job =
  job_id :: pystr
  job_name :: pystr
  job_payload :: payload
  job_status :: job_status
  job_attempts :: int
  job_max_attempts :: int
  job_error :: "pystr option"

definition exhausted :: "job \<Rightarrow> bool" where
  "exhausted j \<longleftrightarrow> job_max_attempts j \<le> job_attempts j"

definition terminal :: "job \<Rightarrow> bool" where
  "terminal j \<longleftrightarrow> job_status j = SUCCEEDED \<or> job_status j = FAILED"

subsection \<open>Names\<close>

definition MAX_NAME_LENGTH :: nat where
  "MAX_NAME_LENGTH = 64"

definition DEFAULT_MAX_ATTEMPTS :: int where
  "DEFAULT_MAX_ATTEMPTS = 3"

definition allowed_name_char :: "nat \<Rightarrow> bool" where
  "allowed_name_char c \<longleftrightarrow> islower_ascii c \<or> isdigit c \<or> c = 95"

definition validate_job_name :: "pystr \<Rightarrow> pystr result" where
  "validate_job_name name =
     (if name = [] \<or> \<not> list_all allowed_name_char name then
        raise_app JobDefinitionError
          (Some (str ''Job names must be non-empty and use only lowercase letters, digits, and underscores.''))
          (Some [(str ''name'', PStr name)])
      else if MAX_NAME_LENGTH < length name then
        raise_app JobDefinitionError (Some (str ''Job names must be at most 64 characters.''))
          (Some [(str ''name'', PStr name)])
      else Inr name)"

subsection \<open>Payloads\<close>

text \<open>
  \<open>json.loads(json.dumps(v))\<close> without the text in between: a tuple comes back as a list, a
  scalar key as the string JSON writes for it, an object \<open>json\<close> does not know is refused.
  \<open>frepr\<close> is the interpreter's \<open>float.__repr__\<close>.
\<close>

fun json_key :: "(rat \<Rightarrow> pystr) \<Rightarrow> pyval \<Rightarrow> pystr option" where
  "json_key frepr (PStr s) = Some s"
| "json_key frepr (PInt n) = Some (show_int n)"
| "json_key frepr (PBool b) = Some (if b then str ''true'' else str ''false'')"
| "json_key frepr PNone = Some (str ''null'')"
| "json_key frepr (PFloat r) = Some (frepr r)"
| "json_key frepr PNan = Some (str ''NaN'')"
| "json_key frepr (PInf neg) = Some (if neg then str ''-Infinity'' else str ''Infinity'')"
| "json_key frepr _ = None"

fun json_trip :: "(rat \<Rightarrow> pystr) \<Rightarrow> pyval \<Rightarrow> pyval option" where
  "json_trip frepr (PList xs) = map_option PList (those (map (json_trip frepr) xs))"
| "json_trip frepr (PTuple xs) = map_option PList (those (map (json_trip frepr) xs))"
| "json_trip frepr (PDict kvs) =
     (case those (map (\<lambda>kv. json_key frepr (fst kv)) kvs) of
        None \<Rightarrow> None
      | Some ks \<Rightarrow>
          map_option (\<lambda>vs. PDict (dict_of (zip (map PStr ks) vs)))
            (those (map (\<lambda>kv. json_trip frepr (snd kv)) kvs)))"
| "json_trip frepr (PObject t) = None"
| "json_trip frepr v = Some v"

text \<open>
  \<open>restored != plain\<close>. The trip maps every atom to itself and every key to a string, so the
  two sides are equal in Python when they are the same value and no \<open>nan\<close> occurs, which is
  not equal to itself.
\<close>

fun has_nan :: "pyval \<Rightarrow> bool" where
  "has_nan PNan = True"
| "has_nan (PList xs) = list_ex has_nan xs"
| "has_nan (PTuple xs) = list_ex has_nan xs"
| "has_nan (PDict kvs) = list_ex (\<lambda>kv. has_nan (fst kv) \<or> has_nan (snd kv)) kvs"
| "has_nan _ = False"

fun type_name :: "pyval \<Rightarrow> pystr" where
  "type_name PNone = str ''NoneType''"
| "type_name (PBool _) = str ''bool''"
| "type_name (PInt _) = str ''int''"
| "type_name (PFloat _) = str ''float''"
| "type_name PNan = str ''float''"
| "type_name (PInf _) = str ''float''"
| "type_name (PStr _) = str ''str''"
| "type_name (PList _) = str ''list''"
| "type_name (PTuple _) = str ''tuple''"
| "type_name (PDict _) = str ''dict''"
| "type_name (PObject t) = t"

definition validate_payload :: "(rat \<Rightarrow> pystr) \<Rightarrow> pyval \<Rightarrow> payload result" where
  "validate_payload frepr p =
     (case p of
        PNone \<Rightarrow> Inr []
      | PDict plain \<Rightarrow>
          (case json_trip frepr (PDict plain) of
             None \<Rightarrow> raise_app JobPayloadError None (Some [(str ''reason'', PStr (str ''TypeError''))])
           | Some restored \<Rightarrow>
               if restored \<noteq> PDict plain \<or> has_nan (PDict plain) then
                 raise_app JobPayloadError
                   (Some (str ''A job payload must survive a JSON round trip unchanged.''))
                   (Some [(str ''reason'', PStr (str ''not_round_trippable''))])
               else Inr plain)
      | other \<Rightarrow>
          raise_app JobPayloadError (Some (str ''A job payload must be a mapping.''))
            (Some [(str ''type'', PStr (type_name other))]))"

text \<open>
  What a payload must be: JSON's own types, string keys, no key twice.
\<close>

fun json_native :: "pyval \<Rightarrow> bool" where
  "json_native PNan = False"
| "json_native (PTuple _) = False"
| "json_native (PObject _) = False"
| "json_native (PList xs) = list_all json_native xs"
| "json_native (PDict kvs) =
     (list_all (\<lambda>kv. (case fst kv of PStr _ \<Rightarrow> True | _ \<Rightarrow> False) \<and> json_native (snd kv)) kvs \<and>
      distinct (map fst kvs))"
| "json_native _ = True"

lemma json_native_trip: "json_native v \<Longrightarrow> json_trip frepr v = Some v \<and> \<not> has_nan v"
proof (induction frepr v rule: json_trip.induct)
  case (1 frepr xs)
  then have "those (map (json_trip frepr) xs) = Some (map id xs)"
    by (intro those_map_Some) (auto simp: list_all_iff)
  with 1 show ?case by (auto simp: list_all_iff list_ex_iff)
next
  case (3 frepr kvs)
  define ks where "ks = map (\<lambda>kv. case fst kv of PStr s \<Rightarrow> s | _ \<Rightarrow> []) kvs"
  have key: "fst kv = PStr (case fst kv of PStr s \<Rightarrow> s | _ \<Rightarrow> [])" if "kv \<in> set kvs" for kv
    using 3(2) that by (auto simp: list_all_iff split: pyval.splits)
  have jk: "those (map (\<lambda>kv. json_key frepr (fst kv)) kvs) = Some ks"
    unfolding ks_def
  proof (rule those_map_Some)
    fix kv assume "kv \<in> set kvs"
    then obtain s where "fst kv = PStr s" using key by blast
    then show "json_key frepr (fst kv) = Some (case fst kv of PStr s \<Rightarrow> s | _ \<Rightarrow> [])" by simp
  qed
  have vals: "json_trip frepr (snd kv) = Some (snd kv) \<and> \<not> has_nan (snd kv)" if "kv \<in> set kvs" for kv
    using 3 that jk by (auto simp: list_all_iff)
  then have jv: "those (map (\<lambda>kv. json_trip frepr (snd kv)) kvs) = Some (map snd kvs)"
    by (intro those_map_Some) auto
  have ks: "map PStr ks = map fst kvs"
    unfolding ks_def using key by simp
  have "zip (map PStr ks) (map snd kvs) = kvs"
    by (simp add: ks zip_map_fst_snd)
  moreover have "dict_of kvs = kvs"
    using 3(2) by (intro dict_of_distinct) simp
  moreover have "\<not> has_nan (PDict kvs)"
  proof -
    have "\<not> has_nan (fst kv)" if "kv \<in> set kvs" for kv
      by (subst key [OF that]) simp
    with vals show ?thesis by (auto simp: list_ex_iff)
  qed
  ultimately show ?case by (simp add: jk jv del: has_nan.simps)
qed auto

lemma json_trip_native: "json_trip frepr v = Some v \<Longrightarrow> \<not> has_nan v \<Longrightarrow> json_native v"
proof (induction frepr v rule: json_trip.induct)
  case (1 frepr xs)
  then have "list_all2 (\<lambda>x y. json_trip frepr x = Some y) xs xs"
    by (auto simp: those_eq_Some)
  then have "json_trip frepr x = Some x" if "x \<in> set xs" for x
    using that by (auto simp: list_all2_same)
  with 1 show ?case by (auto simp: list_all_iff list_ex_iff)
next
  case (3 frepr kvs)
  from 3(2) obtain ks vs where
    ks: "those (map (\<lambda>kv. json_key frepr (fst kv)) kvs) = Some ks" and
    vs: "those (map (\<lambda>kv. json_trip frepr (snd kv)) kvs) = Some vs" and
    eq: "kvs = dict_of (zip (map PStr ks) vs)"
    by (auto split: option.splits)
  have len: "length ks = length kvs" "length vs = length kvs"
    using ks vs by (auto simp: those_eq_Some dest: list_all2_lengthD)
  have dist: "distinct (map fst kvs)"
    by (subst eq) (rule distinct_dict_of)
  have strkeys: "set (map fst kvs) \<subseteq> PStr ` set ks"
  proof -
    have "set (map fst (zip (map PStr ks) vs)) \<subseteq> PStr ` set ks"
      using len by simp
    then show ?thesis using keys_dict_of [of "zip (map PStr ks) vs"] eq by auto
  qed
  have "list_all2 (\<lambda>kv k. json_key frepr (fst kv) = Some k) kvs ks"
    using ks by (simp add: those_eq_Some)
  moreover have "set (map fst kvs) \<subseteq> range PStr" using strkeys by auto
  ultimately have keys: "map PStr ks = map fst kvs"
  proof (induction kvs ks rule: list_all2_induct)
    case (Cons kv kvs k ks)
    then show ?case by (auto simp del: json_key.simps simp: json_key.simps(1))
  qed simp
  have fsts: "map fst (zip (map PStr ks) vs) = map PStr ks"
    using len by simp
  have "dict_of (zip (map PStr ks) vs) = zip (map PStr ks) vs"
    by (rule dict_of_distinct) (subst fsts, subst keys, rule dist)
  with eq have "kvs = zip (map PStr ks) vs" by (rule trans)
  then have "map snd kvs = map snd (zip (map PStr ks) vs)" by (rule arg_cong)
  then have "vs = map snd kvs"
    using len by simp
  with vs have same: "json_trip frepr (snd kv) = Some (snd kv)" if "kv \<in> set kvs" for kv
    using that by (auto simp: those_eq_Some list_all2_map2 list_all2_same)
  have nonan: "\<not> has_nan (snd kv)" if "kv \<in> set kvs" for kv
    using 3(3) that by (auto simp: list_ex_iff)
  have "json_native (snd kv)" if "kv \<in> set kvs" for kv
    using "3.IH" [OF ks that same [OF that] nonan [OF that]] .
  moreover have "(case fst kv of PStr _ \<Rightarrow> True | _ \<Rightarrow> False)" if "kv \<in> set kvs" for kv
    using strkeys that by auto
  ultimately show ?case using dist by (simp add: list_all_iff)
qed auto

text \<open>\<open>build_job\<close>: every backend builds the job it stores here.\<close>

definition build_job ::
  "(rat \<Rightarrow> pystr) \<Rightarrow> pystr \<Rightarrow> pystr \<Rightarrow> pyval \<Rightarrow> int \<Rightarrow> job result" where
  "build_job frepr new_id name payload max_attempts =
     (if max_attempts < 1 then
        raise_app JobDefinitionError (Some (str ''max_attempts must be at least 1.''))
          (Some [(str ''max_attempts'', PStr (show_int max_attempts))])
      else
        (case validate_job_name name of
           Inl e \<Rightarrow> Inl e
         | Inr n \<Rightarrow>
             (case validate_payload frepr payload of
                Inl e \<Rightarrow> Inl e
              | Inr pl \<Rightarrow>
                  Inr \<lparr>job_id = new_id, job_name = n, job_payload = pl, job_status = PENDING,
                       job_attempts = 0, job_max_attempts = max_attempts, job_error = None\<rparr>)))"

lemma build_job_Inr:
  assumes "build_job frepr i n p m = Inr j"
  shows "job_id j = i" "job_status j = PENDING" "job_attempts j = 0" "job_max_attempts j = m"
    "1 \<le> m" "job_error j = None" "validate_job_name n = Inr (job_name j)"
    "validate_payload frepr p = Inr (job_payload j)"
  using assms by (auto simp: build_job_def raise_app_def split: if_splits sum.splits)

subsection \<open>The in-memory queue\<close>

record mem_queue =
  mq_pending :: "pystr list"
  mq_jobs :: "pystr \<rightharpoonup> job"
  mq_dead :: "pystr list"

definition mem_init :: mem_queue where
  "mem_init = \<lparr>mq_pending = [], mq_jobs = Map.empty, mq_dead = []\<rparr>"

definition mem_enqueue ::
  "(rat \<Rightarrow> pystr) \<Rightarrow> pystr \<Rightarrow> pystr \<Rightarrow> pyval \<Rightarrow> int \<Rightarrow> mem_queue \<Rightarrow> job result \<times> mem_queue" where
  "mem_enqueue frepr new_id name payload max_attempts q =
     (case build_job frepr new_id name payload max_attempts of
        Inl e \<Rightarrow> (Inl e, q)
      | Inr j \<Rightarrow>
          (Inr j, q\<lparr>mq_jobs := (mq_jobs q)(job_id j \<mapsto> j), mq_pending := mq_pending q @ [job_id j]\<rparr>))"

definition start_attempt :: "job \<Rightarrow> job" where
  "start_attempt j = j\<lparr>job_status := RUNNING, job_attempts := job_attempts j + 1\<rparr>"

fun dequeue_loop ::
  "(pystr \<rightharpoonup> job) \<Rightarrow> pystr list \<Rightarrow> job option \<times> (pystr \<rightharpoonup> job) \<times> pystr list" where
  "dequeue_loop jobs [] = (None, jobs, [])"
| "dequeue_loop jobs (i # pending) =
     (case jobs i of
        None \<Rightarrow> dequeue_loop jobs pending
      | Some stored \<Rightarrow>
          let running = start_attempt stored in (Some running, jobs(i \<mapsto> running), pending))"

definition mem_dequeue :: "mem_queue \<Rightarrow> job option result \<times> mem_queue" where
  "mem_dequeue q =
     (case dequeue_loop (mq_jobs q) (mq_pending q) of
        (r, jobs, pending) \<Rightarrow> (Inr r, q\<lparr>mq_jobs := jobs, mq_pending := pending\<rparr>))"

definition job_not_found :: "pystr \<Rightarrow> 'a result" where
  "job_not_found i = raise_app JobNotFoundError None (Some [(str ''job'', PStr i)])"

definition mem_get :: "pystr \<Rightarrow> mem_queue \<Rightarrow> job result" where
  "mem_get i q = (case mq_jobs q i of None \<Rightarrow> job_not_found i | Some j \<Rightarrow> Inr j)"

definition mem_complete :: "job \<Rightarrow> mem_queue \<Rightarrow> job result \<times> mem_queue" where
  "mem_complete j q =
     (case mem_get (job_id j) q of
        Inl e \<Rightarrow> (Inl e, q)
      | Inr stored \<Rightarrow>
          let done = stored\<lparr>job_status := SUCCEEDED, job_error := None\<rparr>
          in (Inr done, q\<lparr>mq_jobs := (mq_jobs q)(job_id j \<mapsto> done)\<rparr>))"

definition mem_fail :: "job \<Rightarrow> pystr \<Rightarrow> bool \<Rightarrow> mem_queue \<Rightarrow> job result \<times> mem_queue" where
  "mem_fail j error retryable q =
     (case mem_get (job_id j) q of
        Inl e \<Rightarrow> (Inl e, q)
      | Inr stored \<Rightarrow>
          if exhausted stored \<or> \<not> retryable then
            let dead = stored\<lparr>job_status := FAILED, job_error := Some error\<rparr>
            in (Inr dead, q\<lparr>mq_jobs := (mq_jobs q)(job_id j \<mapsto> dead),
                             mq_dead := mq_dead q @ [job_id j]\<rparr>)
          else
            let retry = stored\<lparr>job_status := PENDING, job_error := Some error\<rparr>
            in (Inr retry, q\<lparr>mq_jobs := (mq_jobs q)(job_id j \<mapsto> retry),
                              mq_pending := mq_pending q @ [job_id j]\<rparr>))"

definition mem_depth :: "mem_queue \<Rightarrow> int" where
  "mem_depth q = int (length (mq_pending q))"

definition mem_dead_lettered :: "mem_queue \<Rightarrow> job list result" where
  "mem_dead_lettered q =
     (case those (map (mq_jobs q) (mq_dead q)) of
        None \<Rightarrow> Inl (OtherError (str ''KeyError''))
      | Some js \<Rightarrow> Inr js)"

definition mem_ping :: "mem_queue \<Rightarrow> bool" where
  "mem_ping q = True"

subsection \<open>The life cycle invariant\<close>

text \<open>
  What holds of the queue while every job is settled once per dequeue: an id is in the
  pending list exactly when its job is pending, in the dead list exactly when it failed, and
  the attempts never pass the budget, with one left for every pending job.
\<close>

definition job_ok :: "pystr list \<Rightarrow> pystr list \<Rightarrow> pystr \<Rightarrow> job \<Rightarrow> bool" where
  "job_ok pending dead i j \<longleftrightarrow>
     job_id j = i \<and> 0 \<le> job_attempts j \<and> 1 \<le> job_max_attempts j \<and>
     job_attempts j \<le> job_max_attempts j \<and>
     (job_status j = PENDING \<longrightarrow> job_attempts j < job_max_attempts j) \<and>
     (job_status j = PENDING \<longleftrightarrow> i \<in> set pending) \<and>
     (job_status j = FAILED \<longleftrightarrow> i \<in> set dead)"

definition queue_inv :: "mem_queue \<Rightarrow> bool" where
  "queue_inv q \<longleftrightarrow>
     distinct (mq_pending q) \<and> distinct (mq_dead q) \<and>
     set (mq_pending q) \<subseteq> dom (mq_jobs q) \<and> set (mq_dead q) \<subseteq> dom (mq_jobs q) \<and>
     (\<forall>i j. mq_jobs q i = Some j \<longrightarrow> job_ok (mq_pending q) (mq_dead q) i j)"

definition held :: "mem_queue \<Rightarrow> job \<Rightarrow> bool" where
  "held q j \<longleftrightarrow>
     (case mq_jobs q (job_id j) of None \<Rightarrow> False | Some s \<Rightarrow> job_status s = RUNNING)"

lemma held_iff: "held q j \<longleftrightarrow> (\<exists>s. mq_jobs q (job_id j) = Some s \<and> job_status s = RUNNING)"
  by (simp add: held_def split: option.split)

lemma queue_invD:
  "queue_inv q \<Longrightarrow> mq_jobs q i = Some j \<Longrightarrow> job_ok (mq_pending q) (mq_dead q) i j"
  by (simp add: queue_inv_def)

lemma queue_inv_init [invs]: "queue_inv mem_init"
  by (simp add: queue_inv_def mem_init_def)

lemma mem_enqueue_inv [invs]:
  assumes "queue_inv q" "i \<notin> dom (mq_jobs q)"
  shows "queue_inv (snd (mem_enqueue frepr i n p m q))"
proof (cases "build_job frepr i n p m")
  case (Inl e)
  with assms show ?thesis by (simp add: mem_enqueue_def)
next
  case (Inr j)
  from Inr assms build_job_Inr(5) [OF Inr] show ?thesis
    by (auto simp: mem_enqueue_def queue_inv_def job_ok_def build_job_Inr(1-4) [OF Inr])
qed

lemma mem_dequeue_simps:
  assumes "queue_inv q"
  shows "mem_dequeue q =
    (case mq_pending q of
       [] \<Rightarrow> (Inr None, q)
     | i # pending \<Rightarrow>
         (let r = start_attempt (the (mq_jobs q i))
          in (Inr (Some r), q\<lparr>mq_jobs := (mq_jobs q)(i \<mapsto> r), mq_pending := pending\<rparr>)))"
  using assms by (cases "mq_pending q") (auto simp: mem_dequeue_def queue_inv_def Let_def)

lemma mem_dequeue_inv [invs]: "queue_inv q \<Longrightarrow> queue_inv (snd (mem_dequeue q))"
proof -
  assume q: "queue_inv q"
  show ?thesis
  proof (cases "mq_pending q")
    case Nil
    with q show ?thesis by (simp add: mem_dequeue_simps)
  next
    case (Cons i pending)
    with q obtain j where j: "mq_jobs q i = Some j" by (auto simp: queue_inv_def)
    from q j have "job_ok (mq_pending q) (mq_dead q) i j" by (rule queue_invD)
    then have "job_status j = PENDING" "job_attempts j + 1 \<le> job_max_attempts j"
      "i \<notin> set (mq_dead q)"
      by (auto simp: job_ok_def Cons)
    with q Cons j show ?thesis
      by (auto simp: mem_dequeue_simps Let_def start_attempt_def queue_inv_def job_ok_def)
  qed
qed

lemma mem_dequeue_held:
  "queue_inv q \<Longrightarrow> mem_dequeue q = (Inr (Some j), q') \<Longrightarrow> held q' j"
  by (auto simp: mem_dequeue_simps queue_inv_def job_ok_def held_iff start_attempt_def Let_def
      split: list.splits)

lemma held_job_ok:
  assumes "queue_inv q" "held q j"
  obtains s where "mq_jobs q (job_id j) = Some s" "job_status s = RUNNING"
    "job_ok (mq_pending q) (mq_dead q) (job_id j) s"
  using assms by (auto simp: held_iff dest: queue_invD)

lemma mem_complete_inv [invs]:
  assumes "queue_inv q" "held q j"
  shows "queue_inv (snd (mem_complete j q))"
proof -
  from assms obtain s where "mq_jobs q (job_id j) = Some s" "job_status s = RUNNING"
    "job_ok (mq_pending q) (mq_dead q) (job_id j) s" by (rule held_job_ok)
  with assms(1) show ?thesis
    by (auto simp: mem_complete_def mem_get_def Let_def queue_inv_def job_ok_def)
qed

lemma mem_fail_inv [invs]:
  assumes "queue_inv q" "held q j"
  shows "queue_inv (snd (mem_fail j e r q))"
proof -
  from assms obtain s where "mq_jobs q (job_id j) = Some s" "job_status s = RUNNING"
    "job_ok (mq_pending q) (mq_dead q) (job_id j) s" by (rule held_job_ok)
  with assms(1) show ?thesis
    by (auto simp: mem_fail_def mem_get_def Let_def queue_inv_def job_ok_def exhausted_def)
qed

text \<open>
  The measure of work left: the attempts still owed to pending jobs. Every dequeue spends
  one, and settling the job dequeued gives none back beyond what it had left.
\<close>

definition owed :: "job \<Rightarrow> nat" where
  "owed j = nat (job_max_attempts j - job_attempts j)"

definition work_left :: "mem_queue \<Rightarrow> nat" where
  "work_left q = sum_list (map (\<lambda>i. owed (the (mq_jobs q i))) (mq_pending q))"

lemma owed_settled [simp]:
  "owed (s\<lparr>job_status := t, job_error := e\<rparr>) = owed s"
  by (simp add: owed_def)

lemma work_left_upd:
  "i \<notin> set (mq_pending q) \<Longrightarrow>
   work_left (q\<lparr>mq_jobs := (mq_jobs q)(i \<mapsto> j)\<rparr>) = work_left q"
  by (simp add: work_left_def sum_list_if_notin)

lemma mem_dequeue_work:
  assumes "queue_inv q" "mem_dequeue q = (Inr (Some j), q')"
  shows "Suc (work_left q' + owed j) = work_left q"
proof -
  from assms obtain i pending where p: "mq_pending q = i # pending"
    by (auto simp: mem_dequeue_simps split: list.splits)
  with assms(1) obtain s where s: "mq_jobs q i = Some s" by (auto simp: queue_inv_def)
  from assms(1) s p have ok: "job_attempts s < job_max_attempts s" "i \<notin> set pending"
    by (auto simp: queue_inv_def job_ok_def)
  from assms p s have j: "j = start_attempt s"
    and q': "q' = q\<lparr>mq_jobs := (mq_jobs q)(i \<mapsto> start_attempt s), mq_pending := pending\<rparr>"
    by (auto simp: mem_dequeue_simps Let_def)
  have "work_left q' = sum_list (map (\<lambda>i. owed (the (mq_jobs q i))) pending)"
    using ok(2) by (simp add: q' work_left_def sum_list_if_notin)
  moreover have "owed s = Suc (owed j)"
    using ok(1) by (simp add: j owed_def start_attempt_def)
  ultimately show ?thesis by (simp add: work_left_def p s)
qed

lemma held_not_pending: "queue_inv q \<Longrightarrow> held q j \<Longrightarrow> job_id j \<notin> set (mq_pending q)"
  by (auto elim!: held_job_ok simp: job_ok_def)

lemma mem_complete_work:
  assumes "queue_inv q" "held q j"
  shows "work_left (snd (mem_complete j q)) = work_left q"
  using assms held_not_pending [OF assms]
  by (auto elim!: held_job_ok simp: mem_complete_def mem_get_def Let_def work_left_upd)

lemma mem_fail_work:
  assumes "queue_inv q" "held q j" "mq_jobs q (job_id j) = Some s"
  shows "work_left (snd (mem_fail j e r q)) \<le> work_left q + owed s"
  using assms held_not_pending [OF assms(1,2)]
  by (auto simp: mem_fail_def mem_get_def Let_def work_left_def sum_list_if_notin)

subsection \<open>The life cycle as a state machine\<close>

text \<open>
  The steps any number of producers and workers can take, one queue operation at a time: ids
  are fresh, as \<open>uuid4\<close> gives them, and a worker settles a job that is running.
\<close>

inductive queue_step :: "(rat \<Rightarrow> pystr) \<Rightarrow> mem_queue \<Rightarrow> mem_queue \<Rightarrow> bool" for frepr where
  step_enqueue: "i \<notin> dom (mq_jobs q) \<Longrightarrow> queue_step frepr q (snd (mem_enqueue frepr i n p m q))"
| step_dequeue: "queue_step frepr q (snd (mem_dequeue q))"
| step_complete: "held q j \<Longrightarrow> queue_step frepr q (snd (mem_complete j q))"
| step_fail: "held q j \<Longrightarrow> queue_step frepr q (snd (mem_fail j e b q))"

inductive_cases queue_stepE: "queue_step frepr q q'"

abbreviation queue_steps :: "(rat \<Rightarrow> pystr) \<Rightarrow> mem_queue \<Rightarrow> mem_queue \<Rightarrow> bool" where
  "queue_steps frepr \<equiv> (queue_step frepr)\<^sup>*\<^sup>*"

lemma queue_step_inv: "queue_step frepr q q' \<Longrightarrow> queue_inv q \<Longrightarrow> queue_inv q'"
  by (erule queue_stepE) (auto intro: invs)

lemma queue_steps_inv: "queue_steps frepr q q' \<Longrightarrow> queue_inv q \<Longrightarrow> queue_inv q'"
  by (induction rule: rtranclp_induct) (auto intro: queue_step_inv)

lemma queue_step_terminal:
  assumes "queue_step frepr q q'" "queue_inv q" "mq_jobs q i = Some j" "terminal j"
  shows "mq_jobs q' i = Some j"
  using assms(1)
proof cases
  case (step_enqueue k n p m)
  with assms(3) show ?thesis
    by (auto simp: mem_enqueue_def dom_def build_job_Inr split: sum.splits)
next
  case step_dequeue
  have "i \<notin> set (mq_pending q)"
    using queue_invD [OF assms(2,3)] assms(4) by (auto simp: job_ok_def terminal_def)
  with assms(2,3) step_dequeue show ?thesis
    by (auto simp: mem_dequeue_simps Let_def split: list.splits)
next
  case (step_complete h)
  with assms(3,4) show ?thesis
    by (auto simp: held_iff terminal_def mem_complete_def mem_get_def Let_def)
next
  case (step_fail h e b)
  with assms(3,4) show ?thesis
    by (auto simp: held_iff terminal_def mem_fail_def mem_get_def Let_def)
qed

lemma queue_steps_terminal:
  "queue_steps frepr q q' \<Longrightarrow> queue_inv q \<Longrightarrow> mq_jobs q i = Some j \<Longrightarrow> terminal j \<Longrightarrow> mq_jobs q' i = Some j"
  by (induction rule: rtranclp_induct) (auto intro: queue_step_terminal queue_steps_inv)

subsection \<open>Properties\<close>

text \<open>
  C5: In every state the queue can reach, by any interleaving of producers and workers that
  settle the jobs they hold, a job is pending exactly when its id waits in the pending list,
  failed exactly when its id is in the dead list, neither list holds an id twice, and no job
  has been started more often than its attempt budget.
\<close>

theorem reachable_life_cycle:
  assumes "queue_steps frepr mem_init q"
  shows "distinct (mq_pending q) \<and> distinct (mq_dead q) \<and>
    (\<forall>i j. mq_jobs q i = Some j \<longrightarrow>
       job_id j = i \<and> 0 \<le> job_attempts j \<and> job_attempts j \<le> job_max_attempts j \<and>
       (job_status j = PENDING \<longleftrightarrow> i \<in> set (mq_pending q)) \<and>
       (job_status j = FAILED \<longleftrightarrow> i \<in> set (mq_dead q)))"
proof -
  have inv: "queue_inv q" by (rule queue_steps_inv [OF assms queue_inv_init])
  show ?thesis
    using inv queue_invD [OF inv] by (fastforce simp: queue_inv_def job_ok_def)
qed

text \<open>A concrete run: one job is enqueued, taken, failed, and waits for its second attempt.\<close>

definition sample_queue :: mem_queue where
  "sample_queue =
     (let q1 = snd (mem_enqueue (\<lambda>_. []) (str ''j1'') (str ''create_ticket'') PNone 2 mem_init);
          q2 = snd (mem_dequeue q1)
      in snd (mem_fail (the (mq_jobs q2 (str ''j1''))) (str ''down'') True q2))"

lemma sample_queue_steps: "queue_steps (\<lambda>_. []) mem_init sample_queue"
proof -
  let ?q1 = "snd (mem_enqueue (\<lambda>_. []) (str ''j1'') (str ''create_ticket'') PNone 2 mem_init)"
  let ?q2 = "snd (mem_dequeue ?q1)"
  have 1: "queue_step (\<lambda>_. []) mem_init ?q1"
    by (rule step_enqueue) (simp add: mem_init_def)
  have 2: "queue_step (\<lambda>_. []) ?q1 ?q2" by (rule step_dequeue)
  have "held ?q2 (the (mq_jobs ?q2 (str ''j1'')))"
    by code_simp
  then have 3: "queue_step (\<lambda>_. []) ?q2 sample_queue"
    unfolding sample_queue_def Let_def by (rule step_fail)
  from 1 2 3 show ?thesis
    by (meson converse_rtranclp_into_rtranclp r_into_rtranclp)
qed

lemma reachable_life_cycle_witness:
  "job_attempts (the (mq_jobs sample_queue (str ''j1''))) \<le> 2 \<and> distinct (mq_pending sample_queue)"
proof -
  have "\<exists>j. mq_jobs sample_queue (str ''j1'') = Some j \<and> job_max_attempts j = 2"
    by (rule exI [of _ "the (mq_jobs sample_queue (str ''j1''))"], rule conjI) code_simp+
  with reachable_life_cycle [OF sample_queue_steps] show ?thesis by fastforce
qed

text \<open>
  A job that succeeded or failed is final. Whatever producers and workers do afterwards,
  the stored job never changes again: it is not retried, not reopened and not lost.
\<close>

theorem terminal_jobs_are_final:
  assumes "queue_steps frepr mem_init q" "mq_jobs q i = Some j" "terminal j"
    and "queue_steps frepr q q'"
  shows "mq_jobs q' i = Some j"
  using queue_steps_terminal [OF assms(4) queue_steps_inv [OF assms(1) queue_inv_init] assms(2,3)] .

definition sample_dead :: mem_queue where
  "sample_dead =
     (let q1 = snd (mem_dequeue sample_queue)
      in snd (mem_fail (the (mq_jobs q1 (str ''j1''))) (str ''down'') True q1))"

lemma sample_dead_steps: "queue_steps (\<lambda>_. []) mem_init sample_dead"
proof -
  let ?q1 = "snd (mem_dequeue sample_queue)"
  have 1: "queue_step (\<lambda>_. []) sample_queue ?q1" by (rule step_dequeue)
  have "held ?q1 (the (mq_jobs ?q1 (str ''j1'')))"
    by code_simp
  then have 2: "queue_step (\<lambda>_. []) ?q1 sample_dead"
    unfolding sample_dead_def Let_def by (rule step_fail)
  from sample_queue_steps 1 2 show ?thesis
    by (meson rtranclp.rtrancl_into_rtrancl)
qed

lemma terminal_jobs_are_final_witness:
  "mq_jobs (snd (mem_dequeue sample_dead)) (str ''j1'') = Some (the (mq_jobs sample_dead (str ''j1'')))"
proof (rule terminal_jobs_are_final [OF sample_dead_steps])
  show "mq_jobs sample_dead (str ''j1'') = Some (the (mq_jobs sample_dead (str ''j1'')))"
    by code_simp
  show "terminal (the (mq_jobs sample_dead (str ''j1'')))"
    by code_simp
  show "queue_steps (\<lambda>_. []) sample_dead (snd (mem_dequeue sample_dead))"
    by (rule r_into_rtranclp) (rule step_dequeue)
qed

text \<open>
  A mapping is accepted as a job payload exactly when it is JSON's own data -- string
  keys, no key twice, lists rather than tuples, no \<open>nan\<close>, no foreign object, at every depth --
  and is then stored unchanged, whatever the float representation.
\<close>

theorem payload_accepted_iff_json:
  "validate_payload frepr (PDict kvs) = Inr pl \<longleftrightarrow> pl = kvs \<and> json_native (PDict kvs)"
  using json_native_trip [of "PDict kvs" frepr] json_trip_native [of frepr "PDict kvs"]
  by (auto simp: validate_payload_def raise_app_def simp del: json_native.simps json_trip.simps has_nan.simps
      split: option.splits if_splits)

end
