(* ===== verification/Registry.thy ===== *)
theory Registry
  imports Errors
begin

text \<open>
  The name-to-object registries of the backend: job handlers, tools, intent handlers. They
  share one contract: registering succeeds only under a new name, changes nothing else, and
  the object is then found under its name. \<open>register_all\<close> is the assembly of a registry from
  a list, stopping at the first refusal, as the factories do it.
\<close>

fun register_all :: "('v \<Rightarrow> 'r \<Rightarrow> 'r result) \<Rightarrow> 'v list \<Rightarrow> 'r \<Rightarrow> 'r result" where
  "register_all reg [] r = Inr r"
| "register_all reg (v # vs) r =
     (case reg v r of Inl e \<Rightarrow> Inl e | Inr r1 \<Rightarrow> register_all reg vs r1)"

locale registry =
  fixes reg :: "'v \<Rightarrow> 'r \<Rightarrow> 'r result"
    and find :: "'r \<Rightarrow> 'k \<Rightarrow> 'v option"
    and key :: "'v \<Rightarrow> 'k"
  assumes reg_fresh: "reg v r = Inr r1 \<Longrightarrow> find r (key v) = None"
    and reg_find: "reg v r = Inr r1 \<Longrightarrow> find r1 = (find r)(key v \<mapsto> v)"
begin

lemma registered: "reg v r = Inr r1 \<Longrightarrow> find r1 (key v) = Some v"
  by (simp add: reg_find)

lemma kept:
  assumes "reg v r = Inr r1" "find r k = Some u"
  shows "find r1 k = Some u"
  using reg_fresh [OF assms(1)] reg_find [OF assms(1)] assms(2) by auto

lemma kept_all: "register_all reg vs r = Inr r1 \<Longrightarrow> find r k = Some u \<Longrightarrow> find r1 k = Some u"
  by (induction vs arbitrary: r) (auto split: sum.splits intro: kept)

lemma registered_all: "register_all reg vs r = Inr r1 \<Longrightarrow> v \<in> set vs \<Longrightarrow> find r1 (key v) = Some v"
  by (induction vs arbitrary: r) (auto split: sum.splits intro: kept_all registered)

lemma found_all:
  "register_all reg vs r = Inr r1 \<Longrightarrow> find r1 k = Some v \<Longrightarrow> find r k = Some v \<or> v \<in> set vs \<and> key v = k"
proof (induction vs arbitrary: r)
  case (Cons u vs)
  then obtain r0 where r0: "reg u r = Inr r0" "register_all reg vs r0 = Inr r1"
    by (auto split: sum.splits)
  with Cons.IH [OF r0(2)] Cons.prems(2) reg_find [OF r0(1)] show ?case
    by (auto split: if_splits)
qed simp

lemma distinct_all:
  "register_all reg vs r = Inr r1 \<Longrightarrow> distinct (map key vs) \<and> (\<forall>v \<in> set vs. find r (key v) = None)"
proof (induction vs arbitrary: r)
  case (Cons u vs)
  then obtain r0 where r0: "reg u r = Inr r0" "register_all reg vs r0 = Inr r1"
    by (auto split: sum.splits)
  from Cons.IH [OF r0(2)] reg_find [OF r0(1)] reg_fresh [OF r0(1)] show ?case
    by (fastforce simp: fun_upd_def split: if_splits)
qed simp

end

end
