(* ===== verification/Worker.thy ===== *)
theory Worker
  imports Jobs Metrics Registry
begin

text \<open>
  \<open>jobs/handlers.py\<close> (the handler registry), \<open>jobs/worker.py\<close> and the interface between the
  worker and a queue backend. The worker is written over the operations of the
  \<open>JobQueue\<close> protocol, the record \<open>queue_ops\<close>; the locale \<open>job_queue\<close> is the contract of the
  protocol, stated as a simulation of the in-memory queue, and the worker's lemmas are proved
  in it once for every backend.
\<close>

subsection \<open>Handlers\<close>

text \<open>
  How one run of a handler ends: it returns, raises \<open>JobError\<close>, or raises anything else. The
  deadline of \<open>asyncio.timeout\<close> is an argument of the run; passing it raises
  \<open>TimeoutError\<close>. \<open>'p\<close> is the validated payload and \<open>'w\<close> the world the handler changes.
  \<open>model_validate\<close> gives the payload or the errors of its \<open>ValidationError\<close>.
\<close>

datatype run_outcome = Ran | Job_Error pystr bool | Raised exn

record ('p, 'w) job_handler =
  jh_name :: pystr
  jh_payload_is_model :: bool
  jh_validate :: "payload \<Rightarrow> (pystr list \<times> pystr) list + 'p"
  jh_run :: "rat \<Rightarrow> 'p \<Rightarrow> 'w \<Rightarrow> run_outcome \<times> 'w"

type_synonym ('p, 'w) job_registry = "(pystr \<times> ('p, 'w) job_handler) list"

definition register_handler ::
  "('p, 'w) job_handler \<Rightarrow> ('p, 'w) job_registry \<Rightarrow> ('p, 'w) job_registry result" where
  "register_handler h reg =
     (case validate_job_name (jh_name h) of
        Inl e \<Rightarrow> Inl e
      | Inr name \<Rightarrow>
          if \<not> jh_payload_is_model h then
            raise_app JobDefinitionError
              (Some (str ''A job handler must declare its payload as a Pydantic model.''))
              (Some [(str ''name'', PStr name)])
          else if map_of reg name \<noteq> None then
            raise_app JobDefinitionError
              (Some (str ''A handler named '' @ repr_str name @ str '' is already registered.''))
              (Some [(str ''name'', PStr name)])
          else Inr (AList.update name h reg))"

definition get_handler :: "('p, 'w) job_registry \<Rightarrow> pystr \<Rightarrow> ('p, 'w) job_handler result" where
  "get_handler reg name =
     (case map_of reg name of
        None \<Rightarrow> raise_app JobNotFoundError (Some (str ''No handler is registered for that job.''))
          (Some [(str ''job_name'', PStr name)])
      | Some h \<Rightarrow> Inr h)"

definition has_handler :: "('p, 'w) job_registry \<Rightarrow> pystr \<Rightarrow> bool" where
  "has_handler reg name \<longleftrightarrow> map_of reg name \<noteq> None"

definition handler_names :: "('p, 'w) job_registry \<Rightarrow> pystr list" where
  "handler_names reg = sort (map fst reg)"

subsection \<open>The queue protocol\<close>

record 'q queue_ops =
  qo_enqueue :: "pystr \<Rightarrow> pystr \<Rightarrow> pyval \<Rightarrow> int \<Rightarrow> 'q \<Rightarrow> job result \<times> 'q"
  qo_dequeue :: "'q \<Rightarrow> job option result \<times> 'q"
  qo_complete :: "job \<Rightarrow> 'q \<Rightarrow> job result \<times> 'q"
  qo_fail :: "job \<Rightarrow> pystr \<Rightarrow> bool \<Rightarrow> 'q \<Rightarrow> job result \<times> 'q"

definition mem_ops :: "(rat \<Rightarrow> pystr) \<Rightarrow> mem_queue queue_ops" where
  "mem_ops frepr =
     \<lparr>qo_enqueue = mem_enqueue frepr, qo_dequeue = mem_dequeue, qo_complete = mem_complete,
      qo_fail = mem_fail\<rparr>"

subsection \<open>The worker\<close>

datatype job_outcome = J_SUCCEEDED | J_RETRYING | J_DEAD_LETTERED

fun outcome_value :: "job_outcome \<Rightarrow> pystr" where
  "outcome_value J_SUCCEEDED = str ''succeeded''"
| "outcome_value J_RETRYING = str ''retrying''"
| "outcome_value J_DEAD_LETTERED = str ''dead_lettered''"

record job_run =
  jr_job_id :: pystr
  jr_name :: pystr
  jr_outcome :: job_outcome
  jr_attempts :: int
  jr_error :: "pystr option"
  jr_duration_ms :: rat

definition run_ok :: "job_run \<Rightarrow> bool" where
  "run_ok r \<longleftrightarrow> jr_outcome r = J_SUCCEEDED"

text \<open>
  The worker and its state. \<open>wk_clock\<close> is \<open>time.perf_counter\<close> read off the world, \<open>wk_fmt_g\<close>
  is the format \<open>:g\<close>.
\<close>

record ('p, 'q, 'w) worker =
  wk_queue :: "'q queue_ops"
  wk_registry :: "('p, 'w) job_registry"
  wk_timeout :: rat
  wk_clock :: "'w \<Rightarrow> rat"
  wk_fmt_g :: "rat \<Rightarrow> pystr"

record ('q, 'w) wstate =
  ws_queue :: 'q
  ws_world :: 'w
  ws_metrics :: "metric_call list"

definition UNEXPECTED_ERROR :: pystr where
  "UNEXPECTED_ERROR = str ''The job failed unexpectedly.''"

definition DEFAULT_DRAIN_LIMIT :: int where
  "DEFAULT_DRAIN_LIMIT = 100"

definition elapsed_ms :: "('p, 'q, 'w) worker \<Rightarrow> rat \<Rightarrow> ('q, 'w) wstate \<Rightarrow> rat" where
  "elapsed_ms wk started s = (wk_clock wk (ws_world s) - started) * 1000"

definition record_run :: "pystr \<Rightarrow> job_outcome \<Rightarrow> rat \<Rightarrow> ('q, 'w) wstate \<Rightarrow> ('q, 'w) wstate" where
  "record_run name outcome duration s =
     s\<lparr>ws_metrics := ws_metrics s @
         [Increment (str ''job_runs_total'')
            (Some [(str ''job'', PStr name), (str ''outcome'', PStr (outcome_value outcome))]) 1,
          Observe (str ''job_duration_ms'') duration (Some [(str ''job'', PStr name)])]\<rparr>"

definition describe_validation :: "(pystr list \<times> pystr) list \<Rightarrow> pystr" where
  "describe_validation errs =
     str ''Invalid payload '' @ [8212, 32] @
     join (str ''; '')
       (map (\<lambda>(loc, msg). (let p = join (str ''.'') loc in if p = [] then str ''payload'' else p) @
              str '': '' @ msg) errs)"

definition fail_job ::
  "('p, 'q, 'w) worker \<Rightarrow> job \<Rightarrow> pystr \<Rightarrow> rat \<Rightarrow> bool \<Rightarrow> ('q, 'w) wstate
     \<Rightarrow> job_run result \<times> ('q, 'w) wstate" where
  "fail_job wk j error started retryable s =
     (case qo_fail (wk_queue wk) j error retryable (ws_queue s) of
        (Inl e, q) \<Rightarrow> (Inl e, s\<lparr>ws_queue := q\<rparr>)
      | (Inr recorded, q) \<Rightarrow>
          let outcome = (if job_status recorded = FAILED then J_DEAD_LETTERED else J_RETRYING);
              s1 = s\<lparr>ws_queue := q\<rparr>;
              duration = elapsed_ms wk started s1
          in (Inr \<lparr>jr_job_id = job_id j, jr_name = job_name j, jr_outcome = outcome,
                   jr_attempts = job_attempts recorded, jr_error = Some error,
                   jr_duration_ms = duration\<rparr>,
              record_run (job_name j) outcome duration s1))"

definition finish_job ::
  "('p, 'q, 'w) worker \<Rightarrow> job \<Rightarrow> rat \<Rightarrow> ('q, 'w) wstate \<Rightarrow> job_run result \<times> ('q, 'w) wstate" where
  "finish_job wk j started s =
     (case qo_complete (wk_queue wk) j (ws_queue s) of
        (Inl e, q) \<Rightarrow> (Inl e, s\<lparr>ws_queue := q\<rparr>)
      | (Inr completed, q) \<Rightarrow>
          let s1 = s\<lparr>ws_queue := q\<rparr>; duration = elapsed_ms wk started s1
          in (Inr \<lparr>jr_job_id = job_id j, jr_name = job_name j, jr_outcome = J_SUCCEEDED,
                   jr_attempts = job_attempts completed, jr_error = None,
                   jr_duration_ms = duration\<rparr>,
              record_run (job_name j) J_SUCCEEDED duration s1))"

definition run_job ::
  "('p, 'q, 'w) worker \<Rightarrow> job \<Rightarrow> ('p, 'w) job_handler \<Rightarrow> 'p \<Rightarrow> rat \<Rightarrow> ('q, 'w) wstate
     \<Rightarrow> job_run result \<times> ('q, 'w) wstate" where
  "run_job wk j h params started s =
     (let (outcome, w) = jh_run h (wk_timeout wk) params (ws_world s);
          s1 = s\<lparr>ws_world := w\<rparr>
      in case outcome of
           Raised TimeoutError \<Rightarrow>
             fail_job wk j (str ''The job did not finish within '' @ wk_fmt_g wk (wk_timeout wk) @ str ''s.'')
               started True s1
         | Job_Error msg retryable \<Rightarrow> fail_job wk j msg started retryable s1
         | Raised _ \<Rightarrow> fail_job wk j UNEXPECTED_ERROR started True s1
         | Ran \<Rightarrow> finish_job wk j started s1)"

definition dispatch_job ::
  "('p, 'q, 'w) worker \<Rightarrow> job \<Rightarrow> ('q, 'w) wstate \<Rightarrow> job_run result \<times> ('q, 'w) wstate" where
  "dispatch_job wk j s =
     (let started = wk_clock wk (ws_world s) in
      case get_handler (wk_registry wk) (job_name j) of
        Inl _ \<Rightarrow>
          fail_job wk j (str ''No handler is registered for '' @ repr_str (job_name j) @ str ''.'')
            started False s
      | Inr h \<Rightarrow>
          (case jh_validate h (job_payload j) of
             Inl errs \<Rightarrow> fail_job wk j (describe_validation errs) started False s
           | Inr params \<Rightarrow> run_job wk j h params started s))"

definition run_once ::
  "('p, 'q, 'w) worker \<Rightarrow> ('q, 'w) wstate \<Rightarrow> job_run option result \<times> ('q, 'w) wstate" where
  "run_once wk s =
     (case qo_dequeue (wk_queue wk) (ws_queue s) of
        (Inl e, q) \<Rightarrow> (Inl e, s\<lparr>ws_queue := q\<rparr>)
      | (Inr None, q) \<Rightarrow> (Inr None, s\<lparr>ws_queue := q\<rparr>)
      | (Inr (Some j), q) \<Rightarrow>
          (case dispatch_job wk j (s\<lparr>ws_queue := q\<rparr>) of
             (Inl e, s1) \<Rightarrow> (Inl e, s1)
           | (Inr r, s1) \<Rightarrow> (Inr (Some r), s1)))"

fun drain_loop ::
  "('p, 'q, 'w) worker \<Rightarrow> nat \<Rightarrow> job_run list \<Rightarrow> ('q, 'w) wstate
     \<Rightarrow> job_run list result \<times> ('q, 'w) wstate" where
  "drain_loop wk 0 runs s = (Inr runs, s)"
| "drain_loop wk (Suc n) runs s =
     (case run_once wk s of
        (Inl e, s1) \<Rightarrow> (Inl e, s1)
      | (Inr None, s1) \<Rightarrow> (Inr runs, s1)
      | (Inr (Some r), s1) \<Rightarrow> drain_loop wk n (runs @ [r]) s1)"

definition drain ::
  "('p, 'q, 'w) worker \<Rightarrow> int \<Rightarrow> ('q, 'w) wstate \<Rightarrow> job_run list result \<times> ('q, 'w) wstate" where
  "drain wk max_jobs s = drain_loop wk (nat max_jobs) [] s"

subsection \<open>The contract of a queue\<close>

text \<open>
  \<open>settles q j q'\<close>: what one dispatch of the dequeued job \<open>j\<close> may do to the queue.
\<close>

definition quiet :: "mem_queue \<Rightarrow> bool" where
  "quiet q \<longleftrightarrow> (\<forall>i j. mq_jobs q i = Some j \<longrightarrow> job_status j \<noteq> RUNNING)"

definition settled_by :: "mem_queue \<Rightarrow> job \<Rightarrow> job_run \<Rightarrow> mem_queue \<Rightarrow> bool" where
  "settled_by q j r q' \<longleftrightarrow>
     (jr_outcome r = J_SUCCEEDED \<and> q' = snd (mem_complete j q)) \<or>
     (\<exists>error retryable. jr_outcome r \<noteq> J_SUCCEEDED \<and> jr_error r = Some error \<and>
        (jr_outcome r = J_DEAD_LETTERED \<longleftrightarrow> exhausted (the (mq_jobs q (job_id j))) \<or> \<not> retryable) \<and>
        q' = snd (mem_fail j error retryable q))"

text \<open>
  One attempt at the level of the abstract queue: the job at the front is taken, and settled.
\<close>

lemma mem_dequeue_stored:
  assumes "queue_inv q" "mem_dequeue q = (Inr (Some j), q')"
  shows "mq_jobs q' (job_id j) = Some j" "job_status j = RUNNING" "queue_inv q'"
    "\<And>i. i \<noteq> job_id j \<Longrightarrow> mq_jobs q' i = mq_jobs q i" "job_id j \<in> dom (mq_jobs q)"
proof -
  from assms obtain i pending where p: "mq_pending q = i # pending"
    by (auto simp: mem_dequeue_simps split: list.splits)
  with assms(1) obtain s where s: "mq_jobs q i = Some s" by (auto simp: queue_inv_def)
  from queue_invD [OF assms(1) s] have id: "job_id s = i" by (simp add: job_ok_def)
  from assms p s have d: "j = start_attempt s" "mq_jobs q' = (mq_jobs q)(i \<mapsto> start_attempt s)"
    by (auto simp: mem_dequeue_simps Let_def)
  with id have "job_id j = i" by (simp add: start_attempt_def)
  with d s show "mq_jobs q' (job_id j) = Some j" "job_status j = RUNNING"
    "\<And>i. i \<noteq> job_id j \<Longrightarrow> mq_jobs q' i = mq_jobs q i" "job_id j \<in> dom (mq_jobs q)"
    by (auto simp: start_attempt_def)
  show "queue_inv q'" using mem_dequeue_inv [OF assms(1)] assms(2) by simp
qed

lemma settled_by_inv:
  assumes "queue_inv q" "held q j" "settled_by q j r q'"
  shows "queue_inv q'"
  using assms mem_complete_inv [OF assms(1,2)] mem_fail_inv [OF assms(1,2)]
  by (auto simp: settled_by_def)

lemma settled_by_work:
  assumes "queue_inv q" "held q j" "mq_jobs q (job_id j) = Some j" "settled_by q j r q'"
  shows "work_left q' \<le> work_left q + owed j"
  using assms(4) mem_complete_work [OF assms(1,2)] mem_fail_work [OF assms(1,2,3)]
  by (auto simp: settled_by_def)

lemma settled_by_others:
  assumes "settled_by q j r q'" "held q j"
  shows "i \<noteq> job_id j \<Longrightarrow> mq_jobs q' i = mq_jobs q i"
    and "\<exists>t. mq_jobs q' (job_id j) = Some t \<and> job_status t \<noteq> RUNNING"
  using assms by (auto simp: settled_by_def held_iff mem_complete_def mem_fail_def mem_get_def Let_def)

lemma attempt_abs:
  assumes "queue_inv q" "mem_dequeue q = (Inr (Some j), q1)" "settled_by q1 j r q2"
  shows "queue_inv q2" "work_left q2 < work_left q" "quiet q \<Longrightarrow> quiet q2"
    "dom (mq_jobs q2) = dom (mq_jobs q)"
proof -
  have held: "held q1 j" by (rule mem_dequeue_held [OF assms(1,2)])
  from mem_dequeue_stored [OF assms(1,2)] have stored: "mq_jobs q1 (job_id j) = Some j" "queue_inv q1"
    "\<And>i. i \<noteq> job_id j \<Longrightarrow> mq_jobs q1 i = mq_jobs q i" "job_id j \<in> dom (mq_jobs q)" by auto
  show "queue_inv q2" by (rule settled_by_inv [OF stored(2) held assms(3)])
  show "work_left q2 < work_left q"
    using mem_dequeue_work [OF assms(1,2)] settled_by_work [OF stored(2) held stored(1) assms(3)] by simp
  note others = settled_by_others [OF assms(3) held]
  show "quiet q2" if "quiet q"
  proof -
    have "job_status t \<noteq> RUNNING" if "mq_jobs q2 i = Some t" for i t
      using that \<open>quiet q\<close> stored(3) [of i] others
      by (cases "i = job_id j") (auto simp: quiet_def)
    then show ?thesis by (simp add: quiet_def)
  qed
  have "i \<in> dom (mq_jobs q2) \<longleftrightarrow> i \<in> dom (mq_jobs q)" for i
    using stored(3,4) others by (cases "i = job_id j") (auto simp: dom_def)
  then show "dom (mq_jobs q2) = dom (mq_jobs q)" by blast
qed

locale job_queue =
  fixes ops :: "'q queue_ops"
    and view :: "'q \<Rightarrow> mem_queue"
    and healthy :: "'q \<Rightarrow> bool"
  assumes healthy_inv: "healthy q \<Longrightarrow> queue_inv (view q)"
    and dequeue_sim:
      "healthy q \<Longrightarrow> qo_dequeue ops q = (r, q') \<Longrightarrow> healthy q' \<and> (r, view q') = mem_dequeue (view q)"
    and complete_sim:
      "healthy q \<Longrightarrow> held (view q) j \<Longrightarrow> qo_complete ops j q = (rc, q') \<Longrightarrow>
       healthy q' \<and> (rc, view q') = mem_complete j (view q)"
    and fail_sim:
      "healthy q \<Longrightarrow> held (view q) j \<Longrightarrow> qo_fail ops j e b q = (rf, q') \<Longrightarrow>
       healthy q' \<and> (rf, view q') = mem_fail j e b (view q)"
begin

lemma fail_job_settles:
  assumes "wk_queue wk = ops" "healthy (ws_queue s)" "held (view (ws_queue s)) j"
  shows "\<exists>r s'. fail_job wk j e st b s = (Inr r, s') \<and> healthy (ws_queue s') \<and>
    settled_by (view (ws_queue s)) j r (view (ws_queue s'))"
proof -
  obtain rf q' where f: "qo_fail ops j e b (ws_queue s) = (rf, q')" by force
  from fail_sim [OF assms(2,3) f] have sim: "healthy q'" "mem_fail j e b (view (ws_queue s)) = (rf, view q')"
    by auto
  from assms(3) obtain t where t: "mq_jobs (view (ws_queue s)) (job_id j) = Some t"
    by (auto simp: held_iff)
  with sim(2) obtain stored where rf: "rf = Inr stored" "job_attempts stored = job_attempts t"
    "job_status stored = (if exhausted t \<or> \<not> b then FAILED else PENDING)"
    by (auto simp: mem_fail_def mem_get_def Let_def split: if_splits)
  have "view q' = snd (mem_fail j e b (view (ws_queue s)))"
    by (simp add: sim(2))
  with sim(1) t rf show ?thesis
    by (auto simp: fail_job_def assms(1) f Let_def settled_by_def record_run_def)
qed

lemma finish_job_settles:
  assumes "wk_queue wk = ops" "healthy (ws_queue s)" "held (view (ws_queue s)) j"
  shows "\<exists>r s'. finish_job wk j st s = (Inr r, s') \<and> healthy (ws_queue s') \<and>
    settled_by (view (ws_queue s)) j r (view (ws_queue s'))"
proof -
  obtain rc q' where c: "qo_complete ops j (ws_queue s) = (rc, q')" by force
  from complete_sim [OF assms(2,3) c] have sim: "healthy q'" "mem_complete j (view (ws_queue s)) = (rc, view q')"
    by auto
  from assms(3) obtain t where t: "mq_jobs (view (ws_queue s)) (job_id j) = Some t"
    by (auto simp: held_iff)
  with sim(2) obtain stored where rc: "rc = Inr stored"
    by (auto simp: mem_complete_def mem_get_def Let_def)
  have "view q' = snd (mem_complete j (view (ws_queue s)))"
    by (simp add: sim(2))
  with sim(1) rc show ?thesis
    by (auto simp: finish_job_def assms(1) c Let_def settled_by_def record_run_def)
qed

lemma dispatch_settles:
  assumes "wk_queue wk = ops" "healthy (ws_queue s)" "held (view (ws_queue s)) j"
  shows "\<exists>r s'. dispatch_job wk j s = (Inr r, s') \<and> healthy (ws_queue s') \<and>
    settled_by (view (ws_queue s)) j r (view (ws_queue s'))"
proof (cases "get_handler (wk_registry wk) (job_name j)")
  case (Inl e)
  with fail_job_settles [OF assms] show ?thesis by (simp add: dispatch_job_def Let_def)
next
  case (Inr h)
  note got = Inr
  show ?thesis
  proof (cases "jh_validate h (job_payload j)")
    case (Inl errs)
    with got fail_job_settles [OF assms] show ?thesis by (simp add: dispatch_job_def Let_def)
  next
    case (Inr params)
    obtain out w where run: "jh_run h (wk_timeout wk) params (ws_world s) = (out, w)" by force
    have s1: "healthy (ws_queue (s\<lparr>ws_world := w\<rparr>))" "held (view (ws_queue (s\<lparr>ws_world := w\<rparr>))) j"
      using assms by simp_all
    note fails = fail_job_settles [OF assms(1) s1] and ok = finish_job_settles [OF assms(1) s1]
    have unfold: "dispatch_job wk j s = run_job wk j h params (wk_clock wk (ws_world s)) s"
      by (simp add: dispatch_job_def got Inr Let_def)
    show ?thesis
    proof (cases out)
      case Ran
      with ok show ?thesis by (simp add: unfold run_job_def run Let_def)
    next
      case (Job_Error m b)
      with fails show ?thesis by (simp add: unfold run_job_def run Let_def)
    next
      case (Raised x)
      with fails show ?thesis by (cases x) (simp_all add: unfold run_job_def run Let_def)
    qed
  qed
qed

lemma run_once_empty:
  assumes "wk_queue wk = ops" "healthy (ws_queue s)" "mq_pending (view (ws_queue s)) = []"
  shows "\<exists>s'. run_once wk s = (Inr None, s') \<and> healthy (ws_queue s') \<and>
    view (ws_queue s') = view (ws_queue s) \<and> ws_world s' = ws_world s \<and> ws_metrics s' = ws_metrics s"
proof -
  obtain r q' where d: "qo_dequeue ops (ws_queue s) = (r, q')" by force
  from dequeue_sim [OF assms(2) d] assms(3)
  have "healthy q'" "r = Inr None" "view q' = view (ws_queue s)"
    by (auto simp: mem_dequeue_def)
  then show ?thesis by (simp add: run_once_def assms(1) d)
qed

lemma run_once_attempt:
  assumes "wk_queue wk = ops" "healthy (ws_queue s)" "mq_pending (view (ws_queue s)) \<noteq> []"
  shows "\<exists>j q1 r s'. mem_dequeue (view (ws_queue s)) = (Inr (Some j), q1) \<and>
    run_once wk s = (Inr (Some r), s') \<and> healthy (ws_queue s') \<and> settled_by q1 j r (view (ws_queue s'))"
proof -
  obtain r q' where d: "qo_dequeue ops (ws_queue s) = (r, q')" by force
  from dequeue_sim [OF assms(2) d] have sim: "healthy q'" "mem_dequeue (view (ws_queue s)) = (r, view q')"
    by auto
  have inv: "queue_inv (view (ws_queue s))" by (rule healthy_inv [OF assms(2)])
  with sim(2) assms(3) obtain j where r: "r = Inr (Some j)"
    by (auto simp: mem_dequeue_simps Let_def split: list.splits)
  have "held (view q') j" using inv sim(2) unfolding r by (rule mem_dequeue_held)
  with dispatch_settles [OF assms(1), of "s\<lparr>ws_queue := q'\<rparr>" j] sim(1) obtain run s' where
    "dispatch_job wk j (s\<lparr>ws_queue := q'\<rparr>) = (Inr run, s')" "healthy (ws_queue s')"
    "settled_by (view q') j run (view (ws_queue s'))" by auto
  with sim(2) show ?thesis by (auto simp: run_once_def assms(1) d r)
qed

text \<open>No handler, however it ends, takes the worker down while the queue is healthy.\<close>

lemma run_once_returns:
  assumes "wk_queue wk = ops" "healthy (ws_queue s)"
  shows "\<exists>r s'. run_once wk s = (Inr r, s') \<and> healthy (ws_queue s')"
  using run_once_empty [OF assms] run_once_attempt [OF assms] by blast

lemma drain_loop_settles:
  assumes "wk_queue wk = ops" "healthy (ws_queue s)"
  shows "\<exists>new s'. drain_loop wk n runs s = (Inr (runs @ new), s') \<and> healthy (ws_queue s') \<and>
    length new \<le> n \<and> length new + work_left (view (ws_queue s')) \<le> work_left (view (ws_queue s)) \<and>
    (work_left (view (ws_queue s)) \<le> n \<longrightarrow> mq_pending (view (ws_queue s')) = []) \<and>
    (quiet (view (ws_queue s)) \<longrightarrow> quiet (view (ws_queue s'))) \<and>
    dom (mq_jobs (view (ws_queue s'))) = dom (mq_jobs (view (ws_queue s)))"
  using assms(2)
proof (induction n arbitrary: runs s)
  case 0
  have "mq_pending (view (ws_queue s)) = []" if "work_left (view (ws_queue s)) = 0"
  proof (rule ccontr)
    assume "mq_pending (view (ws_queue s)) \<noteq> []"
    with run_once_attempt [OF assms(1) 0] attempt_abs(2) [OF healthy_inv [OF 0]] that show False
      by fastforce
  qed
  with 0 show ?case by auto
next
  case (Suc n)
  show ?case
  proof (cases "mq_pending (view (ws_queue s)) = []")
    case True
    from run_once_empty [OF assms(1) Suc.prems True] obtain s' where
      "run_once wk s = (Inr None, s')" "healthy (ws_queue s')" "view (ws_queue s') = view (ws_queue s)"
      by auto
    with True show ?thesis by (intro exI [of _ "[]"] exI [of _ s']) auto
  next
    case False
    from run_once_attempt [OF assms(1) Suc.prems False] obtain j q1 r s1 where
      deq: "mem_dequeue (view (ws_queue s)) = (Inr (Some j), q1)" and
      run: "run_once wk s = (Inr (Some r), s1)" and h: "healthy (ws_queue s1)" and
      settled: "settled_by q1 j r (view (ws_queue s1))" by auto
    note att = attempt_abs [OF healthy_inv [OF Suc.prems] deq settled]
    from Suc.IH [OF h, of "runs @ [r]"] obtain new s' where
      IH: "drain_loop wk n (runs @ [r]) s1 = (Inr ((runs @ [r]) @ new), s')" "healthy (ws_queue s')"
      "length new \<le> n" "length new + work_left (view (ws_queue s')) \<le> work_left (view (ws_queue s1))"
      "work_left (view (ws_queue s1)) \<le> n \<longrightarrow> mq_pending (view (ws_queue s')) = []"
      "quiet (view (ws_queue s1)) \<longrightarrow> quiet (view (ws_queue s'))"
      "dom (mq_jobs (view (ws_queue s'))) = dom (mq_jobs (view (ws_queue s1)))" by auto
    with run att show ?thesis by (intro exI [of _ "r # new"] exI [of _ s']) auto
  qed
qed

lemma drain_settles:
  assumes "wk_queue wk = ops" "healthy (ws_queue s)" "quiet (view (ws_queue s))"
    and "int (work_left (view (ws_queue s))) \<le> max_jobs"
  shows "\<exists>runs s'. drain wk max_jobs s = (Inr runs, s') \<and> healthy (ws_queue s') \<and>
    length runs \<le> work_left (view (ws_queue s)) \<and>
    dom (mq_jobs (view (ws_queue s'))) = dom (mq_jobs (view (ws_queue s))) \<and>
    (\<forall>i j. mq_jobs (view (ws_queue s')) i = Some j \<longrightarrow> terminal j) \<and>
    mq_pending (view (ws_queue s')) = []"
proof -
  from drain_loop_settles [OF assms(1,2), of "nat max_jobs" "[]"] assms(3,4) obtain runs s' where
    d: "drain_loop wk (nat max_jobs) [] s = (Inr runs, s')" "healthy (ws_queue s')"
    "length runs \<le> work_left (view (ws_queue s))" "mq_pending (view (ws_queue s')) = []"
    "quiet (view (ws_queue s'))" "dom (mq_jobs (view (ws_queue s'))) = dom (mq_jobs (view (ws_queue s)))"
    by auto
  have "terminal j" if j: "mq_jobs (view (ws_queue s')) i = Some j" for i j
  proof -
    have "job_ok [] (mq_dead (view (ws_queue s'))) i j"
      using queue_invD [OF healthy_inv [OF d(2)] j] d(4) by simp
    moreover have "job_status j \<noteq> RUNNING" using d(5) j by (auto simp: quiet_def)
    ultimately show ?thesis by (cases "job_status j") (auto simp: terminal_def job_ok_def)
  qed
  with d show ?thesis by (auto simp: drain_def)
qed

lemma drain_bounded:
  assumes "wk_queue wk = ops" "healthy (ws_queue s)" "0 \<le> max_jobs"
  shows "\<exists>runs s'. drain wk max_jobs s = (Inr runs, s') \<and> int (length runs) \<le> max_jobs \<and>
    queue_inv (view (ws_queue s'))"
  using drain_loop_settles [OF assms(1,2), of "nat max_jobs" "[]"] assms(3) healthy_inv
  by (fastforce simp: drain_def)

end

text \<open>The in-memory queue keeps the contract: it is its own abstract view.\<close>

interpretation mem: job_queue "mem_ops frepr" "\<lambda>q. q" queue_inv
proof unfold_locales
  show "queue_inv q' \<and> (r, q') = mem_dequeue q"
    if "queue_inv q" "qo_dequeue (mem_ops frepr) q = (r, q')" for q r q'
    using that mem_dequeue_inv [of q] by (simp add: mem_ops_def)
  show "queue_inv q' \<and> (r, q') = mem_complete j q"
    if "queue_inv q" "held q j" "qo_complete (mem_ops frepr) j q = (r, q')" for q j r q'
    using that mem_complete_inv [of q j] by (simp add: mem_ops_def)
  show "queue_inv q' \<and> (r, q') = mem_fail j e b q"
    if "queue_inv q" "held q j" "qo_fail (mem_ops frepr) j e b q = (r, q')" for q j e b r q'
    using that mem_fail_inv [of q j e b] by (simp add: mem_ops_def)
qed simp

subsection \<open>The handler registry keeps the contract of a registry\<close>

lemma validate_job_name_Inr: "validate_job_name n = Inr m \<Longrightarrow> m = n \<and> n \<noteq> [] \<and> length n \<le> 64"
  by (auto simp: validate_job_name_def raise_app_def MAX_NAME_LENGTH_def split: if_splits)

interpretation handlers: registry register_handler map_of jh_name
proof unfold_locales
  fix h :: "('p, 'w) job_handler" and r r1
  assume "register_handler h r = Inr r1"
  then have "map_of r (jh_name h) = None \<and> r1 = AList.update (jh_name h) h r"
    by (auto simp: register_handler_def raise_app_def split: sum.splits if_splits dest: validate_job_name_Inr)
  then show "map_of r (jh_name h) = None" "map_of r1 = (map_of r)(jh_name h \<mapsto> h)"
    by (auto simp: map_of_AList_update)
qed

subsection \<open>Properties\<close>

text \<open>
  Whatever the handlers do -- return, raise \<open>JobError\<close>, raise anything else, run past the
  deadline, reject the payload, or not exist -- \<open>run_once\<close> on the in-memory queue returns
  normally and the life-cycle invariant holds again.
\<close>

theorem worker_survives_every_handler:
  assumes "wk_queue wk = mem_ops frepr" "queue_inv (ws_queue s)"
  shows "\<exists>r s'. run_once wk s = (Inr r, s') \<and> queue_inv (ws_queue s')"
  by (rule mem.run_once_returns [OF assms])

text \<open>
  C6: \<open>drain\<close> settles everything. Started on an in-memory queue in which no job is running,
  with a budget of at least the attempts the pending jobs have left, it returns after at most
  that many runs; no job is pending or running any more, and every job that was stored still
  is, succeeded or failed.
\<close>

theorem drain_settles_every_job:
  assumes "wk_queue wk = mem_ops frepr" "queue_inv (ws_queue s)" "quiet (ws_queue s)"
    and "int (work_left (ws_queue s)) \<le> max_jobs"
  shows "\<exists>runs s'. drain wk max_jobs s = (Inr runs, s') \<and>
    length runs \<le> work_left (ws_queue s) \<and>
    dom (mq_jobs (ws_queue s')) = dom (mq_jobs (ws_queue s)) \<and>
    (\<forall>i j. mq_jobs (ws_queue s') i = Some j \<longrightarrow> terminal j) \<and>
    mq_pending (ws_queue s') = []"
  using mem.drain_settles [OF assms] by blast

text \<open>A worker whose handler fails every time, and a queue with one job of two attempts.\<close>

definition sample_handler :: "(payload, rat) job_handler" where
  "sample_handler =
     \<lparr>jh_name = str ''create_ticket'', jh_payload_is_model = True, jh_validate = Inr,
      jh_run = (\<lambda>_ _ w. (Job_Error (str ''down'') True, w + 1))\<rparr>"

definition sample_worker :: "(payload, mem_queue, rat) worker" where
  "sample_worker =
     \<lparr>wk_queue = mem_ops (\<lambda>_. []), wk_registry = [(str ''create_ticket'', sample_handler)],
      wk_timeout = 30, wk_clock = (\<lambda>w. w), wk_fmt_g = (\<lambda>_. [])\<rparr>"

definition sample_state :: "(mem_queue, rat) wstate" where
  "sample_state = \<lparr>ws_queue = sample_queue, ws_world = 0, ws_metrics = []\<rparr>"

lemma sample_queue_inv: "queue_inv sample_queue"
  by (rule queue_steps_inv [OF sample_queue_steps queue_inv_init])

lemma sample_queue_shape:
  "mq_pending sample_queue = [str ''j1'']" "work_left sample_queue = 1"
  by code_simp+

lemma sample_queue_quiet: "quiet sample_queue"
  by (auto simp: quiet_def sample_queue_def Let_def mem_enqueue_def build_job_def validate_job_name_def
      allowed_name_char_def islower_ascii_def isdigit_def str_def MAX_NAME_LENGTH_def validate_payload_def
      mem_init_def mem_dequeue_def start_attempt_def mem_fail_def mem_get_def exhausted_def split: if_splits)

lemma worker_survives_every_handler_witness:
  "\<exists>r s'. run_once sample_worker sample_state = (Inr r, s') \<and> queue_inv (ws_queue s')"
  by (rule worker_survives_every_handler)
    (simp_all add: sample_worker_def sample_state_def sample_queue_inv)

lemma drain_settles_every_job_witness:
  "\<exists>runs s'. drain sample_worker DEFAULT_DRAIN_LIMIT sample_state = (Inr runs, s') \<and>
    length runs \<le> 1 \<and> mq_pending (ws_queue s') = []"
proof -
  have "int (work_left (ws_queue sample_state)) \<le> DEFAULT_DRAIN_LIMIT"
    by (simp add: sample_state_def sample_queue_shape DEFAULT_DRAIN_LIMIT_def)
  with drain_settles_every_job [of sample_worker "\<lambda>_. []" sample_state DEFAULT_DRAIN_LIMIT]
  show ?thesis
    by (fastforce simp: sample_worker_def sample_state_def sample_queue_inv sample_queue_quiet
        sample_queue_shape)
qed

text \<open>
  The assembly of a handler registry never shadows a handler. When registering a list
  succeeds, the names are pairwise different, every handler is found under its own name, and
  nothing else is found.
\<close>

theorem handler_registry_total:
  assumes "register_all register_handler hs [] = Inr reg"
  shows "distinct (map jh_name hs) \<and> (\<forall>h \<in> set hs. get_handler reg (jh_name h) = Inr h) \<and>
    (\<forall>name h. get_handler reg name = Inr h \<longrightarrow> h \<in> set hs \<and> jh_name h = name)"
  using handlers.distinct_all [OF assms] handlers.registered_all [OF assms] handlers.found_all [OF assms]
  by (auto simp: get_handler_def raise_app_def split: option.splits)

lemma handler_registry_total_witness:
  "get_handler [(str ''create_ticket'', sample_handler)] (str ''create_ticket'') = Inr sample_handler"
proof -
  have "register_all register_handler [sample_handler] [] = Inr [(str ''create_ticket'', sample_handler)]"
    by (simp add: register_handler_def sample_handler_def validate_job_name_def allowed_name_char_def
        islower_ascii_def isdigit_def str_def MAX_NAME_LENGTH_def)
  from handler_registry_total [OF this] show ?thesis by (simp add: sample_handler_def)
qed

end
