(* ===== verification/Redis.thy ===== *)
theory Redis
  imports Errors
begin

text \<open>
  The Redis server the durable backends talk to. The server is not part of the repository:
  a client is a parameter \<open>exec\<close> that sends a pipeline and gives the replies, or nothing when
  the client raises \<open>RedisError\<close> or \<open>OSError\<close>. What the code relies on is the documented effect
  of the commands, \<open>run_cmds\<close> on the state of a keyspace, and the locale \<open>redis_server\<close>: a
  pipeline is applied whole or not at all, and a failed round trip may have been either.
\<close>

datatype redis_cmd =
    SET pystr pystr "rat option"
  | GET pystr
  | GETDEL pystr
  | MGET "pystr list"
  | RPUSH pystr pystr
  | LMOVE_LEFT_RIGHT pystr pystr
  | LREM_ONE pystr pystr
  | LLEN pystr
  | LRANGE_ALL pystr
  | INCR pystr
  | EXPIRE_NX pystr rat
  | PING
  | TIME

datatype redis_reply =
    R_Ok
  | R_Nil
  | R_Bulk pystr
  | R_Int int
  | R_Array "pystr option list"
  | R_Time rat

datatype redis_value = V_Str pystr | V_Count int | V_List "pystr list"

record redis_db =
  rd_now :: rat
  rd_keys :: "pystr \<rightharpoonup> redis_value \<times> rat option"

definition live :: "redis_db \<Rightarrow> pystr \<Rightarrow> (redis_value \<times> rat option) option" where
  "live db k =
     (case rd_keys db k of
        Some (v, Some t) \<Rightarrow> if rd_now db < t then Some (v, Some t) else None
      | other \<Rightarrow> other)"

definition get_str :: "redis_db \<Rightarrow> pystr \<Rightarrow> pystr option" where
  "get_str db k =
     (case live db k of
        Some (V_Str s, _) \<Rightarrow> Some s
      | Some (V_Count n, _) \<Rightarrow> Some (show_int n)
      | _ \<Rightarrow> None)"

definition get_list :: "redis_db \<Rightarrow> pystr \<Rightarrow> pystr list" where
  "get_list db k = (case live db k of Some (V_List xs, _) \<Rightarrow> xs | _ \<Rightarrow> [])"

definition put :: "pystr \<Rightarrow> redis_value \<Rightarrow> rat option \<Rightarrow> redis_db \<Rightarrow> redis_db" where
  "put k v t db = db\<lparr>rd_keys := (rd_keys db)(k \<mapsto> (v, t))\<rparr>"

definition put_list :: "pystr \<Rightarrow> pystr list \<Rightarrow> redis_db \<Rightarrow> redis_db" where
  "put_list k xs db =
     (if xs = [] then db\<lparr>rd_keys := (rd_keys db)(k := None)\<rparr> else put k (V_List xs) None db)"

text \<open>
  The effect of one command on keys of the type it expects. The backends' keys never hold
  another type, and a command on a wrong type is an error reply, which the client raises.
\<close>

fun run_cmd :: "redis_cmd \<Rightarrow> redis_db \<Rightarrow> redis_reply \<times> redis_db" where
  "run_cmd (SET k v ttl) db =
     (R_Ok, put k (V_Str v) (map_option (\<lambda>t. rd_now db + t) ttl) db)"
| "run_cmd (GET k) db = (case get_str db k of None \<Rightarrow> R_Nil | Some s \<Rightarrow> R_Bulk s, db)"
| "run_cmd (GETDEL k) db =
     (case get_str db k of
        None \<Rightarrow> (R_Nil, db)
      | Some s \<Rightarrow> (R_Bulk s, db\<lparr>rd_keys := (rd_keys db)(k := None)\<rparr>))"
| "run_cmd (MGET ks) db = (R_Array (map (get_str db) ks), db)"
| "run_cmd (RPUSH k v) db =
     (let xs = get_list db k @ [v] in (R_Int (int (length xs)), put_list k xs db))"
| "run_cmd (LMOVE_LEFT_RIGHT src dst) db =
     (case get_list db src of
        [] \<Rightarrow> (R_Nil, db)
      | x # xs \<Rightarrow>
          let db1 = put_list src xs db
          in (R_Bulk x, put_list dst (get_list db1 dst @ [x]) db1))"
| "run_cmd (LREM_ONE k v) db =
     (let xs = get_list db k in
      (R_Int (if v \<in> set xs then 1 else 0), put_list k (remove1 v xs) db))"
| "run_cmd (LLEN k) db = (R_Int (int (length (get_list db k))), db)"
| "run_cmd (LRANGE_ALL k) db = (R_Array (map Some (get_list db k)), db)"
| "run_cmd (INCR k) db =
     (case live db k of
        Some (V_Count n, t) \<Rightarrow> (R_Int (n + 1), put k (V_Count (n + 1)) t db)
      | _ \<Rightarrow> (R_Int 1, put k (V_Count 1) None db))"
| "run_cmd (EXPIRE_NX k secs) db =
     (case live db k of
        Some (v, None) \<Rightarrow> (R_Int 1, put k v (Some (rd_now db + secs)) db)
      | _ \<Rightarrow> (R_Int 0, db))"
| "run_cmd PING db = (R_Ok, db)"
| "run_cmd TIME db = (R_Time (rd_now db), db)"

fun run_cmds :: "redis_cmd list \<Rightarrow> redis_db \<Rightarrow> redis_reply list \<times> redis_db" where
  "run_cmds [] db = ([], db)"
| "run_cmds (c # cs) db =
     (let (r, db1) = run_cmd c db; (rs, db2) = run_cmds cs db1 in (r # rs, db2))"

type_synonym 's redis_exec = "redis_cmd list \<Rightarrow> 's \<Rightarrow> redis_reply list option \<times> 's"

text \<open>The server itself, always reachable: the instance the contracts are tested on.\<close>

definition direct_exec :: "redis_db redis_exec" where
  "direct_exec cs db = (let (rs, db') = run_cmds cs db in (Some rs, db'))"

locale redis_server =
  fixes exec :: "'s redis_exec"
    and view :: "'s \<Rightarrow> redis_db"
    and up :: "'s \<Rightarrow> bool"
  assumes answered:
      "exec cs s = (Some rs, s') \<Longrightarrow> (rs, view s') = run_cmds cs (view s)"
    and lost:
      "exec cs s = (None, s') \<Longrightarrow> view s' = view s \<or> view s' = snd (run_cmds cs (view s))"
    and reachable:
      "up s \<Longrightarrow> exec cs s = (r, s') \<Longrightarrow> r \<noteq> None \<and> up s'"
begin

lemma up_exec:
  assumes "up s" "exec cs s = (r, s')"
  shows "r = Some (fst (run_cmds cs (view s))) \<and> view s' = snd (run_cmds cs (view s)) \<and> up s'"
proof -
  from reachable [OF assms] obtain rs where "r = Some rs" "up s'" by auto
  with assms(2) answered [of cs s rs s'] show ?thesis
    by (metis fst_conv snd_conv)
qed

lemma some_exec:
  "exec cs s = (Some rs, s') \<Longrightarrow> rs = fst (run_cmds cs (view s)) \<and> view s' = snd (run_cmds cs (view s))"
  by (drule answered) (metis fst_conv snd_conv)

end

interpretation direct: redis_server direct_exec "\<lambda>db. db" "\<lambda>_. True"
  by unfold_locales (auto simp: direct_exec_def Let_def split: prod.splits)

subsection \<open>Lemmas on the keyspace\<close>

lemma put_now [simp]: "rd_now (put k v t db) = rd_now db" "rd_now (put_list k xs db) = rd_now db"
  by (simp_all add: put_def put_list_def)

lemma run_cmd_now [simp]: "rd_now (snd (run_cmd c db)) = rd_now db"
  by (cases c) (auto simp: Let_def split: option.splits list.splits redis_value.splits)

lemma live_put [simp]: "live (put k v None db) k' = (if k' = k then Some (v, None) else live db k')"
  by (auto simp: live_def put_def split: option.splits)

lemma live_put_ttl:
  "live (put k v (Some t) db) k' =
   (if k' = k then (if rd_now db < t then Some (v, Some t) else None) else live db k')"
  by (auto simp: live_def put_def split: option.splits)

lemma live_del [simp]:
  "live (db\<lparr>rd_keys := (rd_keys db)(k := None)\<rparr>) k' = (if k' = k then None else live db k')"
  by (auto simp: live_def split: option.splits)

lemma get_str_put [simp]:
  "get_str (put k (V_Str s) None db) k' = (if k' = k then Some s else get_str db k')"
  by (simp add: get_str_def)

lemma get_list_put_str [simp]:
  "get_list (put k (V_Str s) None db) k' = (if k' = k then [] else get_list db k')"
  by (simp add: get_list_def)

lemma get_list_put_list [simp]:
  "get_list (put_list k xs db) k' = (if k' = k then xs else get_list db k')"
  by (simp add: get_list_def put_list_def)

lemma get_str_put_list [simp]:
  "get_str (put_list k xs db) k' = (if k' = k then None else get_str db k')"
  by (simp add: get_str_def put_list_def)

end
