(* ===== verification/RedisJobs.thy ===== *)
theory RedisJobs
  imports Worker Redis "HOL-Library.Countable"
begin

text \<open>
  \<open>jobs/redis_queue.py\<close>: the durable queue. Each operation is the pipelines it sends, in the
  order it sends them, over the client parameter of \<open>Redis\<close>. \<open>enc\<close> is
  \<open>model_dump_json\<close> and \<open>dec\<close> is \<open>Job.model_validate(json.loads(_))\<close>, nothing when either
  raises; what the code relies on is that a stored job reads back as itself. The locale
  \<open>redis_jobs\<close> shows that with a reachable server the queue keeps the contract of
  \<open>job_queue\<close>, so every lemma of the worker holds for it.
\<close>

subsection \<open>Keys\<close>

definition pending_key :: "pystr \<Rightarrow> pystr" where
  "pending_key ns = ns @ str '':pending''"

definition processing_key :: "pystr \<Rightarrow> pystr" where
  "processing_key ns = ns @ str '':processing''"

definition dead_key :: "pystr \<Rightarrow> pystr" where
  "dead_key ns = ns @ str '':dead''"

definition job_key :: "pystr \<Rightarrow> pystr \<Rightarrow> pystr" where
  "job_key ns i = ns @ str '':job:'' @ i"

lemmas key_defs = pending_key_def processing_key_def dead_key_def job_key_def

lemma keys_distinct [simp]:
  "pending_key ns \<noteq> processing_key ns" "processing_key ns \<noteq> pending_key ns"
  "pending_key ns \<noteq> dead_key ns" "dead_key ns \<noteq> pending_key ns"
  "processing_key ns \<noteq> dead_key ns" "dead_key ns \<noteq> processing_key ns"
  "job_key ns i \<noteq> pending_key ns" "pending_key ns \<noteq> job_key ns i"
  "job_key ns i \<noteq> processing_key ns" "processing_key ns \<noteq> job_key ns i"
  "job_key ns i \<noteq> dead_key ns" "dead_key ns \<noteq> job_key ns i"
  by (simp_all add: key_defs str_def)

lemma job_key_eq [simp]: "job_key ns i = job_key ns k \<longleftrightarrow> i = k"
  by (simp add: job_key_def)

subsection \<open>Operations\<close>

definition queue_unavailable :: "'a result" where
  "queue_unavailable =
     raise_app JobQueueUnavailableError None (Some [(str ''backend'', PStr (str ''redis''))])"

definition rq_parse :: "(pystr \<Rightarrow> job option) \<Rightarrow> redis_reply \<Rightarrow> pystr \<Rightarrow> job result" where
  "rq_parse dec raw i =
     (case raw of
        R_Bulk text \<Rightarrow> (case dec text of Some j \<Rightarrow> Inr j | None \<Rightarrow> job_not_found i)
      | _ \<Rightarrow> job_not_found i)"

definition rq_get ::
  "'s redis_exec \<Rightarrow> (pystr \<Rightarrow> job option) \<Rightarrow> pystr \<Rightarrow> pystr \<Rightarrow> 's \<Rightarrow> job result \<times> 's" where
  "rq_get exec dec ns i s =
     (case exec [GET (job_key ns i)] s of
        (None, s1) \<Rightarrow> (queue_unavailable, s1)
      | (Some rs, s1) \<Rightarrow> (rq_parse dec (hd rs) i, s1))"

definition rq_write ::
  "'s redis_exec \<Rightarrow> (job \<Rightarrow> pystr) \<Rightarrow> pystr \<Rightarrow> job \<Rightarrow> 's \<Rightarrow> job result \<times> 's" where
  "rq_write exec enc ns j s =
     (case exec [SET (job_key ns (job_id j)) (enc j) None] s of
        (None, s1) \<Rightarrow> (queue_unavailable, s1)
      | (Some _, s1) \<Rightarrow> (Inr j, s1))"

definition rq_enqueue ::
  "'s redis_exec \<Rightarrow> (job \<Rightarrow> pystr) \<Rightarrow> pystr \<Rightarrow> (rat \<Rightarrow> pystr) \<Rightarrow> pystr \<Rightarrow> pystr \<Rightarrow> pyval \<Rightarrow> int \<Rightarrow> 's
     \<Rightarrow> job result \<times> 's" where
  "rq_enqueue exec enc ns frepr new_id name payload max_attempts s =
     (case build_job frepr new_id name payload max_attempts of
        Inl e \<Rightarrow> (Inl e, s)
      | Inr j \<Rightarrow>
          (case exec [SET (job_key ns (job_id j)) (enc j) None, RPUSH (pending_key ns) (job_id j)] s of
             (None, s1) \<Rightarrow> (queue_unavailable, s1)
           | (Some _, s1) \<Rightarrow> (Inr j, s1)))"

definition rq_dequeue ::
  "'s redis_exec \<Rightarrow> (job \<Rightarrow> pystr) \<Rightarrow> (pystr \<Rightarrow> job option) \<Rightarrow> pystr \<Rightarrow> 's
     \<Rightarrow> job option result \<times> 's" where
  "rq_dequeue exec enc dec ns s =
     (case exec [LMOVE_LEFT_RIGHT (pending_key ns) (processing_key ns)] s of
        (None, s1) \<Rightarrow> (queue_unavailable, s1)
      | (Some rs, s1) \<Rightarrow>
          (case hd rs of
             R_Bulk i \<Rightarrow>
               (case rq_get exec dec ns i s1 of
                  (Inl e, s2) \<Rightarrow> (Inl e, s2)
                | (Inr stored, s2) \<Rightarrow>
                    (case rq_write exec enc ns (start_attempt stored) s2 of
                       (Inl e, s3) \<Rightarrow> (Inl e, s3)
                     | (Inr running, s3) \<Rightarrow> (Inr (Some running), s3)))
           | _ \<Rightarrow> (Inr None, s1)))"

definition rq_complete ::
  "'s redis_exec \<Rightarrow> (job \<Rightarrow> pystr) \<Rightarrow> (pystr \<Rightarrow> job option) \<Rightarrow> pystr \<Rightarrow> job \<Rightarrow> 's
     \<Rightarrow> job result \<times> 's" where
  "rq_complete exec enc dec ns j s =
     (case rq_get exec dec ns (job_id j) s of
        (Inl e, s1) \<Rightarrow> (Inl e, s1)
      | (Inr stored, s1) \<Rightarrow>
          let done = stored\<lparr>job_status := SUCCEEDED, job_error := None\<rparr>
          in (case exec [SET (job_key ns (job_id done)) (enc done) None,
                         LREM_ONE (processing_key ns) (job_id done)] s1 of
                (None, s2) \<Rightarrow> (queue_unavailable, s2)
              | (Some _, s2) \<Rightarrow> (Inr done, s2)))"

definition rq_fail ::
  "'s redis_exec \<Rightarrow> (job \<Rightarrow> pystr) \<Rightarrow> (pystr \<Rightarrow> job option) \<Rightarrow> pystr \<Rightarrow> job \<Rightarrow> pystr \<Rightarrow> bool \<Rightarrow> 's
     \<Rightarrow> job result \<times> 's" where
  "rq_fail exec enc dec ns j error retryable s =
     (case rq_get exec dec ns (job_id j) s of
        (Inl e, s1) \<Rightarrow> (Inl e, s1)
      | (Inr stored, s1) \<Rightarrow>
          if exhausted stored \<or> \<not> retryable then
            let dead = stored\<lparr>job_status := FAILED, job_error := Some error\<rparr>
            in (case exec [SET (job_key ns (job_id dead)) (enc dead) None,
                           LREM_ONE (processing_key ns) (job_id dead),
                           RPUSH (dead_key ns) (job_id dead)] s1 of
                  (None, s2) \<Rightarrow> (queue_unavailable, s2)
                | (Some _, s2) \<Rightarrow> (Inr dead, s2))
          else
            let retry = stored\<lparr>job_status := PENDING, job_error := Some error\<rparr>
            in (case exec [SET (job_key ns (job_id retry)) (enc retry) None,
                           LREM_ONE (processing_key ns) (job_id retry),
                           RPUSH (pending_key ns) (job_id retry)] s1 of
                  (None, s2) \<Rightarrow> (queue_unavailable, s2)
                | (Some _, s2) \<Rightarrow> (Inr retry, s2)))"

definition rq_depth :: "'s redis_exec \<Rightarrow> pystr \<Rightarrow> 's \<Rightarrow> int result \<times> 's" where
  "rq_depth exec ns s =
     (case exec [LLEN (pending_key ns)] s of
        (Some (R_Int n # _), s1) \<Rightarrow> (Inr n, s1)
      | (_, s1) \<Rightarrow> (queue_unavailable, s1))"

text \<open>\<open>dead_lettered\<close>: an id whose job is gone is skipped, one that cannot be read is an error.\<close>

fun parse_all :: "(pystr \<Rightarrow> job option) \<Rightarrow> (pystr option \<times> pystr option) list \<Rightarrow> job list result" where
  "parse_all dec [] = Inr []"
| "parse_all dec ((Some i, Some raw) # rest) =
     (case rq_parse dec (R_Bulk raw) i of
        Inl e \<Rightarrow> Inl e
      | Inr j \<Rightarrow> (case parse_all dec rest of Inl e \<Rightarrow> Inl e | Inr js \<Rightarrow> Inr (j # js)))"
| "parse_all dec (_ # rest) = parse_all dec rest"

definition rq_dead_lettered ::
  "'s redis_exec \<Rightarrow> (pystr \<Rightarrow> job option) \<Rightarrow> pystr \<Rightarrow> 's \<Rightarrow> job list result \<times> 's" where
  "rq_dead_lettered exec dec ns s =
     (case exec [LRANGE_ALL (dead_key ns)] s of
        (Some (R_Array ids # _), s1) \<Rightarrow>
          if ids = [] then (Inr [], s1)
          else (case exec [MGET (map (\<lambda>i. job_key ns (the i)) ids)] s1 of
                  (Some (R_Array raws # _), s2) \<Rightarrow> (parse_all dec (zip ids raws), s2)
                | (_, s2) \<Rightarrow> (queue_unavailable, s2))
      | (_, s1) \<Rightarrow> (queue_unavailable, s1))"

definition rq_ping :: "'s redis_exec \<Rightarrow> 's \<Rightarrow> bool \<times> 's" where
  "rq_ping exec s = (case exec [PING] s of (None, s1) \<Rightarrow> (False, s1) | (Some _, s1) \<Rightarrow> (True, s1))"

definition redis_ops ::
  "'s redis_exec \<Rightarrow> (job \<Rightarrow> pystr) \<Rightarrow> (pystr \<Rightarrow> job option) \<Rightarrow> pystr \<Rightarrow> (rat \<Rightarrow> pystr) \<Rightarrow> 's queue_ops" where
  "redis_ops exec enc dec ns frepr =
     \<lparr>qo_enqueue = rq_enqueue exec enc ns frepr, qo_dequeue = rq_dequeue exec enc dec ns,
      qo_complete = rq_complete exec enc dec ns, qo_fail = rq_fail exec enc dec ns\<rparr>"

subsection \<open>The abstract queue in the keyspace\<close>

definition rq_view :: "pystr \<Rightarrow> (pystr \<Rightarrow> job option) \<Rightarrow> redis_db \<Rightarrow> mem_queue" where
  "rq_view ns dec db =
     \<lparr>mq_pending = get_list db (pending_key ns),
      mq_jobs = (\<lambda>i. case get_str db (job_key ns i) of None \<Rightarrow> None | Some raw \<Rightarrow> dec raw),
      mq_dead = get_list db (dead_key ns)\<rparr>"

text \<open>
  What JSON can carry: \<open>model_dump_json\<close> writes an infinity as \<open>null\<close>, so only a payload
  without one reads back as itself.
\<close>

fun has_inf :: "pyval \<Rightarrow> bool" where
  "has_inf (PInf _) = True"
| "has_inf (PList xs) = list_ex has_inf xs"
| "has_inf (PTuple xs) = list_ex has_inf xs"
| "has_inf (PDict kvs) = list_ex (\<lambda>kv. has_inf (fst kv) \<or> has_inf (snd kv)) kvs"
| "has_inf _ = False"

definition storable :: "job \<Rightarrow> bool" where
  "storable j \<longleftrightarrow> \<not> has_inf (PDict (job_payload j))"

definition rq_healthy ::
  "('s \<Rightarrow> redis_db) \<Rightarrow> ('s \<Rightarrow> bool) \<Rightarrow> pystr \<Rightarrow> (pystr \<Rightarrow> job option) \<Rightarrow> 's \<Rightarrow> bool" where
  "rq_healthy view up ns dec s \<longleftrightarrow>
     up s \<and> queue_inv (rq_view ns dec (view s)) \<and>
     (\<forall>i j. mq_jobs (rq_view ns dec (view s)) i = Some j \<longrightarrow> storable j)"

lemma storable_upd [simp]:
  "storable (start_attempt j) = storable j"
  "storable (j\<lparr>job_status := t, job_error := e\<rparr>) = storable j"
  by (simp_all add: storable_def start_attempt_def)

lemma rq_view_put_job:
  "dec (enc j) = Some j \<Longrightarrow>
   rq_view ns dec (put (job_key ns i) (V_Str (enc j)) None db) =
   (rq_view ns dec db)\<lparr>mq_jobs := (mq_jobs (rq_view ns dec db))(i \<mapsto> j)\<rparr>"
  by (auto simp: rq_view_def fun_eq_iff)

lemma rq_view_put_lists [simp]:
  "rq_view ns dec (put_list (processing_key ns) xs db) = rq_view ns dec db"
  "rq_view ns dec (put_list (pending_key ns) xs db) = (rq_view ns dec db)\<lparr>mq_pending := xs\<rparr>"
  "rq_view ns dec (put_list (dead_key ns) xs db) = (rq_view ns dec db)\<lparr>mq_dead := xs\<rparr>"
  by (simp_all add: rq_view_def fun_eq_iff)

lemma rq_view_lists:
  "get_list db (pending_key ns) = mq_pending (rq_view ns dec db)"
  "get_list db (dead_key ns) = mq_dead (rq_view ns dec db)"
  by (simp_all add: rq_view_def)

locale redis_jobs = redis_server exec view up
  for exec :: "'s redis_exec" and view :: "'s \<Rightarrow> redis_db" and up :: "'s \<Rightarrow> bool" +
  fixes enc :: "job \<Rightarrow> pystr"
    and dec :: "pystr \<Rightarrow> job option"
    and ns :: pystr
  assumes codec: "storable j \<Longrightarrow> dec (enc j) = Some j"
begin

lemma get_job:
  assumes "up s" "mq_jobs (rq_view ns dec (view s)) i = Some j"
  shows "\<exists>s1. rq_get exec dec ns i s = (Inr j, s1) \<and> view s1 = view s \<and> up s1"
proof -
  obtain r s1 where e: "exec [GET (job_key ns i)] s = (r, s1)" by force
  from assms(2) obtain raw where raw: "get_str (view s) (job_key ns i) = Some raw" "dec raw = Some j"
    by (auto simp: rq_view_def split: option.splits)
  from up_exec [OF assms(1) e] raw(1) have "r = Some [R_Bulk raw]" "view s1 = view s" "up s1"
    by (auto split: option.splits)
  with raw(2) show ?thesis by (simp add: rq_get_def e rq_parse_def)
qed

lemma dequeue_simulates:
  assumes "rq_healthy view up ns dec s" "rq_dequeue exec enc dec ns s = (r, s')"
  shows "rq_healthy view up ns dec s' \<and> (r, rq_view ns dec (view s')) = mem_dequeue (rq_view ns dec (view s))"
proof -
  let ?v = "rq_view ns dec (view s)"
  from assms(1) have h: "up s" "queue_inv ?v" "\<And>i j. mq_jobs ?v i = Some j \<Longrightarrow> storable j"
    by (auto simp: rq_healthy_def)
  obtain x s1 where e: "exec [LMOVE_LEFT_RIGHT (pending_key ns) (processing_key ns)] s = (x, s1)" by force
  note u1 = up_exec [OF h(1) e]
  show ?thesis
  proof (cases "mq_pending ?v")
    case Nil
    with u1 have "x = Some [R_Nil]" "view s1 = view s" "up s1"
      by (auto simp: rq_view_lists [of _ _ dec])
    with assms h Nil show ?thesis
      by (auto simp: rq_dequeue_def e rq_healthy_def mem_dequeue_simps)
  next
    case (Cons i rest)
    with u1 have x: "x = Some [R_Bulk i]" and up1: "up s1"
      and v1: "rq_view ns dec (view s1) = ?v\<lparr>mq_pending := rest\<rparr>"
      by (auto simp: rq_view_lists [of _ _ dec] Let_def)
    from h(2) Cons obtain j where j: "mq_jobs ?v i = Some j" by (auto simp: queue_inv_def)
    from queue_invD [OF h(2) j] have id: "job_id j = i" by (simp add: job_ok_def)
    from get_job [OF up1, of i j] j v1 obtain s2 where
      s2: "rq_get exec dec ns i s1 = (Inr j, s2)" "view s2 = view s1" "up s2" by auto
    obtain y s3 where w: "exec [SET (job_key ns i) (enc (start_attempt j)) None] s2 = (y, s3)" by force
    from up_exec [OF s2(3) w] have s3: "y = Some [R_Ok]" "up s3"
      "view s3 = put (job_key ns i) (V_Str (enc (start_attempt j))) None (view s2)" by auto
    have cod: "dec (enc (start_attempt j)) = Some (start_attempt j)"
      by (rule codec) (simp add: h(3) [OF j])
    have r: "r = Inr (Some (start_attempt j))" "s' = s3"
      using assms(2) w s3(1) id by (auto simp: rq_dequeue_def e x s2 rq_write_def start_attempt_def)
    have v3: "rq_view ns dec (view s3) =
        ?v\<lparr>mq_jobs := (mq_jobs ?v)(i \<mapsto> start_attempt j), mq_pending := rest\<rparr>"
      by (simp add: s3(3) rq_view_put_job [where dec = dec and enc = enc, OF cod] s2(2) v1)
    have sim: "(r, rq_view ns dec (view s')) = mem_dequeue ?v"
      by (simp add: mem_dequeue_simps [OF h(2)] Cons j r v3 Let_def)
    then have "queue_inv (rq_view ns dec (view s'))"
      using mem_dequeue_inv [OF h(2)] by (metis snd_conv)
    moreover have "storable t" if "mq_jobs (rq_view ns dec (view s')) k = Some t" for k t
      using that h(3) [of k t] h(3) [OF j] by (auto simp: r v3 split: if_splits)
    ultimately show ?thesis using sim s3(2) by (auto simp: rq_healthy_def r)
  qed
qed

lemma settle_simulates:
  assumes h: "rq_healthy view up ns dec s" and held: "held (rq_view ns dec (view s)) j"
  shows "rq_complete exec enc dec ns j s = (rc, s') \<Longrightarrow>
      rq_healthy view up ns dec s' \<and> (rc, rq_view ns dec (view s')) = mem_complete j (rq_view ns dec (view s))"
    and "rq_fail exec enc dec ns j e b s = (rf, s') \<Longrightarrow>
      rq_healthy view up ns dec s' \<and> (rf, rq_view ns dec (view s')) = mem_fail j e b (rq_view ns dec (view s))"
proof -
  let ?v = "rq_view ns dec (view s)"
  from h have hs: "up s" "queue_inv ?v" "\<And>i j. mq_jobs ?v i = Some j \<Longrightarrow> storable j"
    by (auto simp: rq_healthy_def)
  from held_job_ok [OF hs(2) held] obtain t where
    t: "mq_jobs ?v (job_id j) = Some t" and id: "job_id t = job_id j" by (auto simp: job_ok_def)
  from get_job [OF hs(1) t] obtain s1 where
    s1: "rq_get exec dec ns (job_id j) s = (Inr t, s1)" "view s1 = view s" "up s1" by auto
  have cod: "dec (enc (t\<lparr>job_status := a, job_error := x\<rparr>)) = Some (t\<lparr>job_status := a, job_error := x\<rparr>)" for a x
    by (rule codec) (simp add: hs(3) [OF t])
  have stored: "\<forall>i u. ((mq_jobs ?v)(job_id j \<mapsto> t\<lparr>job_status := a, job_error := x\<rparr>)) i = Some u \<longrightarrow> storable u" for a x
    using hs(3) t by auto
  show "rq_healthy view up ns dec s' \<and> (rc, rq_view ns dec (view s')) = mem_complete j ?v"
    if c: "rq_complete exec enc dec ns j s = (rc, s')"
  proof -
    let ?d = "t\<lparr>job_status := SUCCEEDED, job_error := None\<rparr>"
    obtain y s2 where e: "exec [SET (job_key ns (job_id j)) (enc ?d) None,
        LREM_ONE (processing_key ns) (job_id j)] s1 = (y, s2)" by force
    from up_exec [OF s1(3) e] have y: "y \<noteq> None" "up s2"
      "rq_view ns dec (view s2) = ?v\<lparr>mq_jobs := (mq_jobs ?v)(job_id j \<mapsto> ?d)\<rparr>"
      by (auto simp: Let_def s1(2) rq_view_put_job [where dec = dec and enc = enc, OF cod])
    with c e have r: "rc = Inr ?d" "s' = s2" by (auto simp: rq_complete_def s1 id Let_def)
    then have sim: "(rc, rq_view ns dec (view s')) = mem_complete j ?v"
      by (simp add: mem_complete_def mem_get_def t Let_def y)
    then have "queue_inv (rq_view ns dec (view s'))"
      using mem_complete_inv [OF hs(2) held] by (metis snd_conv)
    with sim y stored show ?thesis by (simp add: rq_healthy_def r)
  qed
  show "rq_healthy view up ns dec s' \<and> (rf, rq_view ns dec (view s')) = mem_fail j e b ?v"
    if f: "rq_fail exec enc dec ns j e b s = (rf, s')"
  proof (cases "exhausted t \<or> \<not> b")
    case True
    let ?d = "t\<lparr>job_status := FAILED, job_error := Some e\<rparr>"
    obtain y s2 where ex: "exec [SET (job_key ns (job_id j)) (enc ?d) None,
        LREM_ONE (processing_key ns) (job_id j), RPUSH (dead_key ns) (job_id j)] s1 = (y, s2)" by force
    from up_exec [OF s1(3) ex] have y: "y \<noteq> None" "up s2"
      "rq_view ns dec (view s2) =
         ?v\<lparr>mq_jobs := (mq_jobs ?v)(job_id j \<mapsto> ?d), mq_dead := mq_dead ?v @ [job_id j]\<rparr>"
      by (auto simp: Let_def s1(2) rq_view_put_job [where dec = dec and enc = enc, OF cod] rq_view_lists [of _ _ dec])
    with f ex True have r: "rf = Inr ?d" "s' = s2" by (auto simp: rq_fail_def s1 id Let_def)
    then have sim: "(rf, rq_view ns dec (view s')) = mem_fail j e b ?v"
      using True by (simp add: mem_fail_def mem_get_def t Let_def y)
    then have "queue_inv (rq_view ns dec (view s'))"
      using mem_fail_inv [OF hs(2) held] by (metis snd_conv)
    with sim y stored show ?thesis by (simp add: rq_healthy_def r)
  next
    case False
    let ?d = "t\<lparr>job_status := PENDING, job_error := Some e\<rparr>"
    obtain y s2 where ex: "exec [SET (job_key ns (job_id j)) (enc ?d) None,
        LREM_ONE (processing_key ns) (job_id j), RPUSH (pending_key ns) (job_id j)] s1 = (y, s2)" by force
    from up_exec [OF s1(3) ex] have y: "y \<noteq> None" "up s2"
      "rq_view ns dec (view s2) =
         ?v\<lparr>mq_jobs := (mq_jobs ?v)(job_id j \<mapsto> ?d), mq_pending := mq_pending ?v @ [job_id j]\<rparr>"
      by (auto simp: Let_def s1(2) rq_view_put_job [where dec = dec and enc = enc, OF cod] rq_view_lists [of _ _ dec])
    with f ex False have r: "rf = Inr ?d" "s' = s2" by (auto simp: rq_fail_def s1 id Let_def)
    then have sim: "(rf, rq_view ns dec (view s')) = mem_fail j e b ?v"
      using False by (simp add: mem_fail_def mem_get_def t Let_def y)
    then have "queue_inv (rq_view ns dec (view s'))"
      using mem_fail_inv [OF hs(2) held] by (metis snd_conv)
    with sim y stored show ?thesis by (simp add: rq_healthy_def r)
  qed
qed

lemma enqueue_simulates:
  assumes "rq_healthy view up ns dec s" "i \<notin> dom (mq_jobs (rq_view ns dec (view s)))"
    and "\<And>pl. validate_payload frepr p = Inr pl \<Longrightarrow> \<not> has_inf (PDict pl)"
    and "rq_enqueue exec enc ns frepr i n p m s = (r, s')"
  shows "rq_healthy view up ns dec s' \<and>
    (r, rq_view ns dec (view s')) = mem_enqueue frepr i n p m (rq_view ns dec (view s))"
proof (cases "build_job frepr i n p m")
  case (Inl e)
  with assms(1,4) show ?thesis by (auto simp: rq_enqueue_def mem_enqueue_def Inl)
next
  case (Inr j)
  let ?v = "rq_view ns dec (view s)"
  note b = build_job_Inr [OF Inr]
  from assms(1) have h: "up s" "queue_inv ?v" "\<And>i j. mq_jobs ?v i = Some j \<Longrightarrow> storable j"
    by (auto simp: rq_healthy_def)
  have "storable j" using assms(3) [OF b(8)] by (simp add: storable_def)
  then have cod: "dec (enc j) = Some j" by (rule codec)
  obtain x s1 where e: "exec [SET (job_key ns i) (enc j) None, RPUSH (pending_key ns) i] s = (x, s1)" by force
  from up_exec [OF h(1) e] have x: "x \<noteq> None" "up s1"
    "rq_view ns dec (view s1) =
       ?v\<lparr>mq_jobs := (mq_jobs ?v)(i \<mapsto> j), mq_pending := mq_pending ?v @ [i]\<rparr>"
    by (auto simp: Let_def rq_view_put_job [where dec = dec and enc = enc, OF cod] rq_view_lists [of _ _ dec])
  with assms(4) e have r: "r = Inr j" "s' = s1" by (auto simp: rq_enqueue_def Inr b)
  then have sim: "(r, rq_view ns dec (view s')) = mem_enqueue frepr i n p m ?v"
    by (simp add: mem_enqueue_def Inr b x)
  then have "queue_inv (rq_view ns dec (view s'))"
    using mem_enqueue_inv [OF h(2) assms(2)] by (metis snd_conv)
  with sim x h(3) \<open>storable j\<close> show ?thesis by (auto simp: rq_healthy_def r)
qed

end

sublocale redis_jobs \<subseteq> queue: job_queue "redis_ops exec enc dec ns frepr"
  "\<lambda>s. rq_view ns dec (view s)" "rq_healthy view up ns dec"
proof unfold_locales
  show "queue_inv (rq_view ns dec (view q))" if "rq_healthy view up ns dec q" for q
    using that by (simp add: rq_healthy_def)
  show "rq_healthy view up ns dec q' \<and> (r, rq_view ns dec (view q')) = mem_dequeue (rq_view ns dec (view q))"
    if "rq_healthy view up ns dec q" "qo_dequeue (redis_ops exec enc dec ns frepr) q = (r, q')" for q r q'
    using dequeue_simulates [OF that(1)] that(2) by (simp add: redis_ops_def)
  show "rq_healthy view up ns dec q' \<and> (r, rq_view ns dec (view q')) = mem_complete j (rq_view ns dec (view q))"
    if "rq_healthy view up ns dec q" "held (rq_view ns dec (view q)) j"
      "qo_complete (redis_ops exec enc dec ns frepr) j q = (r, q')" for q j r q'
    using settle_simulates(1) [OF that(1,2)] that(3) by (simp add: redis_ops_def)
  show "rq_healthy view up ns dec q' \<and> (r, rq_view ns dec (view q')) = mem_fail j e b (rq_view ns dec (view q))"
    if "rq_healthy view up ns dec q" "held (rq_view ns dec (view q)) j"
      "qo_fail (redis_ops exec enc dec ns frepr) j e b q = (r, q')" for q j e b r q'
    using settle_simulates(2) [OF that(1,2)] that(3) by (simp add: redis_ops_def)
qed

context redis_jobs
begin

text \<open>The worker's lemmas, inherited by the durable queue.\<close>

lemma durable_drain:
  assumes "wk_queue wk = redis_ops exec enc dec ns frepr" "rq_healthy view up ns dec (ws_queue s)"
    and "quiet (rq_view ns dec (view (ws_queue s)))"
    and "int (work_left (rq_view ns dec (view (ws_queue s)))) \<le> max_jobs"
  shows "\<exists>runs s'. drain wk max_jobs s = (Inr runs, s') \<and>
    (\<forall>i j. mq_jobs (rq_view ns dec (view (ws_queue s'))) i = Some j \<longrightarrow> terminal j) \<and>
    mq_pending (rq_view ns dec (view (ws_queue s'))) = []"
  using queue.drain_settles [OF assms] by blast

end

subsection \<open>An instance\<close>

text \<open>
  A codec that keeps the law, and the reference server: every hypothesis of the two contracts
  holds together. The text is one code point that numbers the job.
\<close>

instance pyval :: countable
  by countable_datatype

instance job_status :: countable
  by countable_datatype

definition number_job :: "job \<Rightarrow> pystr" where
  "number_job j =
     [to_nat (job_id j, job_name j, job_payload j, job_status j, job_attempts j,
              job_max_attempts j, job_error j)]"

definition numbered_job :: "pystr \<Rightarrow> job option" where
  "numbered_job s =
     (case s of
        [n] \<Rightarrow>
          (case from_nat n of (i, m, p, st, a, ma, e) \<Rightarrow>
             Some \<lparr>job_id = i, job_name = m, job_payload = p, job_status = st, job_attempts = a,
                   job_max_attempts = ma, job_error = e\<rparr>)
      | _ \<Rightarrow> None)"

lemma numbered_job_number_job: "numbered_job (number_job j) = Some j"
  by (simp add: numbered_job_def number_job_def)

interpretation redis: redis_jobs direct_exec "\<lambda>db. db" "\<lambda>_. True" number_job numbered_job ns
  for ns :: pystr
  by unfold_locales (rule numbered_job_number_job)

subsection \<open>Nothing is lost\<close>

text \<open>
  The handoff under faults: any round trip may fail, before or after the server applied it.
\<close>

lemma run_cmds_lists:
  "get_list (snd (run_cmds [GET k] db)) l = get_list db l"
  "k \<noteq> l \<Longrightarrow> get_list (snd (run_cmds [SET k v None] db)) l = get_list db l"
  by simp_all

lemma lmove_keeps:
  assumes "a \<noteq> b" "db' = snd (run_cmds [LMOVE_LEFT_RIGHT a b] db)"
  shows "mset (get_list db' a) + mset (get_list db' b) = mset (get_list db a) + mset (get_list db b)"
  using assms by (auto simp: Let_def split: list.splits)

definition in_flight :: "pystr \<Rightarrow> redis_db \<Rightarrow> pystr multiset" where
  "in_flight ns db = mset (get_list db (pending_key ns)) + mset (get_list db (processing_key ns))"

context redis_server
begin

lemma exec_keeps:
  assumes "exec cs s = (x, s1)" "P (view s)" "P (snd (run_cmds cs (view s)))"
  shows "P (view s1)"
  using assms lost [of cs s s1] some_exec [of cs s _ s1] by (cases x) auto

lemma get_keeps: "rq_get exec dec ns i s = (r, s1) \<Longrightarrow> in_flight ns (view s1) = in_flight ns (view s)"
  by (rule exec_keeps [of "[GET (job_key ns i)]" s "fst (exec [GET (job_key ns i)] s)" s1])
    (auto simp: rq_get_def in_flight_def split: prod.splits option.splits)

lemma write_keeps: "rq_write exec enc ns j s = (r, s1) \<Longrightarrow> in_flight ns (view s1) = in_flight ns (view s)"
  by (rule exec_keeps [of "[SET (job_key ns (job_id j)) (enc j) None]" s
        "fst (exec [SET (job_key ns (job_id j)) (enc j) None] s)" s1])
    (auto simp: rq_write_def in_flight_def split: prod.splits option.splits)

lemma dequeue_keeps:
  assumes "rq_dequeue exec enc dec ns s = (r, s')"
  shows "in_flight ns (view s') = in_flight ns (view s)"
proof -
  obtain x s1 where e: "exec [LMOVE_LEFT_RIGHT (pending_key ns) (processing_key ns)] s = (x, s1)" by force
  have s1: "in_flight ns (view s1) = in_flight ns (view s)"
    by (rule exec_keeps [OF e]) (simp_all only: in_flight_def lmove_keeps [OF keys_distinct(1) refl])
  have "s' = s1 \<or> (\<exists>i r2. rq_get exec dec ns i s1 = (r2, s')) \<or>
      (\<exists>i j s2 r3. rq_get exec dec ns i s1 = (Inr j, s2) \<and> rq_write exec enc ns (start_attempt j) s2 = (r3, s'))"
    using assms by (auto simp: rq_dequeue_def e split: option.splits redis_reply.splits prod.splits sum.splits)
  with s1 show ?thesis by (metis get_keeps write_keeps)
qed

end

subsection \<open>Properties\<close>


text \<open>The sample queue of two attempts as a keyspace, its job running.\<close>

definition sample_running :: mem_queue where
  "sample_running = snd (mem_dequeue sample_queue)"

definition sample_job :: job where
  "sample_job = the (mq_jobs sample_running (str ''j1''))"

definition sample_db :: redis_db where
  "sample_db =
     \<lparr>rd_now = 0,
      rd_keys = [processing_key [] \<mapsto> (V_List [str ''j1''], None),
                 job_key [] (str ''j1'') \<mapsto> (V_Str (number_job sample_job), None)]\<rparr>"

lemma sample_running_eq:
  "sample_running = \<lparr>mq_pending = [], mq_jobs = [str ''j1'' \<mapsto> sample_job], mq_dead = []\<rparr>"
  by (simp add: sample_job_def sample_running_def sample_queue_def Let_def mem_enqueue_def build_job_def
      validate_job_name_def allowed_name_char_def islower_ascii_def isdigit_def str_def MAX_NAME_LENGTH_def
      validate_payload_def mem_init_def mem_dequeue_def start_attempt_def mem_fail_def mem_get_def
      exhausted_def)

lemma sample_db_view: "rq_view [] numbered_job sample_db = sample_running"
  by (simp add: sample_running_eq rq_view_def sample_db_def get_list_def get_str_def live_def
      numbered_job_number_job fun_eq_iff)

lemma sample_job_facts: "job_id sample_job = str ''j1''" "job_status sample_job = RUNNING" "job_payload sample_job = []"
  by (simp_all add: sample_job_def sample_running_def sample_queue_def Let_def mem_enqueue_def build_job_def
      validate_job_name_def allowed_name_char_def islower_ascii_def isdigit_def str_def MAX_NAME_LENGTH_def
      validate_payload_def mem_init_def mem_dequeue_def start_attempt_def mem_fail_def mem_get_def
      exhausted_def)

lemma sample_db_healthy: "rq_healthy (\<lambda>db. db) (\<lambda>_. True) [] numbered_job sample_db"
proof -
  have "queue_inv sample_running"
    unfolding sample_running_def by (rule mem_dequeue_inv [OF sample_queue_inv])
  then show ?thesis
    by (auto simp: rq_healthy_def sample_db_view storable_def sample_running_eq sample_job_facts split: if_splits)
qed


text \<open>
  C8: The durable queue never drops an id on the way to a worker. Under any failures of the
  server -- each round trip of \<open>dequeue\<close> may be lost before or after it was applied -- the ids
  in the pending list together with those in the processing list are the same before and
  after, so a job taken by a worker that dies is still there to reclaim.
\<close>

theorem redis_dequeue_loses_nothing:
  assumes "redis_server exec view up" "rq_dequeue exec enc dec ns s = (r, s')"
  shows "in_flight ns (view s') = in_flight ns (view s)"
  by (rule redis_server.dequeue_keeps [OF assms])

lemma redis_dequeue_loses_nothing_witness:
  "in_flight [] (snd (rq_dequeue direct_exec number_job numbered_job [] sample_db)) = in_flight [] sample_db"
  by (rule redis_dequeue_loses_nothing [OF direct.redis_server_axioms, where r = "fst (rq_dequeue direct_exec number_job numbered_job [] sample_db)"])
    simp

text \<open>
  Over a reachable Redis server too, a drain with a large enough budget ends with every
  stored job succeeded or failed and nothing pending, whatever the handlers do.
\<close>

theorem redis_drain_settles_every_job:
  assumes "redis_jobs exec view up enc dec" "wk_queue wk = redis_ops exec enc dec ns frepr"
    and "rq_healthy view up ns dec (ws_queue s)" "quiet (rq_view ns dec (view (ws_queue s)))"
    and "int (work_left (rq_view ns dec (view (ws_queue s)))) \<le> max_jobs"
  shows "\<exists>runs s'. drain wk max_jobs s = (Inr runs, s') \<and>
    (\<forall>i j. mq_jobs (rq_view ns dec (view (ws_queue s'))) i = Some j \<longrightarrow> terminal j) \<and>
    mq_pending (rq_view ns dec (view (ws_queue s'))) = []"
  by (rule redis_jobs.durable_drain [OF assms])

definition sample_redis_worker :: "(payload, redis_db, rat) worker" where
  "sample_redis_worker =
     \<lparr>wk_queue = redis_ops direct_exec number_job numbered_job [] (\<lambda>_. []),
      wk_registry = [(str ''create_ticket'', sample_handler)], wk_timeout = 30,
      wk_clock = (\<lambda>w. w), wk_fmt_g = (\<lambda>_. [])\<rparr>"

text \<open>The sample queue as a keyspace, its job waiting for the second attempt.\<close>

definition waiting_job :: job where
  "waiting_job = the (mq_jobs sample_queue (str ''j1''))"

definition waiting_db :: redis_db where
  "waiting_db =
     \<lparr>rd_now = 0,
      rd_keys = [pending_key [] \<mapsto> (V_List [str ''j1''], None),
                 job_key [] (str ''j1'') \<mapsto> (V_Str (number_job waiting_job), None)]\<rparr>"

lemma sample_queue_eq:
  "sample_queue = \<lparr>mq_pending = [str ''j1''], mq_jobs = [str ''j1'' \<mapsto> waiting_job], mq_dead = []\<rparr>"
  "job_payload waiting_job = []"
  by (simp_all add: waiting_job_def sample_queue_def Let_def mem_enqueue_def build_job_def
      validate_job_name_def allowed_name_char_def islower_ascii_def isdigit_def str_def MAX_NAME_LENGTH_def
      validate_payload_def mem_init_def mem_dequeue_def start_attempt_def mem_fail_def mem_get_def
      exhausted_def)

lemma waiting_db_view: "rq_view [] numbered_job waiting_db = sample_queue"
  by (simp add: sample_queue_eq rq_view_def waiting_db_def get_list_def get_str_def live_def
      numbered_job_number_job fun_eq_iff)

lemma redis_drain_settles_every_job_witness:
  "\<exists>runs s'. drain sample_redis_worker 100 \<lparr>ws_queue = waiting_db, ws_world = 0, ws_metrics = []\<rparr> = (Inr runs, s') \<and>
    mq_pending (rq_view [] numbered_job (ws_queue s')) = []"
proof -
  have "rq_healthy (\<lambda>db. db) (\<lambda>_. True) [] numbered_job waiting_db"
    by (auto simp: rq_healthy_def waiting_db_view sample_queue_inv storable_def)
      (simp add: sample_queue_eq split: if_splits)
  moreover have "wk_queue sample_redis_worker = redis_ops direct_exec number_job numbered_job [] (\<lambda>_. [])"
    by (simp add: sample_redis_worker_def)
  moreover note sample_queue_quiet sample_queue_shape
  ultimately show ?thesis
    using redis_drain_settles_every_job [OF redis.redis_jobs_axioms, where max_jobs = 100
        and wk = sample_redis_worker and s = "\<lparr>ws_queue = waiting_db, ws_world = 0, ws_metrics = []\<rparr>"]
    by (fastforce simp: waiting_db_view)
qed

text \<open>
  A job whose stored text is gone while its id still waits: \<open>dequeue\<close> raises
  \<open>JobNotFoundError\<close>, and the error leaves \<open>run_once\<close>, although the queue is reachable. The
  in-memory queue skips such an id.
\<close>

definition orphan_db :: redis_db where
  "orphan_db = \<lparr>rd_now = 0, rd_keys = [pending_key [] \<mapsto> (V_List [str ''j1''], None)]\<rparr>"

lemma redis_missing_job_escapes:
  "fst (run_once sample_redis_worker \<lparr>ws_queue = orphan_db, ws_world = 0, ws_metrics = []\<rparr>) =
     job_not_found (str ''j1'')"
  by (simp add: run_once_def sample_redis_worker_def redis_ops_def rq_dequeue_def rq_get_def rq_parse_def
      direct_exec_def orphan_db_def get_list_def get_str_def live_def put_list_def put_def Let_def
      job_not_found_def raise_app_def)

end
