(* ===== verification/RateLimit.thy ===== *)
theory RateLimit
  imports Redis
begin

text \<open>
  \<open>ratelimit/base.py\<close>, \<open>ratelimit/limiters.py\<close>, \<open>ratelimit/redis_limiter.py\<close> and the
  enforcement of \<open>api/v1/limits.py\<close>. A check is a function of the key, the time the clock
  reads and the counters. The locale \<open>fixed_window\<close> is what a counting limiter promises; the
  admission bound is proved in it once, for the in-memory counters and for the Redis ones.
\<close>

record rate_decision =
  rl_allowed :: bool
  rl_remaining :: int
  rl_retry_after :: int

definition allow_all :: rate_decision where
  "allow_all = \<lparr>rl_allowed = True, rl_remaining = 0, rl_retry_after = 0\<rparr>"

definition null_check :: "pystr \<Rightarrow> rate_decision" where
  "null_check key = allow_all"

subsection \<open>Configuration\<close>

record limiter =
  li_limit :: int
  li_window :: int

definition validate_limits :: "int \<Rightarrow> int \<Rightarrow> limiter result" where
  "validate_limits limit window =
     (if limit < 1 then
        raise_app RateLimitConfigurationError
          (Some (str ''A rate limit must allow at least one request.'')) (Some [(str ''limit'', PInt limit)])
      else if window < 1 then
        raise_app RateLimitConfigurationError
          (Some (str ''A rate limit window must be at least one second.''))
          (Some [(str ''window_seconds'', PInt window)])
      else Inr \<lparr>li_limit = limit, li_window = window\<rparr>)"

definition window_of :: "limiter \<Rightarrow> rat \<Rightarrow> int" where
  "window_of l now = \<lfloor>now / of_int (li_window l)\<rfloor>"

text \<open>\<open>now % window\<close>\<close>

definition elapsed :: "limiter \<Rightarrow> rat \<Rightarrow> rat" where
  "elapsed l now = now - of_int (li_window l) * of_int (window_of l now)"

definition refused :: "limiter \<Rightarrow> rat \<Rightarrow> rate_decision" where
  "refused l now =
     \<lparr>rl_allowed = False, rl_remaining = 0,
      rl_retry_after = max 1 \<lceil>of_int (li_window l) - elapsed l now\<rceil>\<rparr>"

definition decide_count :: "int \<Rightarrow> limiter \<Rightarrow> rat \<Rightarrow> rate_decision" where
  "decide_count used l now =
     (if li_limit l < used then refused l now
      else \<lparr>rl_allowed = True, rl_remaining = li_limit l - used, rl_retry_after = 0\<rparr>)"

subsection \<open>In memory\<close>

type_synonym counts = "((pystr \<times> int) \<times> int) list"

definition prune :: "int \<Rightarrow> counts \<Rightarrow> counts" where
  "prune current cs = filter (\<lambda>(k, _). \<not> snd k < current) cs"

definition memory_check :: "limiter \<Rightarrow> pystr \<Rightarrow> rat \<Rightarrow> counts \<Rightarrow> rate_decision \<times> counts" where
  "memory_check l key now cs =
     (let window = window_of l now;
          cs1 = prune window cs;
          used = (case map_of cs1 (key, window) of None \<Rightarrow> 0 | Some n \<Rightarrow> n) + 1;
          cs2 = AList.update (key, window) used cs1
      in (decide_count used l now, cs2))"

subsection \<open>In Redis\<close>

definition counter_key :: "pystr \<Rightarrow> pystr \<Rightarrow> int \<Rightarrow> pystr" where
  "counter_key ns key window = ns @ str '':'' @ key @ str '':'' @ show_int window"

text \<open>\<open>_window_now\<close>: the server's clock, or the local one when it cannot be asked.\<close>

definition redis_now :: "'s redis_exec \<Rightarrow> rat \<Rightarrow> 's \<Rightarrow> rat \<times> 's" where
  "redis_now exec local s =
     (case exec [TIME] s of
        (Some (R_Time t # _), s1) \<Rightarrow> (t, s1)
      | (_, s1) \<Rightarrow> (local, s1))"

definition redis_check ::
  "'s redis_exec \<Rightarrow> pystr \<Rightarrow> limiter \<Rightarrow> rat \<Rightarrow> pystr \<Rightarrow> 's \<Rightarrow> rate_decision \<times> 's" where
  "redis_check exec ns l local key s =
     (let (now, s1) = redis_now exec local s;
          counter = counter_key ns key (window_of l now)
      in case exec [INCR counter, EXPIRE_NX counter (of_int (li_window l))] s1 of
           (Some (R_Int used # _), s2) \<Rightarrow>
             (if li_limit l < used then
                (\<lparr>rl_allowed = False, rl_remaining = 0,
                  rl_retry_after = max 1 \<lceil>of_int (li_window l) - elapsed l now\<rceil>\<rparr>, s2)
              else (\<lparr>rl_allowed = True, rl_remaining = li_limit l - used, rl_retry_after = 0\<rparr>, s2))
         | (_, s2) \<Rightarrow> (allow_all, s2))"

subsection \<open>Enforcement\<close>

text \<open>\<open>enforce_rate_limit\<close> on the subject of an identity, given any limiter's check.\<close>

definition enforce_rate_limit ::
  "(pystr \<Rightarrow> 's \<Rightarrow> rate_decision \<times> 's) \<Rightarrow> pystr \<Rightarrow> 's \<Rightarrow> pystr result \<times> 's" where
  "enforce_rate_limit check subject s =
     (case check subject s of
        (d, s1) \<Rightarrow>
          if \<not> rl_allowed d then (Inl (App (rate_limit_exceeded (rl_retry_after d))), s1)
          else (Inr subject, s1))"

subsection \<open>Windows\<close>

definition valid_limits :: "limiter \<Rightarrow> bool" where
  "valid_limits l \<longleftrightarrow> 1 \<le> li_limit l \<and> 1 \<le> li_window l"

lemma validate_limits_Inr: "validate_limits n w = Inr l \<Longrightarrow> valid_limits l \<and> li_limit l = n \<and> li_window l = w"
  by (auto simp: validate_limits_def valid_limits_def raise_app_def split: if_splits)

lemma window_of_mono: "valid_limits l \<Longrightarrow> s \<le> t \<Longrightarrow> window_of l s \<le> window_of l t"
  by (simp add: window_of_def valid_limits_def floor_mono divide_right_mono)

lemma window_bounds:
  assumes "valid_limits l"
  shows "of_int (window_of l t) * of_int (li_window l) \<le> t"
    and "t < of_int (window_of l t + 1) * of_int (li_window l)"
proof -
  have w: "(0 :: rat) < of_int (li_window l)" using assms by (simp add: valid_limits_def)
  have "of_int (window_of l t) \<le> t / of_int (li_window l)" "t / of_int (li_window l) < of_int (window_of l t) + 1"
    unfolding window_of_def by linarith+
  with w show "of_int (window_of l t) * of_int (li_window l) \<le> t"
    "t < of_int (window_of l t + 1) * of_int (li_window l)"
    by (simp_all add: field_simps)
qed

lemma elapsed_bounds:
  assumes "valid_limits l"
  shows "0 \<le> elapsed l t" "elapsed l t < of_int (li_window l)"
  using window_bounds [OF assms, of t] by (simp_all add: elapsed_def algebra_simps)

lemma refused_retry:
  assumes "valid_limits l"
  shows "1 \<le> rl_retry_after (refused l t)" "rl_retry_after (refused l t) \<le> li_window l"
    "window_of l (t + of_int (rl_retry_after (refused l t))) = window_of l t + 1"
proof -
  note e = elapsed_bounds [OF assms, of t]
  have n: "rl_retry_after (refused l t) = \<lceil>of_int (li_window l) - elapsed l t\<rceil>"
    using e by (simp add: refused_def max_def)
  show "1 \<le> rl_retry_after (refused l t)" by (simp add: refused_def)
  show le: "rl_retry_after (refused l t) \<le> li_window l"
    unfolding n using e(1) by (simp add: ceiling_le_iff)
  let ?n = "rl_retry_after (refused l t)" and ?w = "of_int (li_window l) :: rat"
  have w: "0 < ?w" using assms by (simp add: valid_limits_def)
  have lo: "?w - elapsed l t \<le> of_int ?n" unfolding n by linarith
  have hi: "of_int ?n \<le> ?w" using le by simp
  have t: "t = ?w * of_int (window_of l t) + elapsed l t" by (simp add: elapsed_def)
  show "window_of l (t + of_int ?n) = window_of l t + 1"
  proof (subst window_of_def, rule floor_unique)
    show "of_int (window_of l t + 1) \<le> (t + of_int ?n) / ?w"
      using w lo t by (simp add: pos_le_divide_eq) (simp add: algebra_simps)
    show "(t + of_int ?n) / ?w < of_int (window_of l t + 1) + 1"
      using w hi e(2) t by (simp add: pos_divide_less_eq) (simp add: algebra_simps)
  qed
qed

subsection \<open>The contract of a counting limiter\<close>

text \<open>
  A sequence of checks: the decisions, in order. Requests are pairs of a key and the time at
  which the clock is read.
\<close>

fun run_checks ::
  "(pystr \<Rightarrow> rat \<Rightarrow> 's \<Rightarrow> rate_decision \<times> 's) \<Rightarrow> (pystr \<times> rat) list \<Rightarrow> 's
     \<Rightarrow> (pystr \<times> rat \<times> bool) list" where
  "run_checks check [] s = []"
| "run_checks check ((k, t) # rs) s =
     (let (d, s1) = check k t s in (k, t, rl_allowed d) # run_checks check rs s1)"

definition admitted :: "limiter \<Rightarrow> pystr \<Rightarrow> int \<Rightarrow> (pystr \<times> rat \<times> bool) list \<Rightarrow> nat" where
  "admitted l key w entries = length (filter (\<lambda>(k, t, a). a \<and> k = key \<and> window_of l t = w) entries)"

definition requested :: "limiter \<Rightarrow> pystr \<Rightarrow> int \<Rightarrow> (pystr \<times> rat) list \<Rightarrow> nat" where
  "requested l key w rs = length (filter (\<lambda>(k, t). k = key \<and> window_of l t = w) rs)"

locale fixed_window =
  fixes l :: limiter
    and check :: "pystr \<Rightarrow> rat \<Rightarrow> 's \<Rightarrow> rate_decision \<times> 's"
    and used :: "'s \<Rightarrow> pystr \<Rightarrow> int \<Rightarrow> int"
    and ok :: "'s \<Rightarrow> rat \<Rightarrow> bool"
  assumes limits: "valid_limits l"
    and ok_later: "ok s t \<Longrightarrow> t \<le> t' \<Longrightarrow> ok s t'"
    and ok_check: "ok s t \<Longrightarrow> check k t s = (d, s') \<Longrightarrow> ok s' t"
    and used_nonneg: "ok s t \<Longrightarrow> 0 \<le> used s k w"
    and allowed_iff:
      "ok s t \<Longrightarrow> check k t s = (d, s') \<Longrightarrow> rl_allowed d \<longleftrightarrow> used s k (window_of l t) < li_limit l"
    and counted:
      "ok s t \<Longrightarrow> check k t s = (d, s') \<Longrightarrow> window_of l t \<le> w \<Longrightarrow>
       used s' k' w = used s k' w + (if k' = k \<and> w = window_of l t then 1 else 0)"
begin

lemma admits_exactly:
  assumes "ok s t0" "sorted (map snd rs)" "\<forall>t \<in> set (map snd rs). t0 \<le> t" "window_of l t0 \<le> w"
  shows "admitted l key w (run_checks check rs s) =
    min (requested l key w rs) (nat (li_limit l - used s key w))"
  using assms
proof (induction rs arbitrary: s t0)
  case Nil
  then show ?case by (simp add: admitted_def requested_def)
next
  case (Cons r rs)
  obtain k t where r: "r = (k, t)" by force
  obtain d s1 where c: "check k t s = (d, s1)" by force
  from Cons.prems r have t: "t0 \<le> t" "sorted (map snd rs)" "\<forall>u \<in> set (map snd rs). t \<le> u" by auto
  have ok: "ok s t" using Cons.prems(1) t(1) by (rule ok_later)
  note ok1 = ok_check [OF ok c]
  show ?case
  proof (cases "window_of l t \<le> w")
    case True
    note IH = Cons.IH [OF ok1 t(2,3) True]
    from allowed_iff [OF ok c] counted [OF ok c True, of key] used_nonneg [OF ok, of key w]
    show ?thesis
      using IH by (auto simp: r c admitted_def requested_def)
  next
    case False
    have later: "window_of l u \<noteq> w" if "u \<in> set (map snd ((k, t) # rs))" for u
      using window_of_mono [OF limits, of t u] that t(3) False by auto
    have "\<forall>x \<in> set ((k, t) # rs). window_of l (snd x) \<noteq> w"
      using later by simp
    then have "requested l key w ((k, t) # rs) = 0"
      by (auto simp: requested_def filter_empty_conv)
    moreover have "map (\<lambda>(k, t, a). t) (run_checks check qs s) = map snd qs" for qs s
      by (induction qs arbitrary: s) (auto simp: Let_def split: prod.splits)
    then have "\<forall>x \<in> set (run_checks check ((k, t) # rs) s). window_of l (fst (snd x)) \<noteq> w"
      using later by (metis (no_types, lifting) case_prod_beta image_eqI list.set_map)
    then have "admitted l key w (run_checks check ((k, t) # rs) s) = 0"
      by (fastforce simp: admitted_def filter_empty_conv simp del: run_checks.simps)
    ultimately show ?thesis by (simp add: r)
  qed
qed

text \<open>A caller never gets more than the limit in one window, and gets everything below it.\<close>

lemma never_over_limit:
  assumes "ok s t0" "sorted (map snd rs)" "\<forall>t \<in> set (map snd rs). t0 \<le> t" "window_of l t0 \<le> w"
  shows "int (admitted l key w (run_checks check rs s)) \<le> li_limit l"
  using admits_exactly [OF assms, of key] used_nonneg [OF assms(1), of key w] limits
  by (auto simp: valid_limits_def)

end

subsection \<open>The in-memory limiter keeps the contract\<close>

definition memory_used :: "counts \<Rightarrow> pystr \<Rightarrow> int \<Rightarrow> int" where
  "memory_used cs k w = (case map_of cs (k, w) of None \<Rightarrow> 0 | Some n \<Rightarrow> n)"

definition memory_ok :: "counts \<Rightarrow> rat \<Rightarrow> bool" where
  "memory_ok cs t \<longleftrightarrow> (\<forall>x \<in> set cs. 0 \<le> snd x)"

lemma map_of_filter_keys:
  "map_of (filter (\<lambda>(k, _). P k) d) x = (if P x then map_of d x else None)"
  by (induction d) auto

lemma set_update_snd: "snd ` set (AList.update k v d) \<subseteq> insert v (snd ` set d)"
  by (induction d) auto

locale memory_limiter =
  fixes l :: limiter
  assumes configured: "valid_limits l"

sublocale memory_limiter \<subseteq> memory: fixed_window l "memory_check l" memory_used memory_ok
proof unfold_locales
  show "memory_ok s' t" if "memory_ok s t" "memory_check l k t s = (d, s')" for s t k d s'
  proof -
    let ?cs = "prune (window_of l t) s"
    have "0 \<le> n" if "map_of ?cs x = Some n" for x n
      using that \<open>memory_ok s t\<close> by (fastforce simp: memory_ok_def prune_def dest!: map_of_SomeD)
    then have used: "0 \<le> (case map_of ?cs (k, window_of l t) of None \<Rightarrow> 0 | Some n \<Rightarrow> n) + 1"
      by (auto split: option.split)
    have "\<forall>x \<in> set ?cs. 0 \<le> snd x" using that(1) by (simp add: memory_ok_def prune_def)
    with used that(2) set_update_snd show ?thesis
      by (fastforce simp: memory_ok_def memory_check_def Let_def)
  qed
  show "0 \<le> memory_used s k w" if "memory_ok s t" for s t k w
    using that by (auto simp: memory_used_def memory_ok_def dest!: map_of_SomeD split: option.splits)
  show "rl_allowed d \<longleftrightarrow> memory_used s k (window_of l t) < li_limit l"
    if "memory_check l k t s = (d, s')" for s t k d s'
    using that by (auto simp: memory_check_def memory_used_def decide_count_def refused_def prune_def Let_def
        map_of_filter_keys split: option.splits if_splits)
  show "memory_used s' k' w = memory_used s k' w + (if k' = k \<and> w = window_of l t then 1 else 0)"
    if "memory_check l k t s = (d, s')" "window_of l t \<le> w" for s t k d s' k' w
    using that by (auto simp: memory_check_def memory_used_def prune_def Let_def update_conv'
        map_of_filter_keys split: option.splits)
qed (auto simp: configured memory_ok_def)

context memory_limiter
begin

lemma memory_contract: "fixed_window l (memory_check l) memory_used memory_ok"
  by (rule memory.fixed_window_axioms)

end

subsection \<open>The Redis limiter keeps the contract\<close>

lemma show_nat_inj: "show_nat m = show_nat n \<Longrightarrow> m = n"
proof (induction m arbitrary: n rule: less_induct)
  case (less m)
  note unfold = show_nat.simps [of m] show_nat.simps [of n]
  show ?case
  proof (cases "m < 10 \<or> n < 10")
    case True
    then show ?thesis using less.prems unfold by (auto split: if_splits dest: arg_cong [where f = length])
  next
    case False
    then have "show_nat (m div 10) = show_nat (n div 10)" "m mod 10 = n mod 10"
      using less.prems unfold by auto
    with less.IH [of "m div 10" "n div 10"] False have "m div 10 = n div 10" by simp
    with \<open>m mod 10 = n mod 10\<close> show ?thesis by (metis div_mult_mod_eq)
  qed
qed

lemma show_int_inj: "show_int m = show_int n \<longleftrightarrow> m = n"
proof
  have minus: "show_nat a \<noteq> 45 # x" for a x
    using show_nat_digits [of 45 a] by auto
  assume "show_int m = show_int n"
  then show "m = n"
    using minus [of "nat m"] minus [of "nat n"]
    by (auto simp: show_int_def eq_nat_nat_iff dest!: show_nat_inj split: if_splits) (metis minus)+
qed simp

lemma colon_notin_show_int: "58 \<notin> set (show_int n)"
  using show_nat_digits [of 58] by (auto simp: show_int_def)

text \<open>Two counters are the same only for the same key and window, colons in the key or not.\<close>

lemma counter_key_inj: "counter_key ns k w = counter_key ns k' w' \<longleftrightarrow> k = k' \<and> w = w'"
proof
  assume "counter_key ns k w = counter_key ns k' w'"
  then have eq: "k @ 58 # show_int w = k' @ 58 # show_int w'"
    by (simp add: counter_key_def str_def)
  from arg_cong [OF this, where f = "split_on 58"]
  have "split_on 58 k = split_on 58 k' \<and> show_int w = show_int w'"
    by (simp add: split_on_sep colon_notin_show_int)
  then show "k = k' \<and> w = w'" using eq by (simp add: show_int_inj)
qed simp

definition redis_used :: "('s \<Rightarrow> redis_db) \<Rightarrow> pystr \<Rightarrow> 's \<Rightarrow> pystr \<Rightarrow> int \<Rightarrow> int" where
  "redis_used view ns s k w =
     (case rd_keys (view s) (counter_key ns k w) of Some (V_Count n, _) \<Rightarrow> n | _ \<Rightarrow> 0)"

text \<open>
  The counters in a keyspace: each has an expiry no earlier than the end of its window, so it
  cannot vanish, and restart from zero, while the window lasts.
\<close>

definition counter_ok :: "limiter \<Rightarrow> int \<Rightarrow> redis_value \<times> rat option \<Rightarrow> bool" where
  "counter_ok l w v =
     (case v of
        (V_Count n, Some x) \<Rightarrow> 0 \<le> n \<and> of_int (w + 1) * of_int (li_window l) \<le> x
      | _ \<Rightarrow> False)"

definition counters_ok :: "limiter \<Rightarrow> pystr \<Rightarrow> redis_db \<Rightarrow> bool" where
  "counters_ok l ns db \<longleftrightarrow>
     (\<forall>k w v. rd_keys db (counter_key ns k w) = Some v \<longrightarrow> counter_ok l w v)"

lemma counter_okE:
  assumes "counter_ok l w v"
  obtains n x where "v = (V_Count n, Some x)" "0 \<le> n" "of_int (w + 1) * of_int (li_window l) \<le> x"
  using assms unfolding counter_ok_def by (auto split: prod.splits redis_value.splits option.splits)

definition redis_ok :: "('s \<Rightarrow> redis_db) \<Rightarrow> ('s \<Rightarrow> bool) \<Rightarrow> limiter \<Rightarrow> pystr \<Rightarrow> 's \<Rightarrow> rat \<Rightarrow> bool" where
  "redis_ok view up l ns s t \<longleftrightarrow> up s \<and> counters_ok l ns (view s)"

lemma counters_ok_put:
  assumes "counters_ok l ns db" "counter_ok l w v"
  shows "counters_ok l ns (db\<lparr>rd_now := t, rd_keys := (rd_keys db)(counter_key ns k w \<mapsto> v)\<rparr>)"
  using assms unfolding counters_ok_def by (simp add: counter_key_inj del: split_paired_All)

text \<open>\<open>tick t\<close> is the passing of time on the server up to \<open>t\<close>.\<close>

locale redis_limiter = redis_server exec view up
  for exec :: "'s redis_exec" and view :: "'s \<Rightarrow> redis_db" and up :: "'s \<Rightarrow> bool" +
  fixes tick :: "rat \<Rightarrow> 's \<Rightarrow> 's"
    and l :: limiter
    and ns :: pystr
  assumes tick_view: "view (tick t s) = (view s)\<lparr>rd_now := t\<rparr>"
    and tick_up: "up s \<Longrightarrow> up (tick t s)"
    and configured: "valid_limits l"
begin

lemma counter_cases:
  assumes "counters_ok l ns db"
  shows "rd_keys db (counter_key ns k w) = None \<or>
    (\<exists>n x. rd_keys db (counter_key ns k w) = Some (V_Count n, Some x) \<and> 0 \<le> n \<and>
       of_int (w + 1) * of_int (li_window l) \<le> x)"
proof (cases "rd_keys db (counter_key ns k w)")
  case (Some v)
  with assms have "counter_ok l w v" unfolding counters_ok_def by blast
  with Some show ?thesis by (auto elim: counter_okE)
qed simp

lemma count_pipeline:
  fixes k :: pystr
  assumes "counters_ok l ns db"
  defines "w \<equiv> window_of l (rd_now db)"
    and "c \<equiv> counter_key ns k (window_of l (rd_now db))"
    and "n \<equiv> (case rd_keys db (counter_key ns k (window_of l (rd_now db))) of Some (V_Count n, _) \<Rightarrow> n | _ \<Rightarrow> 0)"
  shows "\<exists>x r. run_cmds [INCR c, EXPIRE_NX c (of_int (li_window l))] db =
      ([R_Int (n + 1), r], db\<lparr>rd_keys := (rd_keys db)(c \<mapsto> (V_Count (n + 1), Some x))\<rparr>) \<and>
      of_int (w + 1) * of_int (li_window l) \<le> x \<and> 0 \<le> n"
proof (cases "rd_keys db c")
  case None
  have "of_int (w + 1) * of_int (li_window l) \<le> rd_now db + of_int (li_window l)"
    using window_bounds(1) [OF configured, of "rd_now db"] by (simp add: w_def algebra_simps)
  with None show ?thesis
    by (intro exI [of _ "rd_now db + of_int (li_window l)"]) (simp add: n_def c_def [symmetric] live_def put_def)
next
  case (Some v)
  with counter_cases [OF assms(1), of k w] obtain m x where
    c: "rd_keys db c = Some (V_Count m, Some x)" "0 \<le> m" "of_int (w + 1) * of_int (li_window l) \<le> x"
    by (auto simp: c_def w_def)
  have "rd_now db < x"
    using window_bounds(2) [OF configured, of "rd_now db"] c(3) by (simp add: w_def)
  with c show ?thesis by (intro exI [of _ x]) (simp add: n_def c_def [symmetric] live_def put_def)
qed

lemma check_effect:
  assumes "up s" "counters_ok l ns (view s)" "redis_check exec ns l local k (tick t s) = (d, s')"
  defines "w \<equiv> window_of l t" and "n \<equiv> redis_used view ns s k (window_of l t)"
  shows "up s' \<and> d = decide_count (n + 1) l t \<and> 0 \<le> n \<and>
    (\<exists>x. view s' = (view s)\<lparr>rd_now := t, rd_keys := (rd_keys (view s))(counter_key ns k w \<mapsto> (V_Count (n + 1), Some x))\<rparr> \<and>
       of_int (w + 1) * of_int (li_window l) \<le> x)"
proof -
  let ?c = "counter_key ns k w" and ?db = "(view s)\<lparr>rd_now := t\<rparr>"
  obtain r1 s1 where e1: "exec [TIME] (tick t s) = (r1, s1)" by force
  from up_exec [OF tick_up [OF assms(1)] e1] have s1: "r1 = Some [R_Time t]" "view s1 = ?db" "up s1"
    by (auto simp: tick_view)
  obtain r2 s2 where e2: "exec [INCR ?c, EXPIRE_NX ?c (of_int (li_window l))] s1 = (r2, s2)" by force
  have "counters_ok l ns ?db" using assms(2) by (simp add: counters_ok_def)
  from count_pipeline [OF this, of k] obtain x r where
    p: "run_cmds [INCR ?c, EXPIRE_NX ?c (of_int (li_window l))] ?db =
      ([R_Int (n + 1), r], ?db\<lparr>rd_keys := (rd_keys ?db)(?c \<mapsto> (V_Count (n + 1), Some x))\<rparr>)"
    "of_int (w + 1) * of_int (li_window l) \<le> x" "0 \<le> n"
    by (auto simp: w_def n_def redis_used_def)
  from up_exec [OF s1(3) e2, unfolded s1(2) p(1)] have s2: "r2 = Some [R_Int (n + 1), r]" "up s2"
    "view s2 = ?db\<lparr>rd_keys := (rd_keys ?db)(?c \<mapsto> (V_Count (n + 1), Some x))\<rparr>"
    by auto
  have "s' = s2" "d = decide_count (n + 1) l t"
    using assms(3) e2 s2(1)
    by (auto simp: redis_check_def redis_now_def e1 s1(1) w_def decide_count_def refused_def split: if_splits)
  with s2 p show ?thesis by auto
qed

end

sublocale redis_limiter \<subseteq> counted: fixed_window l "\<lambda>k t s. redis_check exec ns l local k (tick t s)"
  "redis_used view ns" "redis_ok view up l ns"
proof unfold_locales
  show "redis_ok view up l ns s' t"
    if ok: "redis_ok view up l ns s t" and c: "redis_check exec ns l local k (tick t s) = (d, s')" for s t k d s'
  proof -
    from ok have "up s" "counters_ok l ns (view s)" by (auto simp: redis_ok_def)
    with check_effect [OF this c] show ?thesis
      by (auto simp: redis_ok_def counter_ok_def intro!: counters_ok_put)
  qed
  show "0 \<le> redis_used view ns s k w" if "redis_ok view up l ns s t" for s t k w
    using that counter_cases [of "view s" k w] by (auto simp: redis_ok_def redis_used_def)
  show "rl_allowed d \<longleftrightarrow> redis_used view ns s k (window_of l t) < li_limit l"
    if "redis_ok view up l ns s t" "redis_check exec ns l local k (tick t s) = (d, s')" for s t k d s'
    using check_effect [OF _ _ that(2)] that(1) by (auto simp: redis_ok_def decide_count_def refused_def)
  show "redis_used view ns s' k' w = redis_used view ns s k' w + (if k' = k \<and> w = window_of l t then 1 else 0)"
    if "redis_ok view up l ns s t" "redis_check exec ns l local k (tick t s) = (d, s')"
      "window_of l t \<le> w" for s t k d s' k' w
    using check_effect [OF _ _ that(2)] that(1) by (auto simp: redis_ok_def redis_used_def counter_key_inj)
qed (auto simp: configured redis_ok_def)

context redis_limiter
begin

lemma redis_contract:
  "fixed_window l (\<lambda>k t s. redis_check exec ns l local k (tick t s)) (redis_used view ns) (redis_ok view up l ns)"
  by (rule counted.fixed_window_axioms)

end

subsection \<open>Instances\<close>

text \<open>The defaults of \<open>Settings\<close>: sixty requests a minute.\<close>

definition default_limits :: limiter where
  "default_limits = \<lparr>li_limit = 60, li_window = 60\<rparr>"

lemma default_limits_valid: "valid_limits default_limits"
  by (simp add: valid_limits_def default_limits_def)

interpretation default_memory: memory_limiter default_limits
  by unfold_locales (rule default_limits_valid)

interpretation default_redis: redis_limiter direct_exec "\<lambda>db. db" "\<lambda>_. True"
  "\<lambda>t db. db\<lparr>rd_now := t\<rparr>" default_limits ns
  for ns :: pystr
  by unfold_locales (auto simp: default_limits_valid)

subsection \<open>Properties\<close>

text \<open>
  C9: The in-memory limiter admits exactly its limit. For any sequence of requests from any
  callers at times that do not go back, the number admitted for one caller in one window is
  the smaller of the number that caller made in it and the limit: never over, and nobody is
  refused early or because of someone else.
\<close>

theorem memory_limiter_admits_exactly:
  assumes "valid_limits l" "sorted (map snd rs)"
  shows "admitted l key w (run_checks (memory_check l) rs []) = min (requested l key w rs) (nat (li_limit l))"
proof (cases rs)
  case Nil
  then show ?thesis by (simp add: admitted_def requested_def)
next
  case (Cons r rest)
  define t0 where "t0 = min (of_int w * of_int (li_window l)) (snd r)"
  have "window_of l t0 \<le> window_of l (of_int w * of_int (li_window l))"
    by (rule window_of_mono [OF assms(1)]) (simp add: t0_def)
  also have "\<dots> = w" using assms(1) by (simp add: window_of_def valid_limits_def)
  finally have w: "window_of l t0 \<le> w" .
  have t: "\<forall>t \<in> set (map snd rs). t0 \<le> t"
    using assms(2) by (auto simp: Cons t0_def min_le_iff_disj)
  have fresh: "memory_ok [] t0" by (simp add: memory_ok_def)
  show ?thesis
    using fixed_window.admits_exactly [OF memory_limiter.memory_contract [OF memory_limiter.intro [OF assms(1)]]
        fresh assms(2) t w, of key]
    by (simp add: memory_used_def)
qed

text \<open>Sixty-one requests of one caller in one second, and one of another.\<close>

definition sample_burst :: "(pystr \<times> rat) list" where
  "sample_burst = replicate 61 (str ''alice'', 1) @ [(str ''bob'', 1)]"

lemma sample_burst_requested: "requested default_limits (str ''alice'') 0 sample_burst = 61"
proof -
  have "\<lfloor>1 / 60 :: rat\<rfloor> = 0" by (simp add: floor_eq_iff)
  then show ?thesis
    by (simp add: requested_def sample_burst_def window_of_def default_limits_def filter_replicate)
qed

lemma memory_limiter_admits_exactly_witness:
  "admitted default_limits (str ''alice'') 0 (run_checks (memory_check default_limits) sample_burst []) = 60"
proof -
  have "sorted (map snd sample_burst)" by (simp add: sample_burst_def sorted_append)
  moreover note sample_burst_requested
  moreover have "nat (li_limit default_limits) = 60" by (simp add: default_limits_def)
  ultimately show ?thesis
    using memory_limiter_admits_exactly [OF default_limits_valid, of sample_burst] by simp
qed



text \<open>
  Losing Redis never refuses traffic. When no round trip succeeds, every request of every
  caller is let through, whatever the local clock says.
\<close>

theorem redis_limiter_fails_open:
  assumes "\<And>cs s. fst (exec cs s) = None"
  shows "fst (enforce_rate_limit (redis_check exec ns l local) subject s) = Inr subject"
proof -
  have none: "\<exists>s1. exec cs s = (None, s1)" for cs s
    using assms [of cs s] by (metis prod.collapse)
  obtain s1 where s1: "exec [TIME] s = (None, s1)" using none by blast
  let ?c = "counter_key ns subject (window_of l local)"
  obtain s2 where "exec [INCR ?c, EXPIRE_NX ?c (of_int (li_window l))] s1 = (None, s2)" using none by blast
  with s1 show ?thesis
    by (simp add: enforce_rate_limit_def redis_check_def redis_now_def allow_all_def)
qed

lemma redis_limiter_fails_open_witness:
  "fst (enforce_rate_limit (redis_check (\<lambda>_ s. (None, s)) [] default_limits 7) (str ''alice'') ()) = Inr (str ''alice'')"
  by (rule redis_limiter_fails_open) simp

text \<open>
  A refusal is a 429 whose \<open>Retry-After\<close> is a whole number of seconds between one and the
  window length, and waiting exactly that long lands in the very next window.
\<close>

theorem refusal_tells_when_to_retry:
  assumes "valid_limits l"
    and "enforce_rate_limit (\<lambda>k. memory_check l k now) subject cs = (Inl e, cs')"
  shows "\<exists>err n. e = App err \<and> ae_status err = 429 \<and>
    ae_headers err = Inr (Some [(str ''Retry-After'', show_int n)]) \<and> 1 \<le> n \<and> n \<le> li_window l \<and>
    window_of l (now + of_int n) = window_of l now + 1"
proof -
  obtain d cs1 where c: "memory_check l subject now cs = (d, cs1)" by force
  with assms(2) have e: "\<not> rl_allowed d" "e = App (rate_limit_exceeded (rl_retry_after d))"
    by (auto simp: enforce_rate_limit_def split: if_splits)
  from c e(1) have d: "d = refused l now"
    by (auto simp: memory_check_def Let_def decide_count_def split: if_splits)
  note r = refused_retry [OF assms(1), of now]
  have "ae_status (rate_limit_exceeded n) = 429" for n
    by (simp add: ae_status_def rate_limit_exceeded_def Let_def new_error_def RateLimitExceededError_def)
  moreover have "ae_headers (rate_limit_exceeded n) = Inr (Some [(str ''Retry-After'', show_int n)])" if "1 \<le> n" for n
    using that by (simp add: ae_headers_def retry_header_def LLMRateLimitError_def LLMError_def rate_limit_exceeded_def Let_def new_error_def issubclass_def
        RateLimitExceededError_def)
  ultimately show ?thesis using r by (intro exI conjI) (auto simp: e(2) d)
qed

lemma refusal_tells_when_to_retry_witness:
  "\<exists>err n. fst (enforce_rate_limit (\<lambda>k. memory_check \<lparr>li_limit = 1, li_window = 60\<rparr> k 90)
       (str ''alice'') [((str ''alice'', 1), 1)]) = Inl (App err) \<and>
     ae_headers err = Inr (Some [(str ''Retry-After'', show_int n)]) \<and> n \<le> 60"
proof -
  let ?l = "\<lparr>li_limit = 1, li_window = 60\<rparr>" and ?cs = "[((str ''alice'', 1), 1)]"
  have "valid_limits ?l" by (simp add: valid_limits_def)
  moreover obtain r cs' where run:
    "enforce_rate_limit (\<lambda>k. memory_check ?l k 90) (str ''alice'') ?cs = (r, cs')" by force
  moreover have "\<lfloor>90 / 60 :: rat\<rfloor> = 1" by (rule floor_unique) simp_all
  with run have "\<exists>e. r = Inl e"
    by (auto simp: enforce_rate_limit_def memory_check_def window_of_def prune_def Let_def decide_count_def refused_def)
  then obtain e where "r = Inl e" by blast
  ultimately have "enforce_rate_limit (\<lambda>k. memory_check ?l k 90) (str ''alice'') ?cs = (Inl e, cs')"
    by simp
  from refusal_tells_when_to_retry [OF \<open>valid_limits ?l\<close> this] run \<open>r = Inl e\<close>
  show ?thesis by auto
qed

end
