(* ===== verification/Auth.thy ===== *)
theory Auth
  imports Redis
begin

text \<open>
  \<open>auth/\<close>: request identities, the authenticators and the keys they are configured from, the
  ownership rule, the single-use tickets of the realtime socket in both their stores, and the
  handshake \<open>authenticate_socket\<close> of \<open>api/v1/realtime.py\<close>. The locale \<open>ticket_store\<close> is what a
  store promises; that a ticket is redeemed at most once is proved in it for both.
\<close>

subsection \<open>Identities\<close>

datatype identity_kind = Anonymous | Api_Key

record identity =
  id_subject :: pystr
  id_kind :: identity_kind
  id_authenticated :: bool

definition ANONYMOUS_SUBJECT :: pystr where
  "ANONYMOUS_SUBJECT = str ''anonymous''"

definition anonymous_identity :: identity where
  "anonymous_identity = \<lparr>id_subject = ANONYMOUS_SUBJECT, id_kind = Anonymous, id_authenticated = False\<rparr>"

text \<open>\<open>RequestIdentity\<close> refuses an empty subject.\<close>

definition api_key_identity :: "pystr \<Rightarrow> identity result" where
  "api_key_identity subject =
     (if subject = [] then
        Inl (ValidationError [([str ''subject''], str ''String should have at least 1 character'')])
      else Inr \<lparr>id_subject = subject, id_kind = Api_Key, id_authenticated = True\<rparr>)"

subsection \<open>Configured keys\<close>

record credential =
  cr_subject :: pystr
  cr_secret :: pystr

definition MIN_KEY_LENGTH :: nat where
  "MIN_KEY_LENGTH = 16"

definition parse_credential :: "pystr \<Rightarrow> credential result" where
  "parse_credential entry =
     (let subject = takeWhile (\<lambda>c. c \<noteq> 58) entry;
          rest = dropWhile (\<lambda>c. c \<noteq> 58) entry;
          secret = drop 1 rest
      in if rest = [] \<or> strip subject = [] \<or> strip secret = [] then
           raise_app AuthenticationConfigurationError
             (Some (str ''A key entry must be 'subject:secret'.''))
             (Some [(str ''reason'', PStr (str ''malformed_entry''))])
         else if length (strip secret) < MIN_KEY_LENGTH then
           raise_app AuthenticationConfigurationError
             (Some (str ''An API key must be at least 16 characters.''))
             (Some [(str ''subject'', PStr (strip subject))])
         else Inr \<lparr>cr_subject = strip subject, cr_secret = strip secret\<rparr>)"

fun parse_credentials :: "pystr list \<Rightarrow> credential list result" where
  "parse_credentials [] = Inr []"
| "parse_credentials (e # es) =
     (if strip e = [] then parse_credentials es
      else (case parse_credential e of
              Inl x \<Rightarrow> Inl x
            | Inr c \<Rightarrow> (case parse_credentials es of Inl x \<Rightarrow> Inl x | Inr cs \<Rightarrow> Inr (c # cs))))"

subsection \<open>Authenticators\<close>

record authenticator =
  au_protects :: bool
  au_authenticate :: "pystr option \<Rightarrow> identity result"

definition anonymous_authenticator :: authenticator where
  "anonymous_authenticator =
     \<lparr>au_protects = False, au_authenticate = (\<lambda>_. Inr anonymous_identity)\<rparr>"

text \<open>\<open>secrets.compare_digest\<close> compares ASCII text and raises \<open>TypeError\<close> on any other.\<close>

definition compare_digest :: "pystr \<Rightarrow> pystr \<Rightarrow> bool result" where
  "compare_digest a b =
     (if list_all (\<lambda>c. c < 128) a \<and> list_all (\<lambda>c. c < 128) b then Inr (a = b)
      else Inl (TypeError (str ''comparing strings with non-ASCII characters is not supported'')))"

fun match_loop :: "pystr \<Rightarrow> credential option \<Rightarrow> credential list \<Rightarrow> credential option result" where
  "match_loop presented found [] = Inr found"
| "match_loop presented found (c # cs) =
     (case compare_digest presented (cr_secret c) of
        Inl e \<Rightarrow> Inl e
      | Inr same \<Rightarrow> match_loop presented (if same then Some c else found) cs)"

definition match_credential :: "credential list \<Rightarrow> pystr \<Rightarrow> credential option result" where
  "match_credential cs presented = match_loop presented None cs"

definition api_key_authenticate :: "credential list \<Rightarrow> pystr option \<Rightarrow> identity result" where
  "api_key_authenticate cs presented =
     (case presented of
        None \<Rightarrow> raise_app AuthenticationRequiredError None None
      | Some [] \<Rightarrow> raise_app AuthenticationRequiredError None None
      | Some key \<Rightarrow>
          (case match_credential cs key of
             Inl e \<Rightarrow> Inl e
           | Inr None \<Rightarrow> raise_app InvalidCredentialsError None None
           | Inr (Some c) \<Rightarrow> api_key_identity (cr_subject c)))"

definition ApiKeyAuthenticator :: "credential list \<Rightarrow> authenticator result" where
  "ApiKeyAuthenticator cs =
     (if cs = [] then
        raise_app AuthenticationConfigurationError
          (Some (str ''The api_key authenticator requires at least one key.'')) None
      else if \<not> distinct (map cr_subject cs) then
        raise_app AuthenticationConfigurationError
          (Some (str ''Each subject may be configured only once.'')) None
      else Inr \<lparr>au_protects = True, au_authenticate = api_key_authenticate cs\<rparr>)"

text \<open>\<open>build_authenticator\<close>: the two options of \<open>Settings.auth_provider\<close>.\<close>

datatype auth_provider = Auth_None | Auth_Api_Key

definition build_authenticator :: "auth_provider \<Rightarrow> pystr list \<Rightarrow> authenticator result" where
  "build_authenticator provider keys =
     (case provider of
        Auth_None \<Rightarrow> Inr anonymous_authenticator
      | Auth_Api_Key \<Rightarrow>
          (case parse_credentials keys of Inl e \<Rightarrow> Inl e | Inr cs \<Rightarrow> ApiKeyAuthenticator cs))"

subsection \<open>Ownership\<close>

text \<open>An \<open>OwnerScope\<close> is its subject; no restriction is \<open>None\<close>.\<close>

definition scope_permits :: "pystr \<Rightarrow> pystr option \<Rightarrow> bool" where
  "scope_permits scope owner \<longleftrightarrow> owner \<noteq> None \<and> owner = Some scope"

record authorizer =
  az_scopes :: bool
  az_scope_for :: "identity \<Rightarrow> pystr option"
  az_owner_for :: "identity \<Rightarrow> pystr option"

definition open_authorizer :: authorizer where
  "open_authorizer = \<lparr>az_scopes = False, az_scope_for = (\<lambda>_. None), az_owner_for = (\<lambda>_. None)\<rparr>"

definition subject_authorizer :: authorizer where
  "subject_authorizer =
     \<lparr>az_scopes = True, az_scope_for = (\<lambda>i. Some (id_subject i)), az_owner_for = (\<lambda>i. Some (id_subject i))\<rparr>"

text \<open>What a service asks of an optional scope.\<close>

definition permitted :: "pystr option \<Rightarrow> pystr option \<Rightarrow> bool" where
  "permitted scope owner \<longleftrightarrow> (case scope of None \<Rightarrow> True | Some s \<Rightarrow> scope_permits s owner)"

subsection \<open>Tickets in memory\<close>

type_synonym ticket_map = "(pystr \<times> (pystr \<times> rat)) list"

definition DEFAULT_TTL_SECONDS :: rat where
  "DEFAULT_TTL_SECONDS = 60"

definition prune_tickets :: "rat \<Rightarrow> ticket_map \<Rightarrow> ticket_map" where
  "prune_tickets now ts = filter (\<lambda>(_, (_, expires)). \<not> expires \<le> now) ts"

definition memory_issue :: "rat \<Rightarrow> pystr \<Rightarrow> pystr \<Rightarrow> rat \<Rightarrow> ticket_map \<Rightarrow> pystr result \<times> ticket_map" where
  "memory_issue ttl ticket subject now ts =
     (Inr ticket, AList.update ticket (subject, now + ttl) (prune_tickets now ts))"

definition memory_redeem :: "pystr \<Rightarrow> rat \<Rightarrow> ticket_map \<Rightarrow> pystr option \<times> ticket_map" where
  "memory_redeem ticket now ts =
     (case map_of ts ticket of
        None \<Rightarrow> (None, ts)
      | Some (subject, expires) \<Rightarrow>
          (if expires \<le> now then None else Some subject, AList.delete ticket ts))"

subsection \<open>Tickets in Redis\<close>

definition ticket_key :: "pystr \<Rightarrow> pystr \<Rightarrow> pystr" where
  "ticket_key ns ticket = ns @ str '':'' @ ticket"

definition redis_issue :: "'s redis_exec \<Rightarrow> pystr \<Rightarrow> rat \<Rightarrow> pystr \<Rightarrow> pystr \<Rightarrow> 's \<Rightarrow> pystr result \<times> 's" where
  "redis_issue exec ns ttl ticket subject s =
     (case exec [SET (ticket_key ns ticket) subject (Some ttl)] s of
        (None, s1) \<Rightarrow> (Inl (RedisError (str ''RedisError'')), s1)
      | (Some _, s1) \<Rightarrow> (Inr ticket, s1))"

definition redis_redeem :: "'s redis_exec \<Rightarrow> pystr \<Rightarrow> pystr \<Rightarrow> 's \<Rightarrow> pystr option \<times> 's" where
  "redis_redeem exec ns ticket s =
     (case exec [GETDEL (ticket_key ns ticket)] s of
        (Some (R_Bulk subject # _), s1) \<Rightarrow> (Some subject, s1)
      | (_, s1) \<Rightarrow> (None, s1))"

subsection \<open>The handshake\<close>

definition authenticate_socket ::
  "(pystr \<Rightarrow> 's \<Rightarrow> pystr option \<times> 's) \<Rightarrow> bool \<Rightarrow> pystr option \<Rightarrow> 's \<Rightarrow> identity option result \<times> 's" where
  "authenticate_socket redeem protects ticket s =
     (if \<not> protects then (Inr (Some anonymous_identity), s)
      else
        (case ticket of
           None \<Rightarrow> (Inr None, s)
         | Some [] \<Rightarrow> (Inr None, s)
         | Some t \<Rightarrow>
             (case redeem t s of
                (None, s1) \<Rightarrow> (Inr None, s1)
              | (Some subject, s1) \<Rightarrow>
                  (case api_key_identity subject of
                     Inl e \<Rightarrow> (Inl e, s1)
                   | Inr i \<Rightarrow> (Inr (Some i), s1)))))"

subsection \<open>The contract of a ticket store\<close>

datatype ticket_op = Issue pystr pystr rat | Redeem pystr rat

fun run_tickets ::
  "(pystr \<Rightarrow> pystr \<Rightarrow> rat \<Rightarrow> 's \<Rightarrow> pystr result \<times> 's) \<Rightarrow> (pystr \<Rightarrow> rat \<Rightarrow> 's \<Rightarrow> pystr option \<times> 's)
     \<Rightarrow> ticket_op list \<Rightarrow> 's \<Rightarrow> (ticket_op \<times> pystr option) list" where
  "run_tickets issue redeem [] s = []"
| "run_tickets issue redeem (Issue t u now # ops) s =
     (case issue t u now s of (_, s1) \<Rightarrow> (Issue t u now, None) # run_tickets issue redeem ops s1)"
| "run_tickets issue redeem (Redeem t now # ops) s =
     (case redeem t now s of (r, s1) \<Rightarrow> (Redeem t now, r) # run_tickets issue redeem ops s1)"

fun issues :: "pystr \<Rightarrow> ticket_op \<Rightarrow> bool" where
  "issues t (Issue t' u now) = (t' = t)"
| "issues t (Redeem t' now) = False"

fun redeemed :: "pystr \<Rightarrow> ticket_op \<times> pystr option \<Rightarrow> bool" where
  "redeemed t (Redeem t' now, Some u) = (t' = t)"
| "redeemed t _ = False"

definition redemptions :: "pystr \<Rightarrow> (ticket_op \<times> pystr option) list \<Rightarrow> (ticket_op \<times> pystr option) list" where
  "redemptions t entries = filter (redeemed t) entries"

definition genuine :: "pystr \<Rightarrow> pystr \<Rightarrow> rat \<Rightarrow> (ticket_op \<times> pystr option) list \<Rightarrow> bool" where
  "genuine t u e entries \<longleftrightarrow> entries = [] \<or> (\<exists>now. entries = [(Redeem t now, Some u)] \<and> now < e)"

locale ticket_store =
  fixes issue :: "pystr \<Rightarrow> pystr \<Rightarrow> rat \<Rightarrow> 's \<Rightarrow> pystr result \<times> 's"
    and redeem :: "pystr \<Rightarrow> rat \<Rightarrow> 's \<Rightarrow> pystr option \<times> 's"
    and entry :: "'s \<Rightarrow> pystr \<Rightarrow> (pystr \<times> rat) option"
    and ok :: "'s \<Rightarrow> bool"
    and ttl :: rat
  assumes issue_ok: "ok s \<Longrightarrow> issue t u now s = (r, s') \<Longrightarrow> ok s'"
    and redeem_ok: "ok s \<Longrightarrow> redeem t now s = (x, s') \<Longrightarrow> ok s'"
    and issue_entry:
      "ok s \<Longrightarrow> issue t u now s = (r, s') \<Longrightarrow>
       entry s' t \<in> {Some (u, now + ttl), entry s t, None} \<and>
       (\<forall>t'. t' \<noteq> t \<longrightarrow> entry s' t' \<in> {entry s t', None})"
    and redeem_entry:
      "ok s \<Longrightarrow> redeem t now s = (x, s') \<Longrightarrow>
       (x \<noteq> None \<longrightarrow> entry s' t = None) \<and> (\<forall>t'. entry s' t' \<in> {entry s t', None})"
    and redeem_result:
      "ok s \<Longrightarrow> redeem t now s = (Some u, s') \<Longrightarrow> \<exists>e. entry s t = Some (u, e) \<and> now < e"
begin

lemma unknown_never_redeemed:
  assumes "ok s" "entry s t = None" "\<not> list_ex (issues t) ops"
  shows "redemptions t (run_tickets issue redeem ops s) = []"
  using assms
proof (induction ops arbitrary: s)
  case (Cons a ops)
  show ?case
  proof (cases a)
    case (Issue t' u now)
    obtain r s' where i: "issue t' u now s = (r, s')" by force
    have "entry s' t = None"
      using issue_entry [OF Cons.prems(1) i] Cons.prems(2,3) Issue by auto
    from Cons.IH [OF issue_ok [OF Cons.prems(1) i] this] Cons.prems(3) show ?thesis
      by (simp add: Issue i redemptions_def)
  next
    case (Redeem t' now)
    obtain x s' where d: "redeem t' now s = (x, s')" by force
    have e: "entry s' t = None"
      using redeem_entry [OF Cons.prems(1) d] Cons.prems(2) by (metis empty_iff insert_iff)
    have "t' \<noteq> t" if "x = Some u" for u
      using redeem_result [of s t' now u s'] Cons.prems(1,2) d that by auto
    then have "\<not> redeemed t (Redeem t' now, x)" by (cases x) auto
    with Cons.IH [OF redeem_ok [OF Cons.prems(1) d] e] Cons.prems(3) show ?thesis
      by (simp add: Redeem d redemptions_def)
  qed
qed (simp add: redemptions_def)

lemma redeemed_once:
  assumes "ok s" "entry s t = Some (u, e)" "\<not> list_ex (issues t) ops"
  shows "genuine t u e (redemptions t (run_tickets issue redeem ops s))"
  using assms
proof (induction ops arbitrary: s)
  case (Cons a ops)
  show ?case
  proof (cases a)
    case (Issue t' u' now)
    obtain r s' where i: "issue t' u' now s = (r, s')" by force
    note ok' = issue_ok [OF Cons.prems(1) i]
    have "entry s' t = Some (u, e) \<or> entry s' t = None"
      using issue_entry [OF Cons.prems(1) i] Cons.prems(2,3) Issue by auto
    then show ?thesis
      using Cons.IH [OF ok'] unknown_never_redeemed [OF ok', of t ops] Cons.prems(3)
      by (auto simp: Issue i redemptions_def genuine_def)
  next
    case (Redeem t' now)
    obtain x s' where d: "redeem t' now s = (x, s')" by force
    note ok' = redeem_ok [OF Cons.prems(1) d]
    have e: "entry s' t = Some (u, e) \<or> entry s' t = None"
      using redeem_entry [OF Cons.prems(1) d] Cons.prems(2) by (metis empty_iff insert_iff)
    have ops: "\<not> list_ex (issues t) ops" using Cons.prems(3) by simp
    show ?thesis
    proof (cases "redeemed t (Redeem t' now, x)")
      case True
      then obtain w where x: "x = Some w" "t' = t" by (cases x) auto
      with d Cons.prems(1,2) redeem_result [of s t now w s'] have "w = u" "now < e" by auto
      moreover have "entry s' t = None" using redeem_entry [OF Cons.prems(1) d] x by simp
      ultimately show ?thesis
        using unknown_never_redeemed [OF ok' _ ops] x
        by (auto simp: Redeem d [unfolded x(2)] redemptions_def genuine_def)
    next
      case False
      with e Cons.IH [OF ok' _ ops] unknown_never_redeemed [OF ok' _ ops] show ?thesis
        by (auto simp: Redeem d redemptions_def genuine_def)
    qed
  qed
qed (simp add: redemptions_def genuine_def)

text \<open>
  A fresh ticket in any run: before it is issued it redeems to nothing, afterwards once, for
  the subject it was issued to and before it expires.
\<close>

lemma issued_redeemed_once:
  assumes "ok s" "entry s t = None" "\<not> list_ex (issues t) before" "\<not> list_ex (issues t) after"
  shows "genuine t u (now + ttl)
    (redemptions t (run_tickets issue redeem (before @ Issue t u now # after) s))"
  using assms(1,2,3)
proof (induction before arbitrary: s)
  case Nil
  obtain r s' where i: "issue t u now s = (r, s')" by force
  note ok' = issue_ok [OF Nil(1) i]
  have "entry s' t = Some (u, now + ttl) \<or> entry s' t = None"
    using issue_entry [OF Nil(1) i] Nil(2) by auto
  then show ?case
    using redeemed_once [OF ok' _ assms(4)] unknown_never_redeemed [OF ok' _ assms(4)]
    by (auto simp: i redemptions_def genuine_def)
next
  case (Cons a ops)
  show ?case
  proof (cases a)
    case (Issue t' u' now')
    obtain r s' where i: "issue t' u' now' s = (r, s')" by force
    have "entry s' t = None"
      using issue_entry [OF Cons.prems(1) i] Cons.prems(2,3) Issue by auto
    from Cons.IH [OF issue_ok [OF Cons.prems(1) i] this] Cons.prems(3) show ?thesis
      by (simp add: Issue i redemptions_def)
  next
    case (Redeem t' now')
    obtain x s' where d: "redeem t' now' s = (x, s')" by force
    have e: "entry s' t = None"
      using redeem_entry [OF Cons.prems(1) d] Cons.prems(2) by (metis empty_iff insert_iff)
    have "t' \<noteq> t" if "x = Some w" for w
      using redeem_result [of s t' now' w s'] Cons.prems(1,2) d that by auto
    then have "\<not> redeemed t (Redeem t' now', x)" by (cases x) auto
    with Cons.IH [OF redeem_ok [OF Cons.prems(1) d] e] Cons.prems(3) show ?thesis
      by (simp add: Redeem d redemptions_def)
  qed
qed

end

subsection \<open>Both stores keep the contract\<close>

interpretation memory_tickets: ticket_store "memory_issue ttl" memory_redeem map_of "\<lambda>ts. distinct (map fst ts)" ttl
  for ttl :: rat
proof unfold_locales
  show "distinct (map fst s')" if "distinct (map fst s)" "memory_issue ttl t u now s = (r, s')" for s t u now r s'
    using that by (auto simp: memory_issue_def prune_tickets_def distinct_update distinct_filter_map)
  show "distinct (map fst s')" if "distinct (map fst s)" "memory_redeem t now s = (x, s')" for s t now x s'
    using that by (auto simp: memory_redeem_def distinct_delete split: option.splits)
  have pruned: "map_of (prune_tickets now s) t \<in> {map_of s t, None}" if "distinct (map fst s)" for now s t
    using that by (induction s) (auto simp: prune_tickets_def map_of_eq_None_iff split: if_splits)
  show "map_of s' t \<in> {Some (u, now + ttl), map_of s t, None} \<and>
      (\<forall>t'. t' \<noteq> t \<longrightarrow> map_of s' t' \<in> {map_of s t', None})"
    if "distinct (map fst s)" "memory_issue ttl t u now s = (r, s')" for s t u now r s'
  proof -
    from that(2) have "map_of s' = (map_of (prune_tickets now s))(t \<mapsto> (u, now + ttl))"
      by (auto simp: memory_issue_def update_conv')
    then show ?thesis using pruned [OF that(1), of now] by simp
  qed
  show "(x \<noteq> None \<longrightarrow> map_of s' t = None) \<and> (\<forall>t'. map_of s' t' \<in> {map_of s t', None})"
    if "memory_redeem t now s = (x, s')" for s t now x s'
    using that by (auto simp: memory_redeem_def delete_conv' split: option.splits if_splits)
  show "\<exists>e. map_of s t = Some (u, e) \<and> now < e" if "memory_redeem t now s = (Some u, s')" for s t now u s'
    using that by (auto simp: memory_redeem_def split: option.splits if_splits)
qed

definition redis_entry :: "('s \<Rightarrow> redis_db) \<Rightarrow> pystr \<Rightarrow> 's \<Rightarrow> pystr \<Rightarrow> (pystr \<times> rat) option" where
  "redis_entry view ns s t =
     (case rd_keys (view s) (ticket_key ns t) of Some (V_Str u, Some e) \<Rightarrow> Some (u, e) | _ \<Rightarrow> None)"

text \<open>Under the store's prefix every key is a ticket with an expiry.\<close>

definition tickets_ok :: "('s \<Rightarrow> redis_db) \<Rightarrow> pystr \<Rightarrow> 's \<Rightarrow> bool" where
  "tickets_ok view ns s \<longleftrightarrow>
     (\<forall>t v. rd_keys (view s) (ticket_key ns t) = Some v \<longrightarrow> (\<exists>u e. v = (V_Str u, Some e)))"

lemma ticket_key_eq [simp]: "ticket_key ns a = ticket_key ns b \<longleftrightarrow> a = b"
  by (simp add: ticket_key_def)

locale redis_tickets = redis_server exec view up
  for exec :: "'s redis_exec" and view :: "'s \<Rightarrow> redis_db" and up :: "'s \<Rightarrow> bool" +
  fixes tick :: "rat \<Rightarrow> 's \<Rightarrow> 's"
    and ns :: pystr
    and ttl :: rat
  assumes tick_view: "view (tick t s) = (view s)\<lparr>rd_now := t\<rparr>"
begin

lemma one_command:
  assumes "exec [c] (tick now s) = (x, s')"
  shows "(x = None \<and> (view s' = (view s)\<lparr>rd_now := now\<rparr> \<or> view s' = snd (run_cmd c ((view s)\<lparr>rd_now := now\<rparr>)))) \<or>
    (x = Some [fst (run_cmd c ((view s)\<lparr>rd_now := now\<rparr>))] \<and> view s' = snd (run_cmd c ((view s)\<lparr>rd_now := now\<rparr>)))"
  using assms lost [of "[c]" "tick now s" s'] some_exec [of "[c]" "tick now s" _ s']
  by (cases x) (auto simp: tick_view Let_def split_beta)

lemma issue_effect:
  assumes "redis_issue exec ns ttl t u (tick now s) = (r, s')"
  shows "rd_keys (view s') \<in>
    {rd_keys (view s), (rd_keys (view s))(ticket_key ns t \<mapsto> (V_Str u, Some (now + ttl)))}"
proof -
  obtain x where "exec [SET (ticket_key ns t) u (Some ttl)] (tick now s) = (x, s')"
    using assms by (auto simp: redis_issue_def split: prod.splits option.splits)
  from one_command [OF this] show ?thesis by (auto simp: put_def)
qed

lemma redeem_effect:
  assumes "tickets_ok view ns s" "redis_redeem exec ns t (tick now s) = (x, s')"
  shows "(x = None \<and> rd_keys (view s') \<in> {rd_keys (view s), (rd_keys (view s))(ticket_key ns t := None)}) \<or>
    (\<exists>u e. x = Some u \<and> rd_keys (view s) (ticket_key ns t) = Some (V_Str u, Some e) \<and> now < e \<and>
       rd_keys (view s') = (rd_keys (view s))(ticket_key ns t := None))"
proof -
  let ?k = "ticket_key ns t"
  obtain r where e: "exec [GETDEL ?k] (tick now s) = (r, s')"
    using assms(2) by (auto simp: redis_redeem_def split: prod.splits option.splits list.splits redis_reply.splits)
  have stored: "rd_keys (view s) ?k = None \<or> (\<exists>u e. rd_keys (view s) ?k = Some (V_Str u, Some e))"
    using assms(1) unfolding tickets_ok_def by (cases "rd_keys (view s) ?k") blast+
  from one_command [OF e] assms(2) stored show ?thesis
    by (auto simp: redis_redeem_def e get_str_def live_def split: if_splits)
qed

end

sublocale redis_tickets \<subseteq> store: ticket_store "\<lambda>t u now s. redis_issue exec ns ttl t u (tick now s)"
  "\<lambda>t now s. redis_redeem exec ns t (tick now s)" "redis_entry view ns" "tickets_ok view ns" ttl
proof unfold_locales
  show "tickets_ok view ns s'"
    if "tickets_ok view ns s" "redis_issue exec ns ttl t u (tick now s) = (r, s')" for s t u now r s'
    using that(1) issue_effect [OF that(2)] by (auto simp: tickets_ok_def split: if_splits)
  show "tickets_ok view ns s'"
    if "tickets_ok view ns s" "redis_redeem exec ns t (tick now s) = (x, s')" for s t now x s'
    using that(1) redeem_effect [OF that] by (auto simp: tickets_ok_def split: if_splits)
  show "redis_entry view ns s' t \<in> {Some (u, now + ttl), redis_entry view ns s t, None} \<and>
      (\<forall>t'. t' \<noteq> t \<longrightarrow> redis_entry view ns s' t' \<in> {redis_entry view ns s t', None})"
    if "redis_issue exec ns ttl t u (tick now s) = (r, s')" for s t u now r s'
    using issue_effect [OF that] by (auto simp: redis_entry_def)
  show "(x \<noteq> None \<longrightarrow> redis_entry view ns s' t = None) \<and>
      (\<forall>t'. redis_entry view ns s' t' \<in> {redis_entry view ns s t', None})"
    if "tickets_ok view ns s" "redis_redeem exec ns t (tick now s) = (x, s')" for s t now x s'
    using redeem_effect [OF that] by (auto simp: redis_entry_def split: if_splits)
  show "\<exists>e. redis_entry view ns s t = Some (u, e) \<and> now < e"
    if "tickets_ok view ns s" "redis_redeem exec ns t (tick now s) = (Some u, s')" for s t now u s'
    using redeem_effect [OF that] by (auto simp: redis_entry_def)
qed

context redis_tickets
begin

lemma store_contract:
  "ticket_store (\<lambda>t u now s. redis_issue exec ns ttl t u (tick now s))
     (\<lambda>t now s. redis_redeem exec ns t (tick now s)) (redis_entry view ns) (tickets_ok view ns) ttl"
  by (rule store.ticket_store_axioms)

end

interpretation direct_tickets: redis_tickets direct_exec "\<lambda>db. db" "\<lambda>_. True" "\<lambda>t db. db\<lparr>rd_now := t\<rparr>" ns ttl
  for ns :: pystr and ttl :: rat
  by unfold_locales simp

subsection \<open>The contract of an authorizer\<close>

text \<open>
  What the services rely on: a caller may read what it creates, and where anything is
  restricted nobody reads what another subject, or nobody, owns.
\<close>

locale ownership =
  fixes az :: authorizer
  assumes own: "permitted (az_scope_for az i) (az_owner_for az i)"
    and isolated:
      "az_scopes az \<Longrightarrow> permitted (az_scope_for az i) owner \<Longrightarrow> owner = Some (id_subject i)"
    and unscoped: "\<not> az_scopes az \<Longrightarrow> az_scope_for az i = None"
begin

lemma readers:
  assumes "az_scopes az"
  shows "permitted (az_scope_for az i) (az_owner_for az j) \<longleftrightarrow> az_owner_for az j = Some (id_subject i)"
  using isolated [OF assms, of i] isolated [OF assms, of j] own [of i] own [of j] by metis

end

interpretation open_az: ownership open_authorizer
  by unfold_locales (simp_all add: open_authorizer_def permitted_def)

interpretation subject_az: ownership subject_authorizer
  by unfold_locales (auto simp: subject_authorizer_def permitted_def scope_permits_def)

subsection \<open>Properties\<close>

text \<open>
  C11: A realtime ticket is single-use. In any run of issues and redemptions over the in-memory
  store, a ticket that is issued once redeems to nothing before that, and afterwards at most
  once: for the subject it was issued to, before its time is up.
\<close>

theorem memory_ticket_single_use:
  assumes "\<not> list_ex (issues t) before" "\<not> list_ex (issues t) after"
  shows "genuine t u (now + ttl)
    (redemptions t (run_tickets (memory_issue ttl) memory_redeem (before @ Issue t u now # after) []))"
  by (rule memory_tickets.issued_redeemed_once) (use assms in simp_all)

lemma memory_ticket_single_use_witness:
  "genuine (str ''t1'') (str ''alice'') 60
     (redemptions (str ''t1'') (run_tickets (memory_issue 60) memory_redeem
        ([Redeem (str ''t1'') 0] @ Issue (str ''t1'') (str ''alice'') 0 #
         [Redeem (str ''t1'') 5, Redeem (str ''t1'') 6]) []))"
  using memory_ticket_single_use [of "str ''t1''" "[Redeem (str ''t1'') 0]"
      "[Redeem (str ''t1'') 5, Redeem (str ''t1'') 6]" "str ''alice''" 0 60] by simp

text \<open>
  The same over Redis, however the server fails: whether a lost round trip was applied or
  not, a ticket opens at most one connection, for its own subject and within its life.
\<close>

theorem redis_ticket_single_use:
  assumes "redis_tickets exec view up tick" "tickets_ok view ns s" "redis_entry view ns s t = None"
    and "\<not> list_ex (issues t) before" "\<not> list_ex (issues t) after"
  shows "genuine t u (now + ttl)
    (redemptions t (run_tickets (\<lambda>t u now s. redis_issue exec ns ttl t u (tick now s))
       (\<lambda>t now s. redis_redeem exec ns t (tick now s)) (before @ Issue t u now # after) s))"
  by (rule ticket_store.issued_redeemed_once [OF redis_tickets.store_contract [OF assms(1)] assms(2-5)])

lemma redis_ticket_single_use_witness:
  "genuine (str ''t1'') (str ''alice'') 60
     (redemptions (str ''t1'') (run_tickets (\<lambda>t u now s. redis_issue direct_exec [] 60 t u (s\<lparr>rd_now := now\<rparr>))
       (\<lambda>t now s. redis_redeem direct_exec [] t (s\<lparr>rd_now := now\<rparr>))
       ([] @ Issue (str ''t1'') (str ''alice'') 0 # [Redeem (str ''t1'') 5, Redeem (str ''t1'') 6])
       \<lparr>rd_now = 0, rd_keys = Map.empty\<rparr>))"
proof -
  have ok: "tickets_ok (\<lambda>db. db) [] \<lparr>rd_now = 0, rd_keys = Map.empty\<rparr>" by (simp add: tickets_ok_def)
  have none: "redis_entry (\<lambda>db. db) [] \<lparr>rd_now = 0, rd_keys = Map.empty\<rparr> (str ''t1'') = None"
    by (simp add: redis_entry_def)
  have "genuine (str ''t1'') (str ''alice'') (0 + 60)
     (redemptions (str ''t1'') (run_tickets (\<lambda>t u now s. redis_issue direct_exec [] 60 t u (s\<lparr>rd_now := now\<rparr>))
       (\<lambda>t now s. redis_redeem direct_exec [] t (s\<lparr>rd_now := now\<rparr>))
       ([] @ Issue (str ''t1'') (str ''alice'') 0 # [Redeem (str ''t1'') 5, Redeem (str ''t1'') 6])
       \<lparr>rd_now = 0, rd_keys = Map.empty\<rparr>))"
    by (rule redis_ticket_single_use [OF direct_tickets.redis_tickets_axioms ok none]) simp_all
  then show ?thesis by (simp only: add_0)
qed

lemma match_loop_cases:
  "match_loop key found cs = Inr r \<Longrightarrow> (\<exists>c \<in> set cs. r = Some c \<and> cr_secret c = key) \<or> r = found"
  by (induction cs arbitrary: found) (fastforce simp: compare_digest_def split: if_splits sum.splits)+

lemma match_loop_ascii:
  assumes "list_all (\<lambda>c. c < 128) key" "\<forall>c \<in> set cs. list_all (\<lambda>x. x < 128) (cr_secret c)"
  shows "match_loop key found cs = Inr (case rev (filter (\<lambda>c. cr_secret c = key) cs) of [] \<Rightarrow> found | c # _ \<Rightarrow> Some c)"
  using assms by (induction cs arbitrary: found) (auto simp: compare_digest_def split: list.splits)

text \<open>
  C40: With ASCII keys that are pairwise different, the API-key authenticator identifies a
  caller exactly when the presented key is one that is configured, and then as the subject of
  that key, authenticated; every other key is refused.
\<close>

theorem authenticates_exactly_the_configured:
  assumes "ApiKeyAuthenticator cs = Inr a" "distinct (map cr_secret cs)" "key \<noteq> []"
    and "list_all (\<lambda>c. c < 128) key"
    and "\<forall>c \<in> set cs. list_all (\<lambda>x. x < 128) (cr_secret c) \<and> cr_subject c \<noteq> []"
  shows "au_authenticate a (Some key) = Inr i \<longleftrightarrow>
    (\<exists>c \<in> set cs. cr_secret c = key \<and>
       i = \<lparr>id_subject = cr_subject c, id_kind = Api_Key, id_authenticated = True\<rparr>)"
proof -
  have a: "au_authenticate a = api_key_authenticate cs"
    using assms(1) by (auto simp: ApiKeyAuthenticator_def raise_app_def split: if_splits)
  have auth: "au_authenticate a (Some key) =
    (case match_credential cs key of
       Inl e \<Rightarrow> Inl e
     | Inr None \<Rightarrow> raise_app InvalidCredentialsError None None
     | Inr (Some c) \<Rightarrow> api_key_identity (cr_subject c))"
    using assms(3) by (simp add: a api_key_authenticate_def split: list.split)
  have ascii: "\<forall>c \<in> set cs. list_all (\<lambda>x. x < 128) (cr_secret c)"
    and named: "\<And>c. c \<in> set cs \<Longrightarrow> cr_subject c \<noteq> []"
    using assms(5) by auto
  show ?thesis
  proof (cases "\<exists>c \<in> set cs. cr_secret c = key")
    case True
    then obtain c where c: "c \<in> set cs" "cr_secret c = key" by blast
    then have "filter (\<lambda>c. cr_secret c = key) cs = [c]"
      using filter_by_key [OF assms(2)] by blast
    then have "match_credential cs key = Inr (Some c)"
      using match_loop_ascii [OF assms(4) ascii] by (simp add: match_credential_def)
    then have "au_authenticate a (Some key) =
        Inr \<lparr>id_subject = cr_subject c, id_kind = Api_Key, id_authenticated = True\<rparr>"
      using named [OF c(1)] by (simp add: auth api_key_identity_def)
    moreover have "c' = c" if "c' \<in> set cs" "cr_secret c' = key" for c'
      using that c assms(2) by (simp add: distinct_map inj_on_def)
    ultimately show ?thesis using c by (metis sum.inject(2))
  next
    case False
    then have "filter (\<lambda>c. cr_secret c = key) cs = []" by (auto simp: filter_empty_conv)
    then have "match_credential cs key = Inr None"
      using match_loop_ascii [OF assms(4) ascii] by (simp add: match_credential_def)
    with False show ?thesis by (auto simp: auth raise_app_def)
  qed
qed

lemma authenticates_exactly_the_configured_witness:
  "au_authenticate \<lparr>au_protects = True, au_authenticate = api_key_authenticate
       [\<lparr>cr_subject = str ''alice'', cr_secret = str ''0123456789abcdef''\<rparr>]\<rparr> (Some (str ''0123456789abcdef'')) =
     Inr \<lparr>id_subject = str ''alice'', id_kind = Api_Key, id_authenticated = True\<rparr>"
  by (subst authenticates_exactly_the_configured
      [of "[\<lparr>cr_subject = str ''alice'', cr_secret = str ''0123456789abcdef''\<rparr>]"])
    (simp_all add: ApiKeyAuthenticator_def str_def)

text \<open>
  A credential that is not ASCII does not get the 401 of an invalid key. The comparison
  raises \<open>TypeError\<close>, which leaves the authenticator.
\<close>

theorem non_ascii_key_raises_type_error:
  assumes "cs \<noteq> []" "c \<in> set key" "128 \<le> c"
  shows "\<exists>m. api_key_authenticate cs (Some key) = Inl (TypeError m)"
proof -
  obtain d ds where cs: "cs = d # ds" using assms(1) by (cases cs) auto
  have "\<not> list_all (\<lambda>c. c < 128) key" using assms(2,3) by (meson list_all_iff not_less)
  then have "\<exists>m. match_credential cs key = Inl (TypeError m)"
    by (simp add: match_credential_def compare_digest_def cs)
  moreover have "key \<noteq> []" using assms(2) by auto
  ultimately show ?thesis by (auto simp: api_key_authenticate_def split: list.split)
qed

lemma non_ascii_key_raises_type_error_witness:
  "\<exists>m. api_key_authenticate [\<lparr>cr_subject = str ''alice'', cr_secret = str ''0123456789abcdef''\<rparr>] (Some [233]) =
     Inl (TypeError m)"
  by (rule non_ascii_key_raises_type_error [of _ 233]) simp_all

text \<open>
  The handshake of a protected socket gives an identity only for a ticket that its store
  redeemed, to the subject it named, and never the anonymous identity.
\<close>

theorem protected_socket_needs_a_ticket:
  assumes "authenticate_socket redeem True ticket s = (Inr (Some i), s')"
  shows "\<exists>t subject. ticket = Some t \<and> t \<noteq> [] \<and> redeem t s = (Some subject, s') \<and>
    i = \<lparr>id_subject = subject, id_kind = Api_Key, id_authenticated = True\<rparr> \<and> i \<noteq> anonymous_identity"
  using assms by (auto simp: authenticate_socket_def api_key_identity_def anonymous_identity_def
      split: option.splits list.splits prod.splits if_splits)

lemma protected_socket_needs_a_ticket_witness:
  "\<exists>t subject. Some (str ''t1'') = Some t \<and>
     memory_redeem t 5 [(str ''t1'', (str ''alice'', 60))] = (Some subject, [])"
proof -
  have "authenticate_socket (\<lambda>t. memory_redeem t 5) True (Some (str ''t1'')) [(str ''t1'', (str ''alice'', 60))] =
    (Inr (Some \<lparr>id_subject = str ''alice'', id_kind = Api_Key, id_authenticated = True\<rparr>), [])"
    by (simp add: authenticate_socket_def memory_redeem_def api_key_identity_def str_def)
  from protected_socket_needs_a_ticket [OF this] show ?thesis by blast
qed

text \<open>
  A key entry is split at its first colon, so the secret may contain more: subject, colon
  and a secret of at least sixteen characters read back, stripped of outer white space.
\<close>

theorem key_entry_round_trip:
  assumes "58 \<notin> set subject" "strip subject \<noteq> []" "16 \<le> length (strip secret)"
  shows "parse_credential (subject @ [58] @ secret) =
    Inr \<lparr>cr_subject = strip subject, cr_secret = strip secret\<rparr>"
proof -
  have "takeWhile (\<lambda>c. c \<noteq> 58) (subject @ 58 # secret) = subject"
    "dropWhile (\<lambda>c. c \<noteq> 58) (subject @ 58 # secret) = 58 # secret"
    using assms(1) by (auto simp: takeWhile_append dropWhile_append intro: takeWhile_eq_all_conv [THEN iffD2])
  moreover have "strip secret \<noteq> []" using assms(3) by auto
  ultimately show ?thesis using assms by (simp add: parse_credential_def Let_def MIN_KEY_LENGTH_def)
qed

lemma key_entry_round_trip_witness:
  "parse_credential (str ''alice'' @ [58] @ str ''abc:defghijklmnop'') =
    Inr \<lparr>cr_subject = str ''alice'', cr_secret = str ''abc:defghijklmnop''\<rparr>"
proof -
  have "strip (str ''alice'') = str ''alice''" "strip (str ''abc:defghijklmnop'') = str ''abc:defghijklmnop''"
    by (simp_all add: strip_defs str_def)
  then show ?thesis
    by (subst key_entry_round_trip) (simp_all add: str_def)
qed

end
