(* ===== verification/Intent.thy ===== *)
theory Intent
  imports Errors
begin

text \<open>
  \<open>schemas/intent.py\<close> and the message types of \<open>llm/base.py\<close>: the closed set of intents, the
  analysis of a message with the bounds its schema enforces, and the intent service over an
  abstract provider. The categories are ordered by their wire values, as Python orders the
  members of a string enumeration.
\<close>

datatype intent_category = BILLING | TECHNICAL_SUPPORT | ACCOUNT | PRODUCT_QUESTION | COMPLAINT | OTHER

fun intent_value :: "intent_category \<Rightarrow> pystr" where
  "intent_value BILLING = str ''billing''"
| "intent_value TECHNICAL_SUPPORT = str ''technical_support''"
| "intent_value ACCOUNT = str ''account''"
| "intent_value PRODUCT_QUESTION = str ''product_question''"
| "intent_value COMPLAINT = str ''complaint''"
| "intent_value OTHER = str ''other''"

definition all_intents :: "intent_category list" where
  "all_intents = [BILLING, TECHNICAL_SUPPORT, ACCOUNT, PRODUCT_QUESTION, COMPLAINT, OTHER]"

lemma all_intents_complete [simp]: "i \<in> set all_intents"
  by (cases i) (simp_all add: all_intents_def)

lemma intent_value_inj [simp]: "intent_value i = intent_value j \<longleftrightarrow> i = j"
  by (cases i; cases j) simp_all

instantiation intent_category :: linorder
begin

definition less_eq_intent_category :: "intent_category \<Rightarrow> intent_category \<Rightarrow> bool" where
  "less_eq_intent_category i j \<longleftrightarrow> intent_value i \<le> intent_value j"

definition less_intent_category :: "intent_category \<Rightarrow> intent_category \<Rightarrow> bool" where
  "less_intent_category i j \<longleftrightarrow> intent_value i < intent_value j"

instance
proof
  fix i j k :: intent_category
  show "i < j \<longleftrightarrow> i \<le> j \<and> \<not> j \<le> i"
    unfolding less_eq_intent_category_def less_intent_category_def by (rule less_le_not_le)
  show "i \<le> i" by (simp add: less_eq_intent_category_def)
  show "i \<le> j \<Longrightarrow> j \<le> k \<Longrightarrow> i \<le> k"
    unfolding less_eq_intent_category_def by (rule order_trans)
  show "i \<le> j \<Longrightarrow> j \<le> i \<Longrightarrow> i = j"
    unfolding less_eq_intent_category_def using antisym intent_value_inj by blast
  show "i \<le> j \<or> j \<le> i"
    unfolding less_eq_intent_category_def by (rule linear)
qed

end

record intent_analysis =
  ia_intent :: intent_category
  ia_confidence :: rat
  ia_reason :: pystr

definition analysis_ok :: "intent_analysis \<Rightarrow> bool" where
  "analysis_ok a \<longleftrightarrow> 0 \<le> ia_confidence a \<and> ia_confidence a \<le> 1 \<and>
     1 \<le> length (ia_reason a) \<and> length (ia_reason a) \<le> 280"

text \<open>The constructor: \<open>IntentAnalysis\<close> refuses a value outside its bounds.\<close>

definition IntentAnalysis :: "intent_category \<Rightarrow> rat \<Rightarrow> pystr \<Rightarrow> intent_analysis result" where
  "IntentAnalysis i c r =
     (let bad = map (\<lambda>(n, m, _). ([str n], str m)) (filter (\<lambda>(_, _, b). b)
        [(''confidence'', ''Input should be greater than or equal to 0'', c < 0),
         (''confidence'', ''Input should be less than or equal to 1'', 1 < c),
         (''reason'', ''String should have at least 1 character'', r = []),
         (''reason'', ''String should have at most 280 characters'', 280 < length r)])
      in if bad = [] then Inr \<lparr>ia_intent = i, ia_confidence = c, ia_reason = r\<rparr>
         else Inl (ValidationError bad))"

lemma IntentAnalysis_Inr: "IntentAnalysis i c r = Inr a \<longleftrightarrow>
    a = \<lparr>ia_intent = i, ia_confidence = c, ia_reason = r\<rparr> \<and> analysis_ok a"
  by (auto simp: IntentAnalysis_def analysis_ok_def Let_def Suc_le_eq split: if_splits)

definition STATIC_EXAMPLE :: intent_analysis where
  "STATIC_EXAMPLE =
     \<lparr>ia_intent = OTHER, ia_confidence = 0,
      ia_reason = str ''Static provider response; no model was called.''\<rparr>"

lemma STATIC_EXAMPLE_ok: "analysis_ok STATIC_EXAMPLE"
  by (simp add: analysis_ok_def STATIC_EXAMPLE_def)

text \<open>A single-turn prompt, and a provider: what it completes, over the world it changes.\<close>

record llm_prompt =
  lp_system :: pystr
  lp_user :: pystr

type_synonym ('w, 'a) provider = "llm_prompt \<Rightarrow> 'w \<Rightarrow> 'a result \<times> 'w"

definition analyze_intent :: "pystr \<Rightarrow> ('w, intent_analysis) provider \<Rightarrow> pystr \<Rightarrow> 'w \<Rightarrow> intent_analysis result \<times> 'w" where
  "analyze_intent system complete_structured message w =
     complete_structured \<lparr>lp_system = system, lp_user = message\<rparr> w"

end
