(* ===== verification/Policy.thy ===== *)
theory Policy
  imports Intent
begin

text \<open>
  \<open>policy/\<close>: the rules and the engine of \<open>rules.py\<close>, the enforcer of \<open>enforcement.py\<close>, and the
  rule library of \<open>library.py\<close> with its regular expressions. A pattern is a value of the small
  regular-expression type below and \<open>search\<close> is \<open>Pattern.search\<close> under \<open>(?i)\<close>.
\<close>

subsection \<open>Rules and the engine\<close>

datatype policy_action = ALLOW | BLOCK | REPLACE

record policy_context =
  pc_message :: pystr
  pc_analysis :: intent_analysis
  pc_proposed :: pystr
  pc_handled :: bool

record policy_outcome =
  po_action :: policy_action
  po_rule :: pystr
  po_reason :: pystr
  po_replacement :: "pystr option"

text \<open>The validator of \<open>PolicyOutcome\<close>: a replacement is required, and not empty.\<close>

definition PolicyOutcome ::
  "policy_action \<Rightarrow> pystr \<Rightarrow> pystr \<Rightarrow> pystr option \<Rightarrow> policy_outcome result" where
  "PolicyOutcome action rule reason replacement =
     (if reason = [] then
        Inl (ValidationError [([str ''reason''], str ''String should have at least 1 character'')])
      else if action = REPLACE \<and> (replacement = None \<or> replacement = Some []) then
        Inl (ValueError (str ''A REPLACE outcome must carry a replacement reply.''))
      else Inr \<lparr>po_action = action, po_rule = rule, po_reason = reason, po_replacement = replacement\<rparr>)"

record policy_rule =
  pr_name :: pystr
  pr_evaluate :: "policy_context \<Rightarrow> policy_outcome option"

record policy_evaluation =
  pe_outcome :: policy_outcome
  pe_evaluated :: "pystr list"

definition allow_outcome :: "pystr \<Rightarrow> policy_outcome" where
  "allow_outcome rule =
     \<lparr>po_action = ALLOW, po_rule = rule, po_reason = str ''no rule applied'', po_replacement = None\<rparr>"

definition NO_RULE :: pystr where
  "NO_RULE = str ''default_allow''"

type_synonym policy_engine = "policy_rule list"

definition engine_add :: "policy_rule \<Rightarrow> policy_engine \<Rightarrow> policy_engine result" where
  "engine_add r rules =
     (if pr_name r = [] then
        Inl (ValueError (str ''Policy rules must be named so a decision can be attributed.''))
      else if list_ex (\<lambda>e. pr_name e = pr_name r) rules then
        Inl (ValueError (str ''A rule named '' @ repr_str (pr_name r) @ str '' is already registered.''))
      else Inr (rules @ [r]))"

fun engine_add_all :: "policy_rule list \<Rightarrow> policy_engine \<Rightarrow> policy_engine result" where
  "engine_add_all [] e = Inr e"
| "engine_add_all (r # rs) e =
     (case engine_add r e of Inl x \<Rightarrow> Inl x | Inr e1 \<Rightarrow> engine_add_all rs e1)"

definition PolicyEngine :: "policy_rule list \<Rightarrow> policy_engine result" where
  "PolicyEngine rules = engine_add_all rules []"

definition engine_names :: "policy_engine \<Rightarrow> pystr list" where
  "engine_names e = map pr_name e"

fun evaluate_rules :: "policy_rule list \<Rightarrow> policy_context \<Rightarrow> pystr list \<Rightarrow> policy_evaluation" where
  "evaluate_rules [] c consulted = \<lparr>pe_outcome = allow_outcome NO_RULE, pe_evaluated = consulted\<rparr>"
| "evaluate_rules (r # rs) c consulted =
     (let consulted1 = consulted @ [pr_name r] in
      case pr_evaluate r c of
        None \<Rightarrow> evaluate_rules rs c consulted1
      | Some out \<Rightarrow>
          if po_action out = ALLOW then evaluate_rules rs c consulted1
          else \<lparr>pe_outcome = out, pe_evaluated = consulted1\<rparr>)"

definition engine_evaluate :: "policy_engine \<Rightarrow> policy_context \<Rightarrow> policy_evaluation" where
  "engine_evaluate e c = evaluate_rules e c []"

definition evaluation_allowed :: "policy_evaluation \<Rightarrow> bool" where
  "evaluation_allowed ev \<longleftrightarrow> po_action (pe_outcome ev) = ALLOW"

subsection \<open>The enforcer\<close>

definition BLOCKED_REPLY :: pystr where
  "BLOCKED_REPLY = str ''I am not able to help with that here. A support agent will follow up.''"

record enforced_reply =
  er_reply :: pystr
  er_original :: pystr
  er_action :: policy_action
  er_rule :: pystr
  er_reason :: pystr
  er_modified :: bool
  er_handled :: bool
  er_evaluated :: "pystr list"

text \<open>\<open>EnforcedReply\<close> refuses an empty reply.\<close>

definition EnforcedReply :: "enforced_reply \<Rightarrow> enforced_reply result" where
  "EnforcedReply r =
     (if er_reply r = [] then
        Inl (ValidationError [([str ''reply''], str ''String should have at least 1 character'')])
      else Inr r)"

definition apply_evaluation :: "policy_evaluation \<Rightarrow> pystr \<Rightarrow> bool \<Rightarrow> enforced_reply result" where
  "apply_evaluation ev proposed handled =
     (let out = pe_outcome ev in
      case po_action out of
        BLOCK \<Rightarrow>
          EnforcedReply \<lparr>er_reply = BLOCKED_REPLY, er_original = proposed, er_action = BLOCK,
            er_rule = po_rule out, er_reason = po_reason out, er_modified = True, er_handled = False,
            er_evaluated = pe_evaluated ev\<rparr>
      | REPLACE \<Rightarrow>
          (let replacement = (case po_replacement out of
                 None \<Rightarrow> BLOCKED_REPLY | Some r \<Rightarrow> if r = [] then BLOCKED_REPLY else r)
           in EnforcedReply \<lparr>er_reply = replacement, er_original = proposed, er_action = REPLACE,
             er_rule = po_rule out, er_reason = po_reason out, er_modified = (replacement \<noteq> proposed),
             er_handled = handled, er_evaluated = pe_evaluated ev\<rparr>)
      | ALLOW \<Rightarrow>
          EnforcedReply \<lparr>er_reply = proposed, er_original = proposed, er_action = ALLOW,
            er_rule = po_rule out, er_reason = po_reason out, er_modified = False,
            er_handled = handled, er_evaluated = pe_evaluated ev\<rparr>)"

definition enforce ::
  "policy_engine \<Rightarrow> pystr \<Rightarrow> intent_analysis \<Rightarrow> pystr \<Rightarrow> bool \<Rightarrow> enforced_reply result" where
  "enforce e message analysis proposed handled =
     apply_evaluation
       (engine_evaluate e \<lparr>pc_message = message, pc_analysis = analysis, pc_proposed = proposed,
          pc_handled = handled\<rparr>)
       proposed handled"

subsection \<open>Regular expressions\<close>

text \<open>
  What the patterns use: literals, sequences, alternatives, an optional part, runs of white
  space and word boundaries. \<open>re_ends\<close> lists where a match from a position can end. Under
  \<open>(?i)\<close> Python also lets four further code points match the ASCII letters i, k and s.
  \<open>wide\<close> is the interpreter's \<open>str.isalnum\<close> on the code points above 255.
\<close>

datatype regex =
    Lit pystr
  | Seq regex regex
  | Alt regex regex
  | Opt regex
  | Spaces
  | Spaces1
  | Bound

definition re_fold :: "nat \<Rightarrow> nat" where
  "re_fold c =
     (if 65 \<le> c \<and> c \<le> 90 then c + 32
      else if c = 304 \<or> c = 305 then 105
      else if c = 383 then 115
      else if c = 8490 then 107
      else c)"

definition word_char :: "(nat \<Rightarrow> bool) \<Rightarrow> nat \<Rightarrow> bool" where
  "word_char wide c \<longleftrightarrow> c = 95 \<or> (if c \<le> 255 then isalnum c else wide c)"

definition at_boundary :: "(nat \<Rightarrow> bool) \<Rightarrow> pystr \<Rightarrow> nat \<Rightarrow> bool" where
  "at_boundary wide s i \<longleftrightarrow>
     (0 < i \<and> word_char wide (s ! (i - 1))) \<noteq> (i < length s \<and> word_char wide (s ! i))"

definition space_ends :: "pystr \<Rightarrow> nat \<Rightarrow> nat list" where
  "space_ends s i = map (\<lambda>k. i + k) [0..<Suc (length (takeWhile isspace (drop i s)))]"

fun re_ends :: "(nat \<Rightarrow> bool) \<Rightarrow> regex \<Rightarrow> pystr \<Rightarrow> nat \<Rightarrow> nat list" where
  "re_ends wide (Lit p) s i =
     (if map re_fold (take (length p) (drop i s)) = p then [i + length p] else [])"
| "re_ends wide (Seq a b) s i = concat (map (re_ends wide b s) (re_ends wide a s i))"
| "re_ends wide (Alt a b) s i = re_ends wide a s i @ re_ends wide b s i"
| "re_ends wide (Opt a) s i = i # re_ends wide a s i"
| "re_ends wide Spaces s i = space_ends s i"
| "re_ends wide Spaces1 s i = tl (space_ends s i)"
| "re_ends wide Bound s i = (if at_boundary wide s i then [i] else [])"

definition re_search :: "(nat \<Rightarrow> bool) \<Rightarrow> regex \<Rightarrow> pystr \<Rightarrow> bool" where
  "re_search wide r s \<longleftrightarrow> list_ex (\<lambda>i. re_ends wide r s i \<noteq> []) [0..<Suc (length s)]"

fun seqs :: "regex list \<Rightarrow> regex" where
  "seqs [] = Lit []"
| "seqs [r] = r"
| "seqs (r # rs) = Seq r (seqs rs)"

fun alts :: "string list \<Rightarrow> regex" where
  "alts [] = Lit []"
| "alts [w] = Lit (str w)"
| "alts (w # ws) = Alt (Lit (str w)) (alts ws)"

text \<open>The four patterns of \<open>COMMITMENT_PATTERNS\<close>; 8217 is the typographic apostrophe.\<close>

definition COMMITMENT_PATTERNS :: "regex list" where
  "COMMITMENT_PATTERNS =
     [seqs [Bound, alts [''i'', ''we''], Spaces1, Opt (Seq (Lit (str ''have'')) Spaces1),
            alts [''refunded'', ''reimbursed'', ''credited''], Bound],
      seqs [Bound, alts [''i'', ''we''], Spaces,
            Alt (Lit (str ''will'')) (Alt (Lit [39, 108, 108]) (Lit [8217, 108, 108])), Spaces1,
            alts [''refund'', ''reimburse'', ''credit'', ''cancel''], Bound],
      seqs [Bound, Lit (str ''guarantee''), Opt (Lit (str ''d'')), Bound],
      seqs [Bound, Lit (str ''full''), Spaces1, Lit (str ''refund''), Bound]]"

definition commits :: "(nat \<Rightarrow> bool) \<Rightarrow> pystr \<Rightarrow> bool" where
  "commits wide reply \<longleftrightarrow> list_ex (\<lambda>p. re_search wide p reply) COMMITMENT_PATTERNS"

subsection \<open>The rule library\<close>

definition REVIEW_REPLY :: pystr where
  "REVIEW_REPLY = str ''I have passed this to a support agent, who will confirm the details with you.''"

definition replace_with_review :: "string \<Rightarrow> string \<Rightarrow> policy_outcome" where
  "replace_with_review rule reason =
     \<lparr>po_action = REPLACE, po_rule = str rule, po_reason = str reason, po_replacement = Some REVIEW_REPLY\<rparr>"

definition no_financial_commitments :: "(nat \<Rightarrow> bool) \<Rightarrow> policy_rule" where
  "no_financial_commitments wide =
     \<lparr>pr_name = str ''no_financial_commitments'',
      pr_evaluate = (\<lambda>c. if commits wide (pc_proposed c)
        then Some (replace_with_review ''no_financial_commitments'' ''The reply committed to a financial outcome.'')
        else None)\<rparr>"

definition complaints_go_to_a_human :: policy_rule where
  "complaints_go_to_a_human =
     \<lparr>pr_name = str ''complaints_go_to_a_human'',
      pr_evaluate = (\<lambda>c. if ia_intent (pc_analysis c) = COMPLAINT
        then Some (replace_with_review ''complaints_go_to_a_human'' ''Complaints are answered by a person.'')
        else None)\<rparr>"

definition unresolved_requests_reach_a_human :: policy_rule where
  "unresolved_requests_reach_a_human =
     \<lparr>pr_name = str ''unresolved_requests_reach_a_human'',
      pr_evaluate = (\<lambda>c. if \<not> pc_handled c
        then Some (replace_with_review ''unresolved_requests_reach_a_human'' ''The handler could not resolve the request.'')
        else None)\<rparr>"

definition default_rules :: "(nat \<Rightarrow> bool) \<Rightarrow> policy_rule list" where
  "default_rules wide =
     [no_financial_commitments wide, complaints_go_to_a_human, unresolved_requests_reach_a_human]"

subsection \<open>Lemmas\<close>

lemmas default_rule_defs = default_rules_def no_financial_commitments_def complaints_go_to_a_human_def
  unresolved_requests_reach_a_human_def replace_with_review_def

lemma default_engine: "PolicyEngine (default_rules wide) = Inr (default_rules wide)"
  by (simp add: PolicyEngine_def default_rule_defs engine_add_def)

text \<open>The decision is that of the first rule, in order, that does not abstain or allow.\<close>

definition decides :: "policy_context \<Rightarrow> policy_rule \<Rightarrow> bool" where
  "decides c r \<longleftrightarrow> (case pr_evaluate r c of None \<Rightarrow> False | Some out \<Rightarrow> po_action out \<noteq> ALLOW)"

lemma evaluate_rules_Cons:
  "evaluate_rules (r # rs) c consulted =
     (if decides c r then \<lparr>pe_outcome = the (pr_evaluate r c), pe_evaluated = consulted @ [pr_name r]\<rparr>
      else evaluate_rules rs c (consulted @ [pr_name r]))"
  by (simp add: decides_def split: option.split)

lemma evaluate_rules_first:
  "evaluate_rules rules c consulted =
     (case dropWhile (\<lambda>r. \<not> decides c r) rules of
        [] \<Rightarrow> \<lparr>pe_outcome = allow_outcome NO_RULE, pe_evaluated = consulted @ map pr_name rules\<rparr>
      | r # _ \<Rightarrow> \<lparr>pe_outcome = the (pr_evaluate r c),
          pe_evaluated = consulted @ map pr_name (takeWhile (\<lambda>r. \<not> decides c r) rules) @ [pr_name r]\<rparr>)"
proof (induction rules arbitrary: consulted)
  case (Cons r rules)
  then show ?case
    by (simp add: evaluate_rules_Cons del: evaluate_rules.simps dropWhile_eq_Nil_conv split: list.split)
qed simp

lemma BLOCKED_REPLY_ne [simp]: "BLOCKED_REPLY \<noteq> []" and REVIEW_REPLY_ne [simp]: "REVIEW_REPLY \<noteq> []"
  by (simp_all add: BLOCKED_REPLY_def REVIEW_REPLY_def)

lemma enforce_default:
  "enforce (default_rules wide) message analysis proposed handled =
     (if commits wide proposed \<or> ia_intent analysis = COMPLAINT \<or> \<not> handled then
        Inr \<lparr>er_reply = REVIEW_REPLY, er_original = proposed, er_action = REPLACE,
          er_rule = (if commits wide proposed then str ''no_financial_commitments''
                     else if ia_intent analysis = COMPLAINT then str ''complaints_go_to_a_human''
                     else str ''unresolved_requests_reach_a_human''),
          er_reason = (if commits wide proposed then str ''The reply committed to a financial outcome.''
                       else if ia_intent analysis = COMPLAINT then str ''Complaints are answered by a person.''
                       else str ''The handler could not resolve the request.''),
          er_modified = (REVIEW_REPLY \<noteq> proposed), er_handled = handled,
          er_evaluated = (if commits wide proposed then [str ''no_financial_commitments'']
                          else if ia_intent analysis = COMPLAINT
                          then [str ''no_financial_commitments'', str ''complaints_go_to_a_human'']
                          else [str ''no_financial_commitments'', str ''complaints_go_to_a_human'',
                                str ''unresolved_requests_reach_a_human''])\<rparr>
      else EnforcedReply \<lparr>er_reply = proposed, er_original = proposed, er_action = ALLOW,
          er_rule = NO_RULE, er_reason = str ''no rule applied'', er_modified = False, er_handled = handled,
          er_evaluated = [str ''no_financial_commitments'', str ''complaints_go_to_a_human'',
                          str ''unresolved_requests_reach_a_human'']\<rparr>)"
  by (simp add: enforce_def engine_evaluate_def default_rule_defs apply_evaluation_def Let_def EnforcedReply_def
      allow_outcome_def)

subsection \<open>Properties\<close>

text \<open>
  A match of a pattern contains one of the words every match of it goes through.
\<close>

fun goes_through :: "pystr list \<Rightarrow> regex \<Rightarrow> bool" where
  "goes_through ws (Lit p) \<longleftrightarrow> p \<in> set ws"
| "goes_through ws (Seq a b) \<longleftrightarrow> goes_through ws a \<or> goes_through ws b"
| "goes_through ws (Alt a b) \<longleftrightarrow> goes_through ws a \<and> goes_through ws b"
| "goes_through ws _ \<longleftrightarrow> False"

lemma contains_take_drop: "contains (take n (drop i s)) s"
proof -
  have "s = take i s @ take n (drop i s) @ drop n (drop i s)"
    by (metis append_take_drop_id)
  then show ?thesis by (metis contains_mid)
qed

lemma re_ends_contains:
  "goes_through ws r \<Longrightarrow> re_ends wide r s i \<noteq> [] \<Longrightarrow> \<exists>w \<in> set ws. contains w (map re_fold s)"
proof (induction r arbitrary: i)
  case (Lit p)
  then have "p \<in> set ws" "map re_fold (take (length p) (drop i s)) = p"
    by (auto split: if_splits)
  then have "contains p (map re_fold s)"
    using contains_take_drop [of "length p" i "map re_fold s"] by (simp add: take_map drop_map)
  with Lit show ?case by auto
next
  case (Seq a b)
  from Seq.prems(2) obtain j where j: "j \<in> set (re_ends wide a s i)" "re_ends wide b s j \<noteq> []"
    by auto
  then have "re_ends wide a s i \<noteq> []" by auto
  with j Seq show ?case by auto
next
  case (Alt a b)
  then show ?case by auto
qed auto

lemma commits_contains:
  assumes "commits wide s"
  shows "\<exists>w \<in> set [''refund'', ''reimburse'', ''credit'', ''cancel'', ''refunded'', ''reimbursed'',
      ''credited'', ''guarantee'']. contains (str w) (map re_fold s)"
proof -
  let ?ws = "map str [''refund'', ''reimburse'', ''credit'', ''cancel'', ''refunded'', ''reimbursed'',
      ''credited'', ''guarantee'']"
  have "\<forall>p \<in> set COMMITMENT_PATTERNS. goes_through ?ws p"
    by (simp add: COMMITMENT_PATTERNS_def)
  with assms obtain p i where "goes_through ?ws p" "re_ends wide p s i \<noteq> []"
    by (auto simp: commits_def re_search_def list_ex_iff)
  from re_ends_contains [OF this] show ?thesis by auto
qed

lemma REVIEW_REPLY_no_commitment: "\<not> commits wide REVIEW_REPLY"
proof
  assume "commits wide REVIEW_REPLY"
  from commits_contains [OF this] show False
    by (simp add: REVIEW_REPLY_def str_def re_fold_def)
qed

text \<open>
  What the enforcer lets out under the default rules never promises money. Whatever reply
  was proposed, for whatever message and analysis, the reply that may be sent matches none of
  the commitment patterns; and for a complaint or an unresolved request it is the hand-off to
  a person, word for word.
\<close>

theorem enforced_reply_is_safe:
  assumes "enforce (default_rules wide) message analysis proposed handled = Inr r"
  shows "\<not> commits wide (er_reply r) \<and> er_reply r \<noteq> [] \<and>
    ((ia_intent analysis = COMPLAINT \<or> \<not> handled) \<longrightarrow> er_reply r = REVIEW_REPLY) \<and>
    (er_modified r \<longleftrightarrow> er_reply r \<noteq> proposed)"
  using assms REVIEW_REPLY_no_commitment [of wide]
  by (auto simp: enforce_default EnforcedReply_def split: if_splits)

lemma enforced_reply_is_safe_witness:
  "\<exists>r. enforce (default_rules (\<lambda>_. False)) [] STATIC_EXAMPLE (str ''We will refund it.'') False = Inr r \<and>
     \<not> commits (\<lambda>_. False) (er_reply r)"
proof -
  obtain r where r: "enforce (default_rules (\<lambda>_. False)) [] STATIC_EXAMPLE (str ''We will refund it.'') False = Inr r"
    by (simp add: enforce_default)
  from enforced_reply_is_safe [OF r] have "\<not> commits (\<lambda>_. False) (er_reply r)" by (rule conjunct1)
  with r show ?thesis by blast
qed

text \<open>
  Policy is stable. Passing a reply that was let out through the same rules again, for the
  same message, lets the same reply out.
\<close>

theorem enforcement_is_idempotent:
  assumes "enforce (default_rules wide) message analysis proposed handled = Inr r"
  shows "\<exists>r'. enforce (default_rules wide) message analysis (er_reply r) handled = Inr r' \<and>
    er_reply r' = er_reply r \<and> \<not> er_modified r'"
  using assms REVIEW_REPLY_no_commitment [of wide]
  by (auto simp: enforce_default EnforcedReply_def split: if_splits)

lemma enforcement_is_idempotent_witness:
  "\<exists>r'. enforce (default_rules (\<lambda>_. False)) [] STATIC_EXAMPLE REVIEW_REPLY False = Inr r' \<and> \<not> er_modified r'"
proof -
  obtain r where r: "enforce (default_rules (\<lambda>_. False)) [] STATIC_EXAMPLE (str ''x'') False = Inr r"
    "er_reply r = REVIEW_REPLY"
    by (simp add: enforce_default)
  from enforcement_is_idempotent [OF r(1)] r(2) show ?thesis by auto
qed

end
