(* ===== verification/Tools.thy ===== *)
theory Tools
  imports Registry Tracing
begin

text \<open>
  \<open>tools/\<close>: what a tool is, the registry, the executor that turns every end of a call into a
  result, and the registry of traced tools of \<open>observability/integration.py\<close>. A tool's
  parameters are validated by its own model, here a function to the validated value \<open>'p\<close> or
  the errors; its run gets the deadline and changes the world \<open>'w\<close>.
\<close>

datatype tool_outcome = T_OK | T_INVALID_PARAMS | T_FAILED | T_TIMEOUT | T_NOT_FOUND

fun tool_outcome_value :: "tool_outcome \<Rightarrow> pystr" where
  "tool_outcome_value T_OK = str ''ok''"
| "tool_outcome_value T_INVALID_PARAMS = str ''invalid_params''"
| "tool_outcome_value T_FAILED = str ''failed''"
| "tool_outcome_value T_TIMEOUT = str ''timeout''"
| "tool_outcome_value T_NOT_FOUND = str ''not_found''"

record tool_result =
  tres_tool :: pystr
  tres_outcome :: tool_outcome
  tres_output :: pyval
  tres_error :: "pystr option"
  tres_retryable :: bool
  tres_duration_ms :: rat

definition tres_ok :: "tool_result \<Rightarrow> bool" where
  "tres_ok r \<longleftrightarrow> tres_outcome r = T_OK"

definition tool_success :: "pystr \<Rightarrow> pyval \<Rightarrow> rat \<Rightarrow> tool_result" where
  "tool_success tool output duration =
     \<lparr>tres_tool = tool, tres_outcome = T_OK, tres_output = output, tres_error = None,
      tres_retryable = False, tres_duration_ms = duration\<rparr>"

definition tool_failure :: "pystr \<Rightarrow> tool_outcome \<Rightarrow> pystr \<Rightarrow> bool \<Rightarrow> rat \<Rightarrow> tool_result" where
  "tool_failure tool outcome error retryable duration =
     \<lparr>tres_tool = tool, tres_outcome = outcome, tres_output = PNone, tres_error = Some error,
      tres_retryable = retryable, tres_duration_ms = duration\<rparr>"

text \<open>\<open>result_attributes\<close> of the tracing layer: the outcome without the output.\<close>

definition result_attributes :: "tool_result \<Rightarrow> attrs" where
  "result_attributes r =
     [(str ''tool'', PStr (tres_tool r)), (str ''outcome'', PStr (tool_outcome_value (tres_outcome r))),
      (str ''retryable'', PBool (tres_retryable r))]"

subsection \<open>Tools and their registry\<close>

record ('p, 'w) tool =
  tl_name :: pystr
  tl_description :: pystr
  tl_schema :: pyval
  tl_validate :: "attrs \<Rightarrow> (pystr list \<times> pystr) list + 'p"
  tl_run :: "rat \<Rightarrow> 'p \<Rightarrow> 'w \<Rightarrow> pyval result \<times> 'w"

definition describe_tool :: "('p, 'w) tool \<Rightarrow> attrs" where
  "describe_tool t =
     [(str ''name'', PStr (tl_name t)), (str ''description'', PStr (tl_description t)),
      (str ''parameters'', tl_schema t)]"

type_synonym ('p, 'w) tool_registry = "(pystr \<times> ('p, 'w) tool) list"

definition MAX_TOOL_NAME_LENGTH :: nat where
  "MAX_TOOL_NAME_LENGTH = 64"

definition allowed_tool_char :: "nat \<Rightarrow> bool" where
  "allowed_tool_char c \<longleftrightarrow> islower_ascii c \<or> isdigit c \<or> c = 95"

definition register_tool :: "('p, 'w) tool \<Rightarrow> ('p, 'w) tool_registry \<Rightarrow> ('p, 'w) tool_registry result" where
  "register_tool t reg =
     (let name = tl_name t;
          refuse = (\<lambda>msg. raise_app ToolRegistrationError (Some msg) (Some [(str ''name'', PStr name)]))
      in if name = [] \<or> \<not> list_all allowed_tool_char name then
           refuse (str ''Tool names must be non-empty and use only lowercase letters, digits, and underscores.'')
         else if MAX_TOOL_NAME_LENGTH < length name then
           refuse (str ''Tool names must be at most 64 characters.'')
         else if tl_description t = [] then
           refuse (str ''Tools must carry a description; a caller cannot choose between undescribed capabilities.'')
         else if map_of reg name \<noteq> None then
           refuse (str ''A tool named '' @ repr_str name @ str '' is already registered.'')
         else Inr (AList.update name t reg))"

definition get_tool :: "('p, 'w) tool_registry \<Rightarrow> pystr \<Rightarrow> ('p, 'w) tool result" where
  "get_tool reg name =
     (case map_of reg name of
        None \<Rightarrow> raise_app ToolNotFoundError None (Some [(str ''tool'', PStr name)])
      | Some t \<Rightarrow> Inr t)"

definition has_tool :: "('p, 'w) tool_registry \<Rightarrow> pystr \<Rightarrow> bool" where
  "has_tool reg name \<longleftrightarrow> map_of reg name \<noteq> None"

definition tool_names :: "('p, 'w) tool_registry \<Rightarrow> pystr list" where
  "tool_names reg = sort (map fst reg)"

definition tools_in_order :: "('p, 'w) tool_registry \<Rightarrow> ('p, 'w) tool list" where
  "tools_in_order reg = map (\<lambda>n. the (map_of reg n)) (tool_names reg)"

definition describe_all :: "('p, 'w) tool_registry \<Rightarrow> attrs list" where
  "describe_all reg = map describe_tool (tools_in_order reg)"

subsection \<open>The executor\<close>

record ('p, 'w) executor =
  ex_registry :: "('p, 'w) tool_registry"
  ex_timeout :: rat
  ex_clock :: "'w \<Rightarrow> rat"
  ex_fmt_g :: "rat \<Rightarrow> pystr"

definition TOOL_UNEXPECTED_ERROR :: pystr where
  "TOOL_UNEXPECTED_ERROR = str ''The tool failed unexpectedly.''"

definition describe_params_errors :: "(pystr list \<times> pystr) list \<Rightarrow> pystr" where
  "describe_params_errors errs =
     str ''Invalid parameters '' @ [8212, 32] @
     join (str ''; '')
       (map (\<lambda>(loc, msg). (let p = join (str ''.'') loc in if p = [] then str ''body'' else p) @
              str '': '' @ msg) errs)"

definition tool_elapsed :: "('p, 'w) executor \<Rightarrow> rat \<Rightarrow> 'w \<Rightarrow> rat" where
  "tool_elapsed ex started w = (ex_clock ex w - started) * 1000"

definition fail_call ::
  "('p, 'w) executor \<Rightarrow> pystr \<Rightarrow> tool_outcome \<Rightarrow> pystr \<Rightarrow> rat \<Rightarrow> bool \<Rightarrow> 'w \<Rightarrow> tool_result \<times> 'w" where
  "fail_call ex name outcome error started retryable w =
     (tool_failure name outcome error retryable (tool_elapsed ex started w), w)"

definition run_tool ::
  "('p, 'w) executor \<Rightarrow> ('p, 'w) tool \<Rightarrow> 'p \<Rightarrow> rat \<Rightarrow> 'w \<Rightarrow> tool_result \<times> 'w" where
  "run_tool ex t params started w =
     (case tl_run t (ex_timeout ex) params w of
        (Inl TimeoutError, w1) \<Rightarrow>
          fail_call ex (tl_name t) T_TIMEOUT
            (str ''The tool did not finish within '' @ ex_fmt_g ex (ex_timeout ex) @ str ''s.'') started True w1
      | (Inl (ToolError msg retryable), w1) \<Rightarrow> fail_call ex (tl_name t) T_FAILED msg started retryable w1
      | (Inl _, w1) \<Rightarrow> fail_call ex (tl_name t) T_FAILED TOOL_UNEXPECTED_ERROR started False w1
      | (Inr output, w1) \<Rightarrow> (tool_success (tl_name t) output (tool_elapsed ex started w1), w1))"

definition execute_tool ::
  "('p, 'w) executor \<Rightarrow> pystr \<Rightarrow> attrs option \<Rightarrow> 'w \<Rightarrow> tool_result \<times> 'w" where
  "execute_tool ex name params w =
     (let started = ex_clock ex w in
      case get_tool (ex_registry ex) name of
        Inl _ \<Rightarrow>
          fail_call ex name T_NOT_FOUND (str ''No tool named '' @ repr_str name @ str '' is available.'')
            started False w
      | Inr t \<Rightarrow>
          (case tl_validate t (case params of None \<Rightarrow> [] | Some kvs \<Rightarrow> kvs) of
             Inl errs \<Rightarrow> fail_call ex name T_INVALID_PARAMS (describe_params_errors errs) started False w
           | Inr validated \<Rightarrow> run_tool ex t validated started w))"

subsection \<open>Traced tools\<close>

text \<open>
  \<open>TracedTool\<close> wraps the run of a tool whose world is a tracer state; \<open>traced_registry\<close> builds a
  new registry from the tools in name order.
\<close>

definition traced_tool ::
  "(nat \<Rightarrow> pystr) \<Rightarrow> ('w \<Rightarrow> rat) \<Rightarrow> 'r recorder \<Rightarrow> ('p, ('r, 'w) tracer) tool \<Rightarrow> ('p, ('r, 'w) tracer) tool" where
  "traced_tool fresh clock rec_span t =
     t\<lparr>tl_run := (\<lambda>deadline params.
         traced_tool_run fresh clock rec_span (tl_name t) (tl_run t deadline params))\<rparr>"

definition traced_registry ::
  "(('p, 'w) tool \<Rightarrow> ('p, 'w) tool) \<Rightarrow> ('p, 'w) tool_registry \<Rightarrow> ('p, 'w) tool_registry result" where
  "traced_registry wrap reg = register_all register_tool (map wrap (tools_in_order reg)) []"

subsection \<open>Lemmas\<close>

interpretation tools: registry register_tool map_of tl_name
  by unfold_locales
    (auto simp: register_tool_def Let_def raise_app_def map_of_AList_update split: if_splits)

text \<open>The text of a registered name, as registration leaves it.\<close>

definition tool_ok :: "('p, 'w) tool \<Rightarrow> bool" where
  "tool_ok t \<longleftrightarrow> tl_name t \<noteq> [] \<and> list_all allowed_tool_char (tl_name t) \<and>
     length (tl_name t) \<le> MAX_TOOL_NAME_LENGTH \<and> tl_description t \<noteq> []"

definition tool_registry_inv :: "('p, 'w) tool_registry \<Rightarrow> bool" where
  "tool_registry_inv reg \<longleftrightarrow> distinct (map fst reg) \<and> (\<forall>(n, t) \<in> set reg. tl_name t = n \<and> tool_ok t)"

lemma tool_registry_inv_Nil [invs]: "tool_registry_inv []"
  by (simp add: tool_registry_inv_def)

lemma register_tool_inv [invs]:
  assumes "tool_registry_inv reg" "register_tool t reg = Inr reg'"
  shows "tool_registry_inv reg'"
proof -
  from assms(2) have t: "tool_ok t" "reg' = AList.update (tl_name t) t reg"
    by (auto simp: register_tool_def Let_def raise_app_def tool_ok_def split: if_splits)
  have "set reg' \<subseteq> insert (tl_name t, t) (set reg)"
    unfolding t(2) by (rule set_AList_update)
  with assms(1) t show ?thesis
    by (auto simp: tool_registry_inv_def distinct_update)
qed

lemma register_tool_ok:
  "tool_ok t \<Longrightarrow> map_of reg (tl_name t) = None \<Longrightarrow> register_tool t reg = Inr (AList.update (tl_name t) t reg)"
  by (simp add: register_tool_def tool_ok_def Let_def)

lemma register_all_tools_ok:
  assumes "\<forall>t \<in> set ts. tool_ok t" "distinct (map tl_name ts)" "\<forall>t \<in> set ts. map_of reg (tl_name t) = None"
  shows "\<exists>reg'. register_all register_tool ts reg = Inr reg'"
  using assms
proof (induction ts arbitrary: reg)
  case (Cons t ts)
  have "\<forall>u \<in> set ts. map_of (AList.update (tl_name t) t reg) (tl_name u) = None"
    using Cons.prems by (auto simp: map_of_AList_update) (metis imageI)
  with Cons show ?case by (simp add: register_tool_ok)
qed simp

lemma execute_tool_tool: "tool_registry_inv (ex_registry ex) \<Longrightarrow> tres_tool (fst (execute_tool ex name params w)) = name"
  by (auto simp: execute_tool_def get_tool_def raise_app_def Let_def fail_call_def tool_failure_def run_tool_def
      tool_success_def tool_registry_inv_def split: option.splits sum.splits prod.splits exn.splits
      dest!: map_of_SomeD)

lemma set_tools_in_order:
  assumes "tool_registry_inv reg"
  shows "map tl_name (tools_in_order reg) = tool_names reg" "set (tools_in_order reg) = snd ` set reg"
proof -
  have d: "distinct (map fst reg)" and n: "\<And>n t. (n, t) \<in> set reg \<Longrightarrow> tl_name t = n"
    using assms by (auto simp: tool_registry_inv_def)
  have found: "the (map_of reg m) = t \<and> tl_name t = m" if "(m, t) \<in> set reg" for m t
    using d n that by (simp add: map_of_eq_Some_iff [THEN iffD2])
  have "map (\<lambda>m. tl_name (the (map_of reg m))) ms = ms" if "set ms \<subseteq> set (map fst reg)" for ms
    using that found by (induction ms) force+
  then show "map tl_name (tools_in_order reg) = tool_names reg"
    by (simp add: tools_in_order_def tool_names_def comp_def)
  show "set (tools_in_order reg) = snd ` set reg"
    using found by (force simp: tools_in_order_def tool_names_def)
qed

lemma execute_tool_shape:
  "(tres_ok (fst (execute_tool ex name params w)) \<longleftrightarrow> tres_error (fst (execute_tool ex name params w)) = None) \<and>
   (tres_retryable (fst (execute_tool ex name params w)) \<longrightarrow>
      tres_outcome (fst (execute_tool ex name params w)) = T_TIMEOUT \<or>
      tres_outcome (fst (execute_tool ex name params w)) = T_FAILED) \<and>
   (tres_outcome (fst (execute_tool ex name params w)) = T_NOT_FOUND \<or>
      tres_outcome (fst (execute_tool ex name params w)) = T_INVALID_PARAMS \<longrightarrow>
      snd (execute_tool ex name params w) = w)"
  by (simp add: execute_tool_def Let_def fail_call_def tool_failure_def tool_success_def run_tool_def tres_ok_def
      split: sum.split prod.split exn.split)

subsection \<open>Properties\<close>

text \<open>
  A tool call always yields a result. Whatever the tool does -- unknown name, rejected
  parameters, deadline, \<open>ToolError\<close>, any other exception -- the result names the tool that was
  asked for, carries an error exactly when it is not a success, is retryable only after a
  deadline or a \<open>ToolError\<close>, and the world is untouched when the tool was not run.
\<close>

theorem executor_always_results:
  assumes "tool_registry_inv (ex_registry ex)" "execute_tool ex name params w = (r, w')"
  shows "tres_tool r = name \<and> (tres_ok r \<longleftrightarrow> tres_error r = None) \<and>
    (tres_retryable r \<longrightarrow> tres_outcome r = T_TIMEOUT \<or> tres_outcome r = T_FAILED) \<and>
    (tres_outcome r = T_NOT_FOUND \<or> tres_outcome r = T_INVALID_PARAMS \<longrightarrow> w' = w)"
  using execute_tool_tool [OF assms(1), of name params w] execute_tool_shape [of ex name params w] assms(2)
  by simp

text \<open>A tool that raises a driver error, and its executor.\<close>

definition sample_tool :: "(attrs, rat) tool" where
  "sample_tool =
     \<lparr>tl_name = str ''lookup_ticket'', tl_description = str ''Look up a ticket.'', tl_schema = PNone,
      tl_validate = Inr, tl_run = (\<lambda>_ _ w. (Inl (OSError (str ''ConnectionResetError'')), w + 1))\<rparr>"

definition sample_executor :: "(attrs, rat) executor" where
  "sample_executor =
     \<lparr>ex_registry = [(str ''lookup_ticket'', sample_tool)], ex_timeout = 15, ex_clock = (\<lambda>w. w),
      ex_fmt_g = (\<lambda>_. [])\<rparr>"

lemma sample_registry_inv: "tool_registry_inv (ex_registry sample_executor)"
  by (simp add: tool_registry_inv_def sample_executor_def sample_tool_def tool_ok_def allowed_tool_char_def
      islower_ascii_def isdigit_def str_def MAX_TOOL_NAME_LENGTH_def)

lemma executor_always_results_witness:
  "tres_error (fst (execute_tool sample_executor (str ''lookup_ticket'') None 0)) \<noteq> None"
proof -
  obtain r w' where r: "execute_tool sample_executor (str ''lookup_ticket'') None 0 = (r, w')" by force
  then have "\<not> tres_ok r"
    by (auto simp: execute_tool_def sample_executor_def get_tool_def sample_tool_def run_tool_def fail_call_def
        tool_failure_def tres_ok_def)
  with executor_always_results [OF sample_registry_inv r] show ?thesis by (simp add: r)
qed

text \<open>
  An unexpected exception tells the caller nothing. Two runs of a tool that raise
  different unexpected exceptions and change the world alike give the same result, so no part
  of the exception reaches the error text.
\<close>

theorem unexpected_errors_indistinguishable:
  assumes "tl_run t (ex_timeout ex) params w = (Inl e, w1)" "tl_run u (ex_timeout ex) params w = (Inl f, w1)"
    and "tl_name u = tl_name t"
    and "e \<noteq> TimeoutError" "f \<noteq> TimeoutError"
    and "\<nexists>m b. e = ToolError m b" "\<nexists>m b. f = ToolError m b"
  shows "run_tool ex t params started w = run_tool ex u params started w"
  using assms by (cases e; cases f) (auto simp: run_tool_def fail_call_def)

lemma unexpected_errors_indistinguishable_witness:
  "run_tool sample_executor sample_tool [] 0 0 =
   run_tool sample_executor (sample_tool\<lparr>tl_run := (\<lambda>_ _ w. (Inl (OtherError (str ''secret'')), w + 1))\<rparr>) [] 0 0"
  by (rule unexpected_errors_indistinguishable
      [where e = "OSError (str ''ConnectionResetError'')" and f = "OtherError (str ''secret'')" and ?w1.0 = 1])
    (simp_all add: sample_tool_def)

text \<open>
  Wrapping a registry for tracing never fails and changes no name: it holds exactly the
  wrapped tools under the same names.
\<close>

theorem traced_registry_faithful:
  assumes "tool_registry_inv reg" "\<And>t. tl_name (wrap t) = tl_name t \<and> tl_description (wrap t) = tl_description t"
  shows "\<exists>reg'. traced_registry wrap reg = Inr reg' \<and>
    (\<forall>n. map_of reg' n = map_option wrap (map_of reg n))"
proof -
  note order = set_tools_in_order [OF assms(1)]
  have d: "distinct (map fst reg)" and ok: "\<And>n t. (n, t) \<in> set reg \<Longrightarrow> tl_name t = n \<and> tool_ok t"
    using assms(1) by (auto simp: tool_registry_inv_def)
  have names: "map tl_name (map wrap (tools_in_order reg)) = tool_names reg"
    using order(1) assms(2) by (simp add: comp_def)
  have wrapped: "\<forall>t \<in> set (map wrap (tools_in_order reg)). tool_ok t"
  proof -
    have "tool_ok (wrap t) = tool_ok t" for t using assms(2) [of t] by (simp add: tool_ok_def)
    then show ?thesis using ok by (auto simp: order(2))
  qed
  have dist: "distinct (map tl_name (map wrap (tools_in_order reg)))"
    unfolding names using d by (simp add: tool_names_def)
  from register_all_tools_ok [OF wrapped dist, of "[]"] obtain reg' where
    reg': "register_all register_tool (map wrap (tools_in_order reg)) [] = Inr reg'" by auto
  have "map_of reg' n = map_option wrap (map_of reg n)" for n
  proof (cases "map_of reg n")
    case None
    have "map_of reg' n = None"
    proof (rule ccontr)
      assume "map_of reg' n \<noteq> None"
      then obtain v where "map_of reg' n = Some v" by auto
      from tools.found_all [OF reg' this] have "n \<in> set (map tl_name (map wrap (tools_in_order reg)))"
        by auto
      then show False using None unfolding names by (simp add: tool_names_def map_of_eq_None_iff)
    qed
    with None show ?thesis by simp
  next
    case (Some t)
    then have "(n, t) \<in> set reg" by (rule map_of_SomeD)
    then have "wrap t \<in> set (map wrap (tools_in_order reg))" "tl_name (wrap t) = n"
      using ok assms(2) by (force simp: order(2))+
    with tools.registered_all [OF reg', of "wrap t"] Some show ?thesis by simp
  qed
  with reg' show ?thesis by (auto simp: traced_registry_def)
qed

lemma traced_registry_faithful_witness:
  "\<exists>reg'. traced_registry (\<lambda>t. t\<lparr>tl_run := (\<lambda>_ _ w. (Inr PNone, w))\<rparr>) (ex_registry sample_executor) = Inr reg' \<and>
     map_of reg' (str ''lookup_ticket'') = Some (sample_tool\<lparr>tl_run := (\<lambda>_ _ w. (Inr PNone, w))\<rparr>)"
proof -
  have "map_of (ex_registry sample_executor) (str ''lookup_ticket'') = Some sample_tool"
    by (simp add: sample_executor_def)
  with traced_registry_faithful [OF sample_registry_inv, of "\<lambda>t. t\<lparr>tl_run := (\<lambda>_ _ w. (Inr PNone, w))\<rparr>"]
  show ?thesis by force
qed

end
