(* ===== verification/Agent.thy ===== *)
theory Agent
  imports Tools Intent
begin

text \<open>
  \<open>agent/state.py\<close> (the ledger of a run and its budget) and \<open>agent/loop.py\<close> (decide, act,
  observe, repeat). The loop recurses on the steps that remain, so its termination is the
  budget; the provider and the tools are arguments. \<open>render\<close> is Python's rendering of a value
  inside an f-string.
\<close>

subsection \<open>State\<close>

datatype step_kind = Tool_Call | Answer

fun step_kind_value :: "step_kind \<Rightarrow> pystr" where
  "step_kind_value Tool_Call = str ''tool_call''"
| "step_kind_value Answer = str ''answer''"

record agent_step =
  as_index :: int
  as_kind :: step_kind
  as_tool :: "pystr option"
  as_result :: "tool_result option"
  as_usage :: llm_usage
  as_duration_ms :: rat

record agent_budget =
  ab_max_steps :: int
  ab_max_tool_calls :: int

definition default_budget :: agent_budget where
  "default_budget = \<lparr>ab_max_steps = 6, ab_max_tool_calls = 8\<rparr>"

text \<open>The bounds \<open>AgentBudget\<close> enforces.\<close>

definition budget_ok :: "agent_budget \<Rightarrow> bool" where
  "budget_ok b \<longleftrightarrow> 1 \<le> ab_max_steps b \<and> ab_max_steps b \<le> 50 \<and>
     0 \<le> ab_max_tool_calls b \<and> ab_max_tool_calls b \<le> 100"

record agent_state =
  ag_run_id :: pystr
  ag_question :: pystr
  ag_budget :: agent_budget
  ag_steps :: "agent_step list"
  ag_usage :: llm_usage

definition zero_usage :: llm_usage where
  "zero_usage = \<lparr>lu_input = 0, lu_output = 0\<rparr>"

definition AgentState :: "pystr \<Rightarrow> pystr \<Rightarrow> agent_budget option \<Rightarrow> agent_state" where
  "AgentState run_id question budget =
     \<lparr>ag_run_id = run_id, ag_question = question,
      ag_budget = (case budget of None \<Rightarrow> default_budget | Some b \<Rightarrow> b),
      ag_steps = [], ag_usage = zero_usage\<rparr>"

definition step_count :: "agent_state \<Rightarrow> int" where
  "step_count s = int (length (ag_steps s))"

definition tool_calls :: "agent_state \<Rightarrow> int" where
  "tool_calls s = int (length (filter (\<lambda>x. as_kind x = Tool_Call) (ag_steps s)))"

definition successful_tool_calls :: "agent_state \<Rightarrow> int" where
  "successful_tool_calls s =
     int (length (filter (\<lambda>x. as_kind x = Tool_Call \<and>
       (case as_result x of None \<Rightarrow> False | Some r \<Rightarrow> tres_ok r)) (ag_steps s)))"

definition run_duration_ms :: "agent_state \<Rightarrow> rat" where
  "run_duration_ms s = sum_list (map as_duration_ms (ag_steps s))"

definition tools_used :: "agent_state \<Rightarrow> pystr list" where
  "tools_used s = first_seen [] (concat (map (\<lambda>x. case as_tool x of None \<Rightarrow> [] | Some t \<Rightarrow> [t]) (ag_steps s)))"

definition remaining_steps :: "agent_state \<Rightarrow> int" where
  "remaining_steps s = max 0 (ab_max_steps (ag_budget s) - step_count s)"

definition remaining_tool_calls :: "agent_state \<Rightarrow> int" where
  "remaining_tool_calls s = max 0 (ab_max_tool_calls (ag_budget s) - tool_calls s)"

definition budget_exhausted :: "agent_state \<Rightarrow> pystr option" where
  "budget_exhausted s =
     (if remaining_steps s = 0 then
        Some (str ''step limit of '' @ show_int (ab_max_steps (ag_budget s)) @ str '' reached'')
      else if remaining_tool_calls s = 0 then
        Some (str ''tool call limit of '' @ show_int (ab_max_tool_calls (ag_budget s)) @ str '' reached'')
      else None)"

definition append_step :: "agent_step \<Rightarrow> agent_state \<Rightarrow> agent_state" where
  "append_step x s =
     s\<lparr>ag_steps := ag_steps s @ [x],
       ag_usage := \<lparr>lu_input = lu_input (ag_usage s) + lu_input (as_usage x),
                    lu_output = lu_output (ag_usage s) + lu_output (as_usage x)\<rparr>\<rparr>"

definition record_tool_call :: "pystr \<Rightarrow> tool_result \<Rightarrow> llm_usage option \<Rightarrow> agent_state \<Rightarrow> agent_state" where
  "record_tool_call tool result usage s =
     append_step
       \<lparr>as_index = step_count s, as_kind = Tool_Call, as_tool = Some tool, as_result = Some result,
        as_usage = (case usage of None \<Rightarrow> zero_usage | Some u \<Rightarrow> u),
        as_duration_ms = tres_duration_ms result\<rparr> s"

definition record_answer :: "llm_usage option \<Rightarrow> rat \<Rightarrow> agent_state \<Rightarrow> agent_state" where
  "record_answer usage duration s =
     append_step
       \<lparr>as_index = step_count s, as_kind = Answer, as_tool = None, as_result = None,
        as_usage = (case usage of None \<Rightarrow> zero_usage | Some u \<Rightarrow> u), as_duration_ms = duration\<rparr> s"

record transcript_entry =
  te_index :: int
  te_kind :: pystr
  te_tool :: "pystr option"
  te_outcome :: "pystr option"
  te_duration_ms :: rat

text \<open>\<open>round1\<close> is \<open>round(_, 1)\<close>.\<close>

definition transcript :: "(rat \<Rightarrow> rat) \<Rightarrow> agent_state \<Rightarrow> transcript_entry list" where
  "transcript round1 s =
     map (\<lambda>x. \<lparr>te_index = as_index x, te_kind = step_kind_value (as_kind x), te_tool = as_tool x,
               te_outcome = map_option (\<lambda>r. tool_outcome_value (tres_outcome r)) (as_result x),
               te_duration_ms = round1 (as_duration_ms x)\<rparr>) (ag_steps s)"

subsection \<open>The loop\<close>

record agent_decision =
  ad_reasoning :: pystr
  ad_tool :: "pystr option"
  ad_tool_params :: attrs
  ad_final_answer :: "pystr option"

record agent_outcome =
  ao_run_id :: pystr
  ao_question :: pystr
  ao_answer :: pystr
  ao_completed :: bool
  ao_steps :: "transcript_entry list"
  ao_tool_calls :: int
  ao_stop_reason :: pystr

definition BUDGET_ANSWER :: pystr where
  "BUDGET_ANSWER = str ''I could not finish looking into that within the allowed number of steps.''"

definition PROVIDER_ANSWER :: pystr where
  "PROVIDER_ANSWER = str ''I could not complete that request because a service was unavailable.''"

record ('p, 'w) agent_loop =
  al_registry :: "('p, 'w) tool_registry"
  al_executor :: "('p, 'w) executor"
  al_provider :: "('w, agent_decision) provider"
  al_budget :: "agent_budget option"
  al_system :: pystr
  al_clock :: "'w \<Rightarrow> rat"
  al_render :: "pyval \<Rightarrow> pystr"
  al_round1 :: "rat \<Rightarrow> rat"

definition newline :: pystr where
  "newline = [10]"

definition render_prompt :: "('p, 'w) agent_loop \<Rightarrow> agent_state \<Rightarrow> pystr" where
  "render_prompt al s =
     (let tools = join newline
            (map (\<lambda>t. str ''- '' @ tl_name t @ str '': '' @ tl_description t @ newline @
                  str ''  parameters: '' @ al_render al (tl_schema t)) (tools_in_order (al_registry al)));
          observations = join newline
            (concat (map (\<lambda>x. case as_result x of
                None \<Rightarrow> []
              | Some r \<Rightarrow>
                  [str ''['' @ show_int (as_index x) @ str ''] '' @
                   (case as_tool x of None \<Rightarrow> str ''None'' | Some t \<Rightarrow> t) @ str '' -> '' @
                   tool_outcome_value (tres_outcome r) @ str '': '' @
                   (if tres_ok r then al_render al (tres_output r)
                    else case tres_error r of None \<Rightarrow> str ''None'' | Some e \<Rightarrow> e)]) (ag_steps s)))
      in join (newline @ newline)
           ([str ''Tools:'' @ newline @ tools] @
            (if observations = [] then [] else [str ''What you have already learned:'' @ newline @ observations]) @
            [str ''Question: '' @ ag_question s,
             str ''Steps remaining: '' @ show_int (remaining_steps s) @ str ''. Tool calls remaining: '' @
             show_int (remaining_tool_calls s) @ str ''.'']))"

definition agent_decide :: "('p, 'w) agent_loop \<Rightarrow> agent_state \<Rightarrow> 'w \<Rightarrow> agent_decision result \<times> 'w" where
  "agent_decide al s w =
     al_provider al \<lparr>lp_system = al_system al, lp_user = render_prompt al s\<rparr> w"

definition agent_finish ::
  "('p, 'w) agent_loop \<Rightarrow> agent_state \<Rightarrow> pystr \<Rightarrow> bool \<Rightarrow> pystr \<Rightarrow> agent_outcome" where
  "agent_finish al s answer completed stop_reason =
     \<lparr>ao_run_id = ag_run_id s, ao_question = ag_question s, ao_answer = answer, ao_completed = completed,
      ao_steps = transcript (al_round1 al) s, ao_tool_calls = tool_calls s, ao_stop_reason = stop_reason\<rparr>"

text \<open>\<open>except LLMError\<close>\<close>

fun llm_error :: "exn \<Rightarrow> bool" where
  "llm_error (App e) = issubclass (ae_class e) LLMError"
| "llm_error _ = False"

text \<open>
  The body of \<open>while True\<close>. A result carries the final state too, so that what the run spent
  can be read off it.
\<close>

lemma remaining_append:
  assumes "remaining_steps s \<noteq> 0"
  shows "0 < remaining_steps s" "remaining_steps (append_step x s) < remaining_steps s"
  using assms by (simp_all add: remaining_steps_def step_count_def append_step_def)

function agent_run_loop ::
  "('p, 'w) agent_loop \<Rightarrow> agent_state \<Rightarrow> 'w \<Rightarrow> (agent_outcome result \<times> agent_state) \<times> 'w" where
  "agent_run_loop al s w =
     (case budget_exhausted s of
        Some reason \<Rightarrow> ((Inr (agent_finish al s BUDGET_ANSWER False reason), s), w)
      | None \<Rightarrow>
          (let started = al_clock al w in
           case agent_decide al s w of
             (Inl e, w1) \<Rightarrow>
               (if llm_error e then
                  ((Inr (agent_finish al s PROVIDER_ANSWER False (str ''provider_unavailable'')), s), w1)
                else ((Inl e, s), w1))
           | (Inr decision, w1) \<Rightarrow>
               (let elapsed = (al_clock al w1 - started) * 1000 in
                case ad_tool decision of
                  None \<Rightarrow>
                    (let s1 = record_answer None elapsed s;
                         answer = (case ad_final_answer decision of None \<Rightarrow> BUDGET_ANSWER
                                   | Some a \<Rightarrow> if a = [] then BUDGET_ANSWER else a)
                     in ((Inr (agent_finish al s1 answer True (str ''answered'')), s1), w1))
                | Some t \<Rightarrow>
                    (case execute_tool (al_executor al) t (Some (ad_tool_params decision)) w1 of
                       (r, w2) \<Rightarrow> agent_run_loop al (record_tool_call t r None s) w2))))"
  by pat_completeness auto
termination
  by (relation "measure (\<lambda>(al, s, w). nat (remaining_steps s))")
    (auto simp: record_tool_call_def budget_exhausted_def remaining_append split: if_splits)

declare agent_run_loop.simps [simp del]

definition agent_run ::
  "('p, 'w) agent_loop \<Rightarrow> pystr \<Rightarrow> pystr \<Rightarrow> 'w \<Rightarrow> (agent_outcome result \<times> agent_state) \<times> 'w" where
  "agent_run al run_id question w = agent_run_loop al (AgentState run_id question (al_budget al)) w"

subsection \<open>The ledger's invariant\<close>

definition ledger_ok :: "agent_state \<Rightarrow> bool" where
  "ledger_ok s \<longleftrightarrow>
     map as_index (ag_steps s) = map int [0..<length (ag_steps s)] \<and>
     lu_input (ag_usage s) = sum_list (map (\<lambda>x. lu_input (as_usage x)) (ag_steps s)) \<and>
     lu_output (ag_usage s) = sum_list (map (\<lambda>x. lu_output (as_usage x)) (ag_steps s)) \<and>
     step_count s \<le> max 0 (ab_max_steps (ag_budget s)) \<and>
     tool_calls s \<le> max 0 (ab_max_tool_calls (ag_budget s))"

lemma ledger_ok_init [invs]: "ledger_ok (AgentState i q b)"
  by (simp add: ledger_ok_def AgentState_def zero_usage_def step_count_def tool_calls_def)

lemma ledger_ok_append:
  assumes "ledger_ok s" "as_index x = step_count s" "budget_exhausted s = None"
  shows "ledger_ok (append_step x s)"
  using assms
  by (auto simp: ledger_ok_def append_step_def step_count_def tool_calls_def budget_exhausted_def
      remaining_steps_def remaining_tool_calls_def split: if_splits)

lemma record_ok [invs]:
  "ledger_ok s \<Longrightarrow> budget_exhausted s = None \<Longrightarrow> ledger_ok (record_tool_call t r u s)"
  "ledger_ok s \<Longrightarrow> budget_exhausted s = None \<Longrightarrow> ledger_ok (record_answer u d s)"
  by (simp_all add: record_tool_call_def record_answer_def ledger_ok_append)

lemma append_budget [simp]: "ag_budget (append_step x s) = ag_budget s"
  by (simp add: append_step_def)

definition well_ended :: "agent_outcome \<Rightarrow> agent_state \<Rightarrow> bool" where
  "well_ended out s \<longleftrightarrow>
     (ao_completed out \<longleftrightarrow> ag_steps s \<noteq> [] \<and> as_kind (last (ag_steps s)) = Answer) \<and>
     (ao_completed out \<longleftrightarrow> ao_stop_reason out = str ''answered'') \<and>
     (\<not> ao_completed out \<longrightarrow> ao_answer out = BUDGET_ANSWER \<or> ao_answer out = PROVIDER_ANSWER) \<and>
     ao_answer out \<noteq> []"

definition only_tool_steps :: "agent_state \<Rightarrow> bool" where
  "only_tool_steps s \<longleftrightarrow> (\<forall>x \<in> set (ag_steps s). as_kind x = Tool_Call \<and> as_usage x = zero_usage)"

lemma exhausted_reason:
  "budget_exhausted s = Some reason \<Longrightarrow> reason \<noteq> str ''answered''"
proof -
  assume "budget_exhausted s = Some reason"
  then have "hd reason \<noteq> 97"
    by (auto simp: budget_exhausted_def str_def split: if_splits)
  then show ?thesis by (auto simp: str_def)
qed

lemma answers_ne [simp]: "BUDGET_ANSWER \<noteq> []" "PROVIDER_ANSWER \<noteq> []"
  by (simp_all add: BUDGET_ANSWER_def PROVIDER_ANSWER_def)

lemma tool_step_kinds: "only_tool_steps s \<Longrightarrow> ag_steps s \<noteq> [] \<Longrightarrow> as_kind (last (ag_steps s)) = Tool_Call"
  by (simp add: only_tool_steps_def)

lemma agent_run_loop_ledger:
  "ledger_ok s \<Longrightarrow> agent_run_loop al s w = ((r, s'), w') \<Longrightarrow> ledger_ok s' \<and> ag_budget s' = ag_budget s"
proof (induction al s w rule: agent_run_loop.induct)
  case (1 al s w)
  show ?case
  proof (cases "budget_exhausted s")
    case None
    note ex = None
    obtain d w1 where d: "agent_decide al s w = (d, w1)" by force
    show ?thesis
    proof (cases d)
      case (Inl e)
      with "1.prems" show ?thesis
        by (subst (asm) agent_run_loop.simps) (auto simp: ex d Let_def split: if_splits)
    next
      case (Inr dec)
      show ?thesis
      proof (cases "ad_tool dec")
        case None
        with "1.prems" show ?thesis
          by (subst (asm) agent_run_loop.simps)
            (auto simp: ex d Inr Let_def record_answer_def intro!: ledger_ok_append)
      next
        case (Some t)
        obtain tr w2 where x: "execute_tool (al_executor al) t (Some (ad_tool_params dec)) w1 = (tr, w2)" by force
        from "1.prems"(2) have "agent_run_loop al (record_tool_call t tr None s) w2 = ((r, s'), w')"
          by (subst (asm) agent_run_loop.simps) (simp add: ex d Inr Some x Let_def)
        from "1.IH" [OF ex refl d [symmetric] _ refl Some x [symmetric] record_ok(1) [OF "1.prems"(1) ex] this] Inr
        show ?thesis by (simp add: record_tool_call_def)
      qed
    qed
  qed (use "1.prems" in \<open>simp add: agent_run_loop.simps\<close>)
qed

lemma record_tool_only: "only_tool_steps s \<Longrightarrow> only_tool_steps (record_tool_call t r None s)"
  by (simp add: only_tool_steps_def record_tool_call_def append_step_def)

definition zero_cost :: "agent_state \<Rightarrow> bool" where
  "zero_cost s \<longleftrightarrow> (\<forall>x \<in> set (ag_steps s). as_usage x = zero_usage)"

lemma finish_simps [simp]:
  "ao_answer (agent_finish al s a c r) = a" "ao_completed (agent_finish al s a c r) = c"
  "ao_stop_reason (agent_finish al s a c r) = r" "ao_tool_calls (agent_finish al s a c r) = tool_calls s"
  "ao_steps (agent_finish al s a c r) = transcript (al_round1 al) s"
  by (simp_all add: agent_finish_def)

lemma agent_run_loop_ends:
  "only_tool_steps s \<Longrightarrow> agent_run_loop al s w = ((Inr out, s'), w') \<Longrightarrow>
   well_ended out s' \<and> zero_cost s' \<and> ao_tool_calls out = tool_calls s'"
proof (induction al s w rule: agent_run_loop.induct)
  case (1 al s w)
  have only: "zero_cost s" "\<not> (ag_steps s \<noteq> [] \<and> as_kind (last (ag_steps s)) = Answer)"
    using "1.prems"(1) tool_step_kinds [of s] by (auto simp: zero_cost_def only_tool_steps_def)
  show ?case
  proof (cases "budget_exhausted s")
    case (Some reason)
    with "1.prems"(2) have "out = agent_finish al s BUDGET_ANSWER False reason" "s' = s"
      by (auto simp: agent_run_loop.simps [of al s w])
    with only exhausted_reason [OF Some] show ?thesis by (simp add: well_ended_def)
  next
    case None
    note ex = None
    obtain d w1 where d: "agent_decide al s w = (d, w1)" by force
    show ?thesis
    proof (cases d)
      case (Inl e)
      with "1.prems"(2) have "out = agent_finish al s PROVIDER_ANSWER False (str ''provider_unavailable'')" "s' = s"
        by (auto simp: agent_run_loop.simps [of al s w] ex d split: if_splits)
      with only show ?thesis by (simp add: well_ended_def)
    next
      case (Inr dec)
      show ?thesis
      proof (cases "ad_tool dec")
        case None
        with "1.prems"(2) obtain a t where
          "out = agent_finish al s' a True (str ''answered'')" "a \<noteq> []" "s' = record_answer None t s"
          by (auto simp: agent_run_loop.simps [of al s w] ex d Inr Let_def split: option.splits if_splits)
        with only(1) show ?thesis
          by (auto simp: well_ended_def record_answer_def append_step_def zero_cost_def)
      next
        case (Some t)
        obtain tr w2 where x: "execute_tool (al_executor al) t (Some (ad_tool_params dec)) w1 = (tr, w2)" by force
        from "1.prems"(2) have "agent_run_loop al (record_tool_call t tr None s) w2 = ((Inr out, s'), w')"
          by (subst (asm) agent_run_loop.simps) (simp add: ex d Inr Some x Let_def)
        from "1.IH" [OF ex refl d [symmetric] _ refl Some x [symmetric] record_tool_only [OF "1.prems"(1)] this] Inr
        show ?thesis by simp
      qed
    qed
  qed
qed

lemma agent_run_loop_returns:
  assumes "\<And>p w e. fst (al_provider al p w) = Inl e \<Longrightarrow> llm_error e"
  shows "\<exists>out. fst (fst (agent_run_loop al s w)) = Inr out"
  using assms
proof (induction al s w rule: agent_run_loop.induct)
  case (1 al s w)
  show ?case
  proof (cases "budget_exhausted s")
    case (Some reason)
    then show ?thesis by (simp add: agent_run_loop.simps [of al s w])
  next
    case None
    note ex = None
    obtain d w1 where d: "agent_decide al s w = (d, w1)" by force
    show ?thesis
    proof (cases d)
      case (Inl e)
      with d have "llm_error e" using "1.prems" unfolding agent_decide_def by (metis fst_conv)
      with Inl show ?thesis by (simp add: agent_run_loop.simps [of al s w] ex d)
    next
      case (Inr dec)
      show ?thesis
      proof (cases "ad_tool dec")
        case None
        with Inr show ?thesis by (simp add: agent_run_loop.simps [of al s w] ex d Let_def)
      next
        case (Some t)
        obtain tr w2 where x: "execute_tool (al_executor al) t (Some (ad_tool_params dec)) w1 = (tr, w2)" by force
        from "1.IH" [OF ex refl d [symmetric] _ refl Some x [symmetric] "1.prems"] Inr
        have "\<exists>out. fst (fst (agent_run_loop al (record_tool_call t tr None s) w2)) = Inr out" by simp
        with Inr Some show ?thesis by (simp add: agent_run_loop.simps [of al s w] ex d x Let_def)
      qed
    qed
  qed
qed

subsection \<open>Properties\<close>

text \<open>
  C24: An agent run always ends, inside its budget. When the provider fails only with
  \<open>LLMError\<close>, whatever it decides and whatever the tools do, the run returns an outcome; it
  has recorded at most the allowed steps and called at most the allowed tools, its steps are
  numbered consecutively, and its answer is not empty.
\<close>

theorem agent_run_ends_within_budget:
  assumes "\<And>p w e. fst (al_provider al p w) = Inl e \<Longrightarrow> llm_error e"
    and "al_budget al = Some b" "budget_ok b"
  shows "\<exists>out s w'. agent_run al run_id question w = ((Inr out, s), w') \<and>
    step_count s \<le> ab_max_steps b \<and> ao_tool_calls out \<le> ab_max_tool_calls b \<and>
    map as_index (ag_steps s) = map int [0..<length (ag_steps s)] \<and> ao_answer out \<noteq> []"
proof -
  let ?s0 = "AgentState run_id question (al_budget al)"
  obtain r s w' where run: "agent_run_loop al ?s0 w = ((r, s), w')" by (metis prod.collapse)
  have "\<exists>out. fst (fst (agent_run_loop al ?s0 w)) = Inr out"
    using assms(1) by (rule agent_run_loop_returns)
  with run obtain out where r: "r = Inr out" by auto
  have "only_tool_steps ?s0" by (simp add: only_tool_steps_def AgentState_def)
  from agent_run_loop_ends [OF this run [unfolded r]] have "ao_answer out \<noteq> []" "ao_tool_calls out = tool_calls s"
    by (auto simp: well_ended_def)
  moreover from agent_run_loop_ledger [OF ledger_ok_init run] have "ledger_ok s" "ag_budget s = b"
    by (auto simp: AgentState_def assms(2))
  ultimately show ?thesis
    using assms(3) run r by (auto simp: agent_run_def ledger_ok_def budget_ok_def)
qed

text \<open>A provider that always asks for the sample tool, under a budget of two steps.\<close>

definition sample_loop :: "(attrs, rat) agent_loop" where
  "sample_loop =
     \<lparr>al_registry = ex_registry sample_executor, al_executor = sample_executor,
      al_provider = (\<lambda>_ w. (Inr \<lparr>ad_reasoning = [], ad_tool = Some (str ''lookup_ticket''),
                             ad_tool_params = [], ad_final_answer = None\<rparr>, w + 1)),
      al_budget = Some \<lparr>ab_max_steps = 2, ab_max_tool_calls = 8\<rparr>, al_system = [], al_clock = (\<lambda>w. w),
      al_render = (\<lambda>_. []), al_round1 = (\<lambda>r. r)\<rparr>"

lemma agent_run_ends_within_budget_witness:
  "\<exists>out s w'. agent_run sample_loop [] (str ''q'') 0 = ((Inr out, s), w') \<and> step_count s \<le> 2"
proof -
  have b: "al_budget sample_loop = Some \<lparr>ab_max_steps = 2, ab_max_tool_calls = 8\<rparr>"
    by (simp add: sample_loop_def)
  have "llm_error e" if "fst (al_provider sample_loop p w) = Inl e" for p w e
    using that by (simp add: sample_loop_def)
  from agent_run_ends_within_budget [where al = sample_loop and run_id = "[]" and question = "str ''q''" and w = 0,
      OF this b] show ?thesis
    by (force simp: budget_ok_def)
qed

text \<open>
  A run reports itself truthfully. It is completed exactly when its last step is the
  model's answer and its stop reason says so; otherwise its answer is one of the two fixed
  apologies, never text of the model or of a tool.
\<close>

theorem agent_outcome_truthful:
  assumes "agent_run al run_id question w = ((Inr out, s), w')"
  shows "(ao_completed out \<longleftrightarrow> ag_steps s \<noteq> [] \<and> as_kind (last (ag_steps s)) = Answer) \<and>
    (ao_completed out \<longleftrightarrow> ao_stop_reason out = str ''answered'') \<and>
    (\<not> ao_completed out \<longrightarrow> ao_answer out = BUDGET_ANSWER \<or> ao_answer out = PROVIDER_ANSWER)"
proof -
  have "only_tool_steps (AgentState run_id question (al_budget al))"
    by (simp add: only_tool_steps_def AgentState_def)
  from agent_run_loop_ends [OF this assms [unfolded agent_run_def]] show ?thesis
    unfolding well_ended_def by blast
qed

text \<open>
  The ledger of a run never shows a cost. The loop records every step without the usage
  the provider reported, so the tokens of a finished run are zero, whatever was spent.
\<close>

theorem agent_usage_is_never_recorded:
  assumes "agent_run al run_id question w = ((Inr out, s), w')"
  shows "ag_usage s = zero_usage"
proof -
  let ?s0 = "AgentState run_id question (al_budget al)"
  have "only_tool_steps ?s0" by (simp add: only_tool_steps_def AgentState_def)
  from agent_run_loop_ends [OF this assms [unfolded agent_run_def]] have "zero_cost s" by simp
  then have "sum_list (map (\<lambda>x. lu_input (as_usage x)) (ag_steps s)) = 0"
    "sum_list (map (\<lambda>x. lu_output (as_usage x)) (ag_steps s)) = 0"
    by (auto simp: zero_cost_def zero_usage_def intro!: sum_list_map_zero)
  moreover have "ledger_ok s"
    using agent_run_loop_ledger [OF ledger_ok_init assms [unfolded agent_run_def]] by simp
  ultimately show ?thesis by (simp add: ledger_ok_def zero_usage_def)
qed

lemma sample_run: "\<exists>out s w'. agent_run sample_loop [] (str ''q'') 0 = ((Inr out, s), w')"
proof -
  have "llm_error e" if "fst (al_provider sample_loop p w) = Inl e" for p w e
    using that by (simp add: sample_loop_def)
  then have "\<exists>out. fst (fst (agent_run sample_loop [] (str ''q'') 0)) = Inr out"
    unfolding agent_run_def by (rule agent_run_loop_returns)
  then show ?thesis by (cases "agent_run sample_loop [] (str ''q'') 0") auto
qed

lemma agent_outcome_truthful_witness:
  "\<exists>out s w'. agent_run sample_loop [] (str ''q'') 0 = ((Inr out, s), w') \<and>
    (ao_completed out \<longleftrightarrow> ao_stop_reason out = str ''answered'')"
proof -
  from sample_run obtain out s w' where run: "agent_run sample_loop [] (str ''q'') 0 = ((Inr out, s), w')" by blast
  from agent_outcome_truthful [OF run] run show ?thesis by blast
qed

lemma agent_usage_is_never_recorded_witness:
  "\<exists>out s w'. agent_run sample_loop [] (str ''q'') 0 = ((Inr out, s), w') \<and> ag_usage s = zero_usage"
proof -
  from sample_run obtain out s w' where run: "agent_run sample_loop [] (str ''q'') 0 = ((Inr out, s), w')" by blast
  from agent_usage_is_never_recorded [OF run] run show ?thesis by blast
qed

end
