(* ===== verification/Workflows.thy ===== *)
theory Workflows
  imports Tools
begin

text \<open>
  \<open>workflows/\<close>: the definition format of \<open>definition.py\<close> with its validators and the two
  regular expressions, the runner of \<open>execution.py\<close> over the tool executor, and the library of
  three workflows. A parameter dictionary and the outputs of a run are association lists.
\<close>

subsection \<open>The two patterns\<close>

text \<open>
  \<open>NAME_PATTERN.match\<close>: the dollar sign also matches before a final newline. The reference
  pattern has no choice to make, since each part stops at a character the next cannot start
  with, so matching is a scan; it returns group 1.
\<close>

definition name_char :: "nat \<Rightarrow> bool" where
  "name_char c \<longleftrightarrow> islower_ascii c \<or> isdigit c \<or> c = 95"

definition ident :: "pystr \<Rightarrow> bool" where
  "ident s \<longleftrightarrow> s \<noteq> [] \<and> islower_ascii (hd s) \<and> list_all name_char s"

definition at_end :: "pystr \<Rightarrow> bool" where
  "at_end s \<longleftrightarrow> s = [] \<or> s = [10]"

definition name_match :: "pystr \<Rightarrow> bool" where
  "name_match s \<longleftrightarrow> ident (takeWhile name_char s) \<and> at_end (dropWhile name_char s)"

definition after :: "string \<Rightarrow> pystr \<Rightarrow> pystr option" where
  "after p s = (if prefix (str p) s then Some (drop (length p) s) else None)"

definition reference_match :: "pystr \<Rightarrow> pystr option" where
  "reference_match s =
     (case after ''{{'' s of None \<Rightarrow> None | Some s1 \<Rightarrow>
      case after ''steps.'' (lstrip s1) of None \<Rightarrow> None | Some s2 \<Rightarrow>
      let name = takeWhile name_char s2 in
      if \<not> ident name then None
      else case after ''.output'' (dropWhile name_char s2) of None \<Rightarrow> None | Some s3 \<Rightarrow>
      case after ''}}'' (lstrip s3) of None \<Rightarrow> None | Some s4 \<Rightarrow>
      if at_end s4 then Some name else None)"

definition reference_to :: "pystr \<Rightarrow> pystr" where
  "reference_to step_id = str ''{{ steps.'' @ step_id @ str ''.output }}''"

definition referenced_step :: "pyval \<Rightarrow> pystr option" where
  "referenced_step value = (case value of PStr s \<Rightarrow> reference_match s | _ \<Rightarrow> None)"

subsection \<open>Definitions of workflows\<close>

definition MAX_STEPS :: nat where
  "MAX_STEPS = 20"

record workflow_step =
  ws_id :: pystr
  ws_tool :: pystr
  ws_params :: attrs
  ws_optional :: bool

text \<open>What pydantic reports for a \<open>ValueError\<close> of a model validator.\<close>

definition value_error :: "pystr \<Rightarrow> 'a result" where
  "value_error msg = Inl (ValidationError [([], str ''Value error, '' @ msg)])"

definition WorkflowStep :: "pystr \<Rightarrow> pystr \<Rightarrow> attrs \<Rightarrow> bool \<Rightarrow> workflow_step result" where
  "WorkflowStep i t params optional =
     (if \<not> name_match i then
        value_error (str ''Step id '' @ repr_str i @ str '' must be lowercase alphanumeric with underscores.'')
      else if \<not> name_match t then
        value_error (str ''Tool name '' @ repr_str t @ str '' is not a valid tool name.'')
      else Inr \<lparr>ws_id = i, ws_tool = t, ws_params = params, ws_optional = optional\<rparr>)"

definition references :: "workflow_step \<Rightarrow> pystr set" where
  "references s = set (concat (map (\<lambda>(_, v). case referenced_step v of None \<Rightarrow> [] | Some r \<Rightarrow> [r]) (ws_params s)))"

record workflow =
  wf_name :: pystr
  wf_description :: pystr
  wf_inputs :: "pystr list"
  wf_steps :: "workflow_step list"

definition show_names :: "pystr list \<Rightarrow> pystr" where
  "show_names ns = str ''['' @ join (str '', '') (map repr_str ns) @ str '']''"

fun check_inputs :: "pystr list \<Rightarrow> unit result" where
  "check_inputs [] = Inr ()"
| "check_inputs (n # ns) =
     (if \<not> name_match n then
        value_error (str ''Input name '' @ repr_str n @ str '' must be a valid identifier.'')
      else check_inputs ns)"

fun check_steps :: "pystr set \<Rightarrow> workflow_step list \<Rightarrow> unit result" where
  "check_steps seen [] = Inr ()"
| "check_steps seen (s # ss) =
     (if ws_id s \<in> seen then
        value_error (str ''Duplicate step id '' @ repr_str (ws_id s) @ str ''.'')
      else if references s - seen \<noteq> {} then
        value_error (str ''Step '' @ repr_str (ws_id s) @ str '' references '' @
          show_names (sorted_list_of_set (references s - seen)) @ str '', which do not appear before it.'')
      else check_steps (insert (ws_id s) seen) ss)"

definition Workflow :: "pystr \<Rightarrow> pystr \<Rightarrow> pystr list \<Rightarrow> workflow_step list \<Rightarrow> workflow result" where
  "Workflow name description inputs steps =
     (let bad = map (\<lambda>(n, m, _). ([str n], str m)) (filter (\<lambda>(_, _, b). b)
        [(''description'', ''String should have at least 1 character'', description = []),
         (''steps'', ''List should have at least 1 item after validation, not 0'', steps = []),
         (''steps'', ''List should have at most 20 items after validation'', MAX_STEPS < length steps)])
      in if bad \<noteq> [] then Inl (ValidationError bad)
         else if \<not> name_match name then
           value_error (str ''Workflow name '' @ repr_str name @ str '' must be a valid identifier.'')
         else case check_inputs inputs of
           Inl e \<Rightarrow> Inl e
         | Inr _ \<Rightarrow>
             (case check_steps (set inputs) steps of
                Inl e \<Rightarrow> Inl e
              | Inr _ \<Rightarrow> Inr \<lparr>wf_name = name, wf_description = description, wf_inputs = inputs, wf_steps = steps\<rparr>))"

definition step_ids :: "workflow \<Rightarrow> pystr list" where
  "step_ids flow = map ws_id (wf_steps flow)"

definition workflow_tools :: "workflow \<Rightarrow> pystr list" where
  "workflow_tools flow = first_seen [] (map ws_tool (wf_steps flow))"

subsection \<open>Running a workflow\<close>

record step_record =
  sr_id :: pystr
  sr_tool :: pystr
  sr_outcome :: tool_outcome
  sr_skipped :: bool
  sr_error :: "pystr option"
  sr_duration_ms :: rat

record workflow_run =
  wr_run_id :: pystr
  wr_workflow :: pystr
  wr_completed :: bool
  wr_steps :: "step_record list"
  wr_failed_step :: "pystr option"
  wr_duration_ms :: rat

definition resolve_params :: "workflow_step \<Rightarrow> attrs \<Rightarrow> attrs" where
  "resolve_params s outputs =
     map (\<lambda>(key, value).
       (key, case referenced_step value of
               None \<Rightarrow> value
             | Some source \<Rightarrow> (case map_of outputs source of None \<Rightarrow> PNone | Some v \<Rightarrow> v)))
       (ws_params s)"

definition step_record_of :: "workflow_step \<Rightarrow> tool_result \<Rightarrow> step_record" where
  "step_record_of s r =
     \<lparr>sr_id = ws_id s, sr_tool = ws_tool s, sr_outcome = tres_outcome r, sr_skipped = False,
      sr_error = tres_error r, sr_duration_ms = tres_duration_ms r\<rparr>"

fun run_steps ::
  "('p, 'w) executor \<Rightarrow> workflow_step list \<Rightarrow> attrs \<Rightarrow> step_record list \<Rightarrow> 'w \<Rightarrow>
   (step_record list \<times> pystr option \<times> attrs) \<times> 'w" where
  "run_steps ex [] outputs records w = ((records, None, outputs), w)"
| "run_steps ex (s # ss) outputs records w =
     (case execute_tool ex (ws_tool s) (Some (resolve_params s outputs)) w of
        (r, w1) \<Rightarrow>
          (let records1 = records @ [step_record_of s r] in
           if tres_ok r then run_steps ex ss (AList.update (ws_id s) (tres_output r) outputs) records1 w1
           else if ws_optional s then run_steps ex ss outputs records1 w1
           else ((records1, Some (ws_id s), outputs), w1)))"

definition finish_run ::
  "('p, 'w) executor \<Rightarrow> pystr \<Rightarrow> workflow \<Rightarrow> step_record list \<Rightarrow> pystr option \<Rightarrow> rat \<Rightarrow> 'w \<Rightarrow> workflow_run" where
  "finish_run ex run_id flow records failed started w =
     \<lparr>wr_run_id = run_id, wr_workflow = wf_name flow, wr_completed = (failed = None), wr_steps = records,
      wr_failed_step = failed, wr_duration_ms = (ex_clock ex w - started) * 1000\<rparr>"

definition run_workflow ::
  "('p, 'w) executor \<Rightarrow> pystr \<Rightarrow> workflow \<Rightarrow> attrs option \<Rightarrow> 'w \<Rightarrow> (workflow_run \<times> attrs) \<times> 'w" where
  "run_workflow ex run_id flow inputs w =
     (let started = ex_clock ex w in
      case run_steps ex (wf_steps flow) (case inputs of None \<Rightarrow> [] | Some d \<Rightarrow> d) [] w of
        ((records, failed, outputs), w1) \<Rightarrow>
          ((finish_run ex run_id flow records failed started w1, outputs), w1))"

fun unresolved_loop :: "workflow_step list \<Rightarrow> pystr set \<Rightarrow> pystr set \<Rightarrow> pystr set" where
  "unresolved_loop [] produced missing = missing"
| "unresolved_loop (s # ss) produced missing =
     unresolved_loop ss (insert (ws_id s) produced) (missing \<union> (references s - produced))"

definition unresolved_references :: "workflow \<Rightarrow> pystr set \<Rightarrow> pystr set" where
  "unresolved_references flow available = unresolved_loop (wf_steps flow) available {}"

subsection \<open>The library\<close>

definition step :: "string \<Rightarrow> string \<Rightarrow> attrs \<Rightarrow> bool \<Rightarrow> workflow_step" where
  "step i t params optional =
     \<lparr>ws_id = str i, ws_tool = str t, ws_params = params, ws_optional = optional\<rparr>"

definition TICKET_CONTEXT :: workflow where
  "TICKET_CONTEXT =
     \<lparr>wf_name = str ''ticket_context'',
      wf_description = str ''Gather everything known about one ticket: the ticket itself, plus documentation relevant to what the customer wrote.'',
      wf_inputs = [str ''ticket_id''],
      wf_steps =
        [step ''ticket'' ''lookup_ticket'' [(str ''ticket_id'', PStr (reference_to (str ''ticket_id'')))] False,
         step ''recent'' ''list_tickets'' [(str ''limit'', PInt 5)] True]\<rparr>"

definition KNOWLEDGE_LOOKUP :: workflow where
  "KNOWLEDGE_LOOKUP =
     \<lparr>wf_name = str ''knowledge_lookup'',
      wf_description = str ''Find documentation passages relevant to a customer question.'',
      wf_inputs = [str ''question''],
      wf_steps =
        [step ''passages'' ''search_knowledge_base''
           [(str ''query'', PStr (reference_to (str ''question''))), (str ''top_k'', PInt 4)] False]\<rparr>"

definition OPEN_TICKET_REVIEW :: workflow where
  "OPEN_TICKET_REVIEW =
     \<lparr>wf_name = str ''open_ticket_review'',
      wf_description = str ''List the tickets currently awaiting attention.'',
      wf_inputs = [],
      wf_steps =
        [step ''open'' ''list_tickets'' [(str ''status'', PStr (str ''open'')), (str ''limit'', PInt 20)] False]\<rparr>"

definition WORKFLOWS :: "workflow list" where
  "WORKFLOWS = [TICKET_CONTEXT, KNOWLEDGE_LOOKUP, OPEN_TICKET_REVIEW]"

definition workflow_names :: "pystr list" where
  "workflow_names = sort (map wf_name WORKFLOWS)"

fun find_workflow :: "workflow list \<Rightarrow> pystr \<Rightarrow> workflow option" where
  "find_workflow [] n = None"
| "find_workflow (flow # flows) n = (if wf_name flow = n then Some flow else find_workflow flows n)"

definition get_workflow :: "pystr \<Rightarrow> workflow result" where
  "get_workflow n =
     (case find_workflow WORKFLOWS n of
        Some flow \<Rightarrow> Inr flow
      | None \<Rightarrow> raise_app WorkflowNotFoundError None (Some [(str ''workflow'', PStr n)]))"

definition describe_workflow :: "workflow \<Rightarrow> attrs" where
  "describe_workflow flow =
     [(str ''name'', PStr (wf_name flow)), (str ''description'', PStr (wf_description flow)),
      (str ''inputs'', PList (map PStr (wf_inputs flow))), (str ''steps'', PList (map PStr (step_ids flow))),
      (str ''tools'', PList (map PStr (workflow_tools flow)))]"

definition describe_workflows :: "attrs list" where
  "describe_workflows = map describe_workflow (sort_key wf_name WORKFLOWS)"

subsection \<open>Lemmas on the patterns\<close>

lemma after_Some: "after p s = Some t \<longleftrightarrow> s = str p @ t"
  by (auto simp: after_def prefix_def)

lemma lstrip_spaces: "\<forall>c \<in> set a. isspace c \<Longrightarrow> lstrip (a @ s) = lstrip s"
  by (simp add: lstrip_def dropWhile_append2)

lemma lstrip_nonspace: "\<not> isspace c \<Longrightarrow> lstrip (c # s) = c # s"
  by (simp add: lstrip_def)

lemma lstrip_split: obtains a where "s = a @ lstrip s" "\<forall>c \<in> set a. isspace c"
  using that [of "takeWhile isspace s"] by (auto simp: lstrip_def dest: set_takeWhileD)

lemma name_scan:
  assumes "list_all name_char n" "\<not> name_char c"
  shows "takeWhile name_char (n @ c # s) = n" "dropWhile name_char (n @ c # s) = c # s"
  using assms by (simp_all add: list_all_iff takeWhile_append2 dropWhile_append2)

lemma not_name_char: "\<not> name_char 46" "\<not> name_char 10"
  by (simp_all add: name_char_def islower_ascii_def isdigit_def)

lemma reference_parts:
  assumes "ident r" "\<forall>c \<in> set a. isspace c" "\<forall>c \<in> set b. isspace c" "at_end e"
  shows "reference_match (str ''{{'' @ a @ str ''steps.'' @ r @ str ''.output'' @ b @ str ''}}'' @ e) = Some r"
proof -
  have r: "list_all name_char r" using assms(1) by (simp add: ident_def)
  have steps: "lstrip (a @ str ''steps.'' @ t) = str ''steps.'' @ t" for t
    using assms(2) by (simp add: lstrip_spaces) (simp add: str_def lstrip_def isspace_def)
  have close: "lstrip (b @ str ''}}'' @ t) = str ''}}'' @ t" for t
    using assms(3) by (simp add: lstrip_spaces) (simp add: str_def lstrip_def isspace_def)
  have scan: "takeWhile name_char (r @ str ''.output'' @ t) = r"
    "dropWhile name_char (r @ str ''.output'' @ t) = str ''.output'' @ t" for t
    using name_scan [OF r not_name_char(1)] by (simp_all add: str_def)
  have after: "after p (str p @ t) = Some t" for p t by (simp add: after_Some)
  show ?thesis
    by (simp only: reference_match_def after option.case steps scan Let_def close assms(1,4) simp_thms if_True if_False)
qed

lemma reference_match_iff:
  "reference_match s = Some r \<longleftrightarrow>
   ident r \<and> (\<exists>a b e. s = str ''{{'' @ a @ str ''steps.'' @ r @ str ''.output'' @ b @ str ''}}'' @ e \<and>
     (\<forall>c \<in> set a. isspace c) \<and> (\<forall>c \<in> set b. isspace c) \<and> at_end e)"
proof
  assume "reference_match s = Some r"
  then obtain s1 s2 s3 s4 where
    s1: "after ''{{'' s = Some s1" and s2: "after ''steps.'' (lstrip s1) = Some s2" and
    r: "r = takeWhile name_char s2" "ident r" and s3: "after ''.output'' (dropWhile name_char s2) = Some s3" and
    s4: "after ''}}'' (lstrip s3) = Some s4" "at_end s4"
    by (auto simp: reference_match_def Let_def split: option.splits if_splits)
  obtain a where a: "s1 = a @ lstrip s1" "\<forall>c \<in> set a. isspace c" by (rule lstrip_split)
  obtain b where b: "s3 = b @ lstrip s3" "\<forall>c \<in> set b. isspace c" by (rule lstrip_split)
  have "s2 = r @ dropWhile name_char s2" by (simp add: r(1))
  with s1 s2 s3 s4(1) a(1) b(1)
  have "s = str ''{{'' @ a @ str ''steps.'' @ r @ str ''.output'' @ b @ str ''}}'' @ s4"
    unfolding after_Some by metis
  with r(2) a(2) b(2) s4(2) show "ident r \<and> (\<exists>a b e. s = str ''{{'' @ a @ str ''steps.'' @ r @
      str ''.output'' @ b @ str ''}}'' @ e \<and> (\<forall>c \<in> set a. isspace c) \<and> (\<forall>c \<in> set b. isspace c) \<and> at_end e)"
    by blast
qed (use reference_parts in blast)

lemma referenced_step_reference_to:
  assumes "ident i"
  shows "referenced_step (PStr (reference_to i)) = Some i"
proof -
  have "reference_to i = str ''{{'' @ [32] @ str ''steps.'' @ i @ str ''.output'' @ [32] @ str ''}}'' @ []"
    by (simp add: reference_to_def str_def)
  then show ?thesis
    using reference_parts [OF assms, of "[32]" "[32]" "[]"] by (simp add: referenced_step_def isspace_def at_end_def)
qed

subsection \<open>Lemmas on definitions and runs\<close>

lemma check_steps_ok:
  "check_steps seen ss = Inr () \<longleftrightarrow>
   distinct (map ws_id ss) \<and> set (map ws_id ss) \<inter> seen = {} \<and>
   (\<forall>i < length ss. references (ss ! i) \<subseteq> seen \<union> set (map ws_id (take i ss)))"
proof (induction ss arbitrary: seen)
  case (Cons s ss)
  have split: "(\<forall>i < length (s # ss). references ((s # ss) ! i) \<subseteq> seen \<union> set (map ws_id (take i (s # ss)))) \<longleftrightarrow>
      references s \<subseteq> seen \<and>
      (\<forall>i < length ss. references (ss ! i) \<subseteq> insert (ws_id s) seen \<union> set (map ws_id (take i ss)))"
    by (simp add: All_less_Suc2 del: set_map)
  show ?case unfolding split using Cons.IH [of "insert (ws_id s) seen"]
    by (auto simp: value_error_def)
qed simp

lemma Workflow_Inr:
  "Workflow n d i ss = Inr flow \<Longrightarrow>
   flow = \<lparr>wf_name = n, wf_description = d, wf_inputs = i, wf_steps = ss\<rparr> \<and> name_match n \<and> d \<noteq> [] \<and>
   ss \<noteq> [] \<and> length ss \<le> MAX_STEPS \<and> check_steps (set i) ss = Inr ()"
  by (auto simp: Workflow_def Let_def value_error_def split: if_splits sum.splits)

lemma unresolved_loop_eq:
  assumes "check_steps seen ss = Inr ()" "produced - avail \<subseteq> seen - inputs" "seen - inputs \<subseteq> produced"
    and "avail \<subseteq> produced" "inputs \<subseteq> seen"
  shows "unresolved_loop ss produced missing = missing \<union> ((\<Union>s \<in> set ss. references s) \<inter> inputs - avail)"
  using assms
proof (induction ss arbitrary: seen produced missing)
  case (Cons s ss)
  from Cons.prems(1) have s: "ws_id s \<notin> seen" "references s \<subseteq> seen"
    and rest: "check_steps (insert (ws_id s) seen) ss = Inr ()"
    by (auto simp: value_error_def split: if_splits)
  have "references s - produced = references s \<inter> inputs - avail"
    using s Cons.prems(2-5) by auto
  moreover have "unresolved_loop ss (insert (ws_id s) produced) (missing \<union> (references s - produced)) =
      missing \<union> (references s - produced) \<union> ((\<Union>s \<in> set ss. references s) \<inter> inputs - avail)"
    by (rule Cons.IH [OF rest]) (use s Cons.prems(2-5) in auto)
  ultimately show ?case by auto
qed simp

text \<open>What the records of a run say about the steps that ran.\<close>

definition tells :: "workflow_step \<Rightarrow> step_record \<Rightarrow> bool" where
  "tells s r \<longleftrightarrow> sr_id r = ws_id s \<and> sr_tool r = ws_tool s"

definition went_on :: "workflow_step \<Rightarrow> step_record \<Rightarrow> bool" where
  "went_on s r \<longleftrightarrow> tells s r \<and> (sr_outcome r = T_OK \<or> ws_optional s)"

definition produced_by :: "step_record list \<Rightarrow> pystr set" where
  "produced_by rs = set (map sr_id (filter (\<lambda>r. sr_outcome r = T_OK) rs))"

lemma step_record_of_simps [simp]:
  "sr_id (step_record_of s r) = ws_id s" "sr_tool (step_record_of s r) = ws_tool s"
  "(sr_outcome (step_record_of s r) = T_OK) = tres_ok r"
  by (simp_all add: step_record_of_def tres_ok_def)

lemma run_steps_shape:
  assumes "run_steps ex ss outs recs w = ((recs', failed, outs'), w')"
  shows "\<exists>new. recs' = recs @ new \<and>
    (case failed of
       None \<Rightarrow> list_all2 went_on ss new
     | Some i \<Rightarrow> \<exists>before s rest ran r. ss = before @ s # rest \<and> new = ran @ [r] \<and> list_all2 went_on before ran \<and>
         tells s r \<and> ws_id s = i \<and> sr_outcome r \<noteq> T_OK \<and> \<not> ws_optional s) \<and>
    set (map fst outs') = set (map fst outs) \<union> produced_by new"
  using assms
proof (induction ss arbitrary: outs recs w)
  case (Cons s ss)
  obtain r w1 where r: "execute_tool ex (ws_tool s) (Some (resolve_params s outs)) w = (r, w1)" by force
  let ?rec = "step_record_of s r"
  show ?case
  proof (cases "tres_ok r \<or> ws_optional s")
    case True
    define outs1 where "outs1 = (if tres_ok r then AList.update (ws_id s) (tres_output r) outs else outs)"
    from True Cons.prems have "run_steps ex ss outs1 (recs @ [?rec]) w1 = ((recs', failed, outs'), w')"
      by (auto simp: r outs1_def split: if_splits)
    from Cons.IH [OF this] obtain new where new: "recs' = (recs @ [?rec]) @ new"
      "case failed of
       None \<Rightarrow> list_all2 went_on ss new
     | Some i \<Rightarrow> \<exists>before s rest ran r. ss = before @ s # rest \<and> new = ran @ [r] \<and> list_all2 went_on before ran \<and>
         tells s r \<and> ws_id s = i \<and> sr_outcome r \<noteq> T_OK \<and> \<not> ws_optional s"
      "set (map fst outs') = set (map fst outs1) \<union> produced_by new" by blast
    have on: "went_on s ?rec" using True by (auto simp: went_on_def tells_def)
    have "set (map fst outs1) \<union> produced_by new = set (map fst outs) \<union> produced_by (?rec # new)"
      by (auto simp: outs1_def produced_by_def set_update_keys simp del: set_map)
    moreover have "case failed of
       None \<Rightarrow> list_all2 went_on (s # ss) (?rec # new)
     | Some i \<Rightarrow> \<exists>before t rest ran q. s # ss = before @ t # rest \<and> ?rec # new = ran @ [q] \<and>
         list_all2 went_on before ran \<and> tells t q \<and> ws_id t = i \<and> sr_outcome q \<noteq> T_OK \<and> \<not> ws_optional t"
    proof (cases failed)
      case (Some i)
      with new(2) obtain before t rest ran q where
        "ss = before @ t # rest" "new = ran @ [q]" "list_all2 went_on before ran"
        "tells t q \<and> ws_id t = i \<and> sr_outcome q \<noteq> T_OK \<and> \<not> ws_optional t" by auto
      with on have "s # ss = (s # before) @ t # rest \<and> ?rec # new = (?rec # ran) @ [q] \<and>
          list_all2 went_on (s # before) (?rec # ran) \<and> tells t q \<and> ws_id t = i \<and> sr_outcome q \<noteq> T_OK \<and>
          \<not> ws_optional t" by simp
      with Some show ?thesis by (simp only: option.case) blast
    qed (use new(2) on in simp)
    ultimately show ?thesis using new(1,3) by (intro exI [of _ "?rec # new"]) simp
  next
    case False
    with Cons.prems have "recs' = recs @ [?rec]" "failed = Some (ws_id s)" "outs' = outs"
      by (simp_all add: r)
    with False show ?thesis
      by (intro exI [of _ "[?rec]"])
        (auto simp: produced_by_def tells_def intro!: exI [of _ "[]"] exI [of _ s])
  qed
qed (simp add: produced_by_def)

subsection \<open>Properties\<close>

text \<open>
  The reference syntax has one reading. A parameter refers to step \<open>r\<close> exactly when it
  reads \<open>{{ steps.r.output }}\<close> with any white space inside the braces, \<open>r\<close> an identifier,
  and at most a newline behind it; and the reference built for an identifier refers to it.
\<close>

theorem reference_syntax:
  "(referenced_step (PStr s) = Some r \<longleftrightarrow> ident r \<and>
     (\<exists>a b e. s = str ''{{'' @ a @ str ''steps.'' @ r @ str ''.output'' @ b @ str ''}}'' @ e \<and>
        list_all isspace a \<and> list_all isspace b \<and> at_end e)) \<and>
   (referenced_step (PStr (reference_to r)) = Some r \<longleftrightarrow> ident r)"
proof -
  have form: "referenced_step (PStr s) = Some r \<longleftrightarrow> ident r \<and>
     (\<exists>a b e. s = str ''{{'' @ a @ str ''steps.'' @ r @ str ''.output'' @ b @ str ''}}'' @ e \<and>
        list_all isspace a \<and> list_all isspace b \<and> at_end e)" for s
    by (simp only: referenced_step_def pyval.case reference_match_iff list_all_iff)
  with referenced_step_reference_to show ?thesis by blast
qed

text \<open>
  C38: An accepted workflow is a sequence. Its step ids are distinct and none shadows an input,
  every reference of a step is an input or the id of an earlier step, and what a caller still
  has to supply is exactly the inputs it references and does not have.
\<close>

theorem accepted_workflow_resolves:
  assumes "Workflow n d inputs ss = Inr flow"
  shows "distinct (step_ids flow) \<and> set (step_ids flow) \<inter> set inputs = {} \<and>
    (\<forall>i < length ss. references (ss ! i) \<subseteq> set inputs \<union> set (take i (step_ids flow))) \<and>
    unresolved_references flow avail = (\<Union>s \<in> set ss. references s) \<inter> set inputs - avail"
proof -
  from Workflow_Inr [OF assms] have flow: "step_ids flow = map ws_id ss" "wf_steps flow = ss"
    and ok: "check_steps (set inputs) ss = Inr ()" by (auto simp: step_ids_def)
  from ok have "unresolved_loop ss avail {} = {} \<union> ((\<Union>s \<in> set ss. references s) \<inter> set inputs - avail)"
    by (rule unresolved_loop_eq) auto
  with ok show ?thesis
    by (simp add: flow unresolved_references_def check_steps_ok take_map)
qed

text \<open>
  C37: A run stops at the first failure that matters and says so. It records the steps it ran,
  in order; every step before the last either succeeded or is optional; the run is completed
  exactly when no step that is not optional failed, and then every step ran; otherwise the
  last record is the failed step. The outputs are those of the steps that succeeded.
\<close>

theorem run_stops_at_first_failure:
  assumes "run_workflow ex run_id flow inputs w = ((run, outs), w')"
  shows "(if wr_completed run then wr_failed_step run = None \<and> list_all2 went_on (wf_steps flow) (wr_steps run)
     else \<exists>before s rest ran r. wf_steps flow = before @ s # rest \<and> wr_steps run = ran @ [r] \<and>
       list_all2 went_on before ran \<and> tells s r \<and> wr_failed_step run = Some (ws_id s) \<and>
       sr_outcome r \<noteq> T_OK \<and> \<not> ws_optional s) \<and>
    set (map fst outs) = set (map fst (case inputs of None \<Rightarrow> [] | Some d \<Rightarrow> d)) \<union> produced_by (wr_steps run)"
proof -
  let ?d = "case inputs of None \<Rightarrow> [] | Some d \<Rightarrow> d"
  obtain recs failed where run: "run_steps ex (wf_steps flow) ?d [] w = ((recs, failed, outs), w')"
    "run = finish_run ex run_id flow recs failed (ex_clock ex w) w'"
    using assms by (auto simp: run_workflow_def Let_def split: prod.splits)
  from run_steps_shape [OF run(1)] show ?thesis
    by (cases failed) (auto simp: run(2) finish_run_def)
qed

text \<open>The flow of two steps whose first is optional and fails, over the sample tool.\<close>

definition sample_flow :: workflow where
  "sample_flow =
     \<lparr>wf_name = str ''f'', wf_description = str ''d'', wf_inputs = [str ''q''],
      wf_steps =
        [step ''a'' ''lookup_ticket'' [(str ''ticket_id'', PStr (reference_to (str ''q'')))] True,
         step ''b'' ''lookup_ticket'' [(str ''ticket_id'', PStr (reference_to (str ''a'')))] False]\<rparr>"

lemmas ident_simps = ident_def name_char_def islower_ascii_def isdigit_def str_def

lemma refs_simps [simp]:
  "referenced_step (PInt k) = None"
  "ident i \<Longrightarrow> referenced_step (PStr (reference_to i)) = Some i"
  by (simp_all add: referenced_step_def referenced_step_reference_to [unfolded referenced_step_def, simplified])

lemma not_a_reference: "hd s \<noteq> 123 \<Longrightarrow> referenced_step (PStr s) = None"
  by (auto simp: referenced_step_def reference_match_def after_def str_def prefix_def)

lemma sample_flow_ok:
  "Workflow (str ''f'') (str ''d'') [str ''q''] (wf_steps sample_flow) = Inr sample_flow"
proof -
  have i: "ident (str ''q'')" "ident (str ''a'')" by (simp_all add: ident_simps)
  have n: "name_match (str ''f'')" "name_match (str ''q'')"
    by (simp_all add: name_match_def at_end_def ident_simps)
  show ?thesis
    by (simp add: Workflow_def sample_flow_def step_def references_def i n MAX_STEPS_def Let_def)
qed

lemma accepted_workflow_resolves_witness:
  "unresolved_references sample_flow {} = {str ''q''} \<and> distinct (step_ids sample_flow)"
proof -
  have i: "ident (str ''q'')" "ident (str ''a'')" by (simp_all add: ident_simps)
  have "(\<Union>s \<in> set (wf_steps sample_flow). references s) = {str ''q'', str ''a''}"
    by (simp add: sample_flow_def step_def references_def i insert_commute)
  with accepted_workflow_resolves [OF sample_flow_ok, where avail = "{}"] show ?thesis by simp
qed

lemma sample_call:
  "\<exists>r. execute_tool sample_executor (str ''lookup_ticket'') p w = (r, w + 1) \<and> \<not> tres_ok r"
  by (simp add: execute_tool_def sample_executor_def get_tool_def sample_tool_def run_tool_def fail_call_def
      tool_failure_def tres_ok_def)

lemma run_stops_at_first_failure_witness:
  "\<exists>run outs w'. run_workflow sample_executor [] sample_flow None 0 = ((run, outs), w') \<and> \<not> wr_completed run \<and>
     wr_failed_step run = Some (str ''b'')"
proof -
  let ?a = "hd (wf_steps sample_flow)" and ?b = "last (wf_steps sample_flow)"
  have steps: "wf_steps sample_flow = [?a, ?b]" "ws_tool ?a = str ''lookup_ticket''" "ws_tool ?b = str ''lookup_ticket''"
    "ws_optional ?a" "\<not> ws_optional ?b" "ws_id ?b = str ''b''"
    by (simp_all add: sample_flow_def step_def)
  obtain q r where q: "execute_tool sample_executor (str ''lookup_ticket'') (Some (resolve_params ?a [])) 0 = (q, 0 + 1)" "\<not> tres_ok q"
    and r: "execute_tool sample_executor (str ''lookup_ticket'') (Some (resolve_params ?b [])) (0 + 1) = (r, 0 + 1 + 1)" "\<not> tres_ok r"
    using sample_call by meson
  have "run_steps sample_executor (wf_steps sample_flow) [] [] 0 =
      (([step_record_of ?a q, step_record_of ?b r], Some (str ''b''), []), 0 + 1 + 1)"
    by (subst steps(1)) (simp only: run_steps.simps steps(2-6) q r prod.case Let_def if_False if_True append.simps)
  then obtain run w' where run: "run_workflow sample_executor [] sample_flow None 0 = ((run, []), w')"
    "wr_failed_step run = Some (str ''b'')"
    by (simp add: run_workflow_def Let_def finish_run_def)
  from run_stops_at_first_failure [OF run(1)] run show ?thesis by (metis option.discI)
qed

lemma ident_name_match: "ident s \<Longrightarrow> name_match s"
  by (simp add: ident_def name_match_def at_end_def list_all_iff takeWhile_eq_all_conv [THEN iffD2])

lemma library_idents [simp]:
  "ident (str ''ticket_id'')" "ident (str ''question'')" "ident (str ''ticket_context'')"
  "ident (str ''knowledge_lookup'')" "ident (str ''open_ticket_review'')" "ident (str ''ticket'')"
  "ident (str ''recent'')" "ident (str ''passages'')" "ident (str ''open'')" "ident (str ''lookup_ticket'')"
  "ident (str ''list_tickets'')" "ident (str ''search_knowledge_base'')"
  by (simp_all add: ident_simps)

lemma library_steps_ok:
  "list_all (\<lambda>f. list_all (\<lambda>s. WorkflowStep (ws_id s) (ws_tool s) (ws_params s) (ws_optional s) = Inr s)
     (wf_steps f)) WORKFLOWS"
  by (simp add: WORKFLOWS_def TICKET_CONTEXT_def KNOWLEDGE_LOOKUP_def OPEN_TICKET_REVIEW_def step_def
      WorkflowStep_def ident_name_match)

lemma library_references:
  "map (map references \<circ> wf_steps) WORKFLOWS = [[{str ''ticket_id''}, {}], [{str ''question''}], [{}]]"
proof -
  have "referenced_step (PStr (str ''open'')) = None"
    by (rule not_a_reference) (simp add: str_def)
  then show ?thesis
    by (simp add: WORKFLOWS_def TICKET_CONTEXT_def KNOWLEDGE_LOOKUP_def OPEN_TICKET_REVIEW_def step_def references_def)
qed

text \<open>
  The library is sound. Each of the three workflows passes the validators, its steps pass
  theirs, the names are distinct, and a caller has to supply exactly the declared inputs.
\<close>

theorem library_workflows_valid:
  "list_all (\<lambda>f. Workflow (wf_name f) (wf_description f) (wf_inputs f) (wf_steps f) = Inr f \<and>
      list_all (\<lambda>s. WorkflowStep (ws_id s) (ws_tool s) (ws_params s) (ws_optional s) = Inr s) (wf_steps f) \<and>
      unresolved_references f {} = set (wf_inputs f) \<and> get_workflow (wf_name f) = Inr f) WORKFLOWS \<and>
    distinct (map wf_name WORKFLOWS)"
proof -
  note libs = WORKFLOWS_def TICKET_CONTEXT_def KNOWLEDGE_LOOKUP_def OPEN_TICKET_REVIEW_def step_def
  have "distinct (map wf_name WORKFLOWS)" by (simp add: libs)
  moreover have "list_all (\<lambda>f. get_workflow (wf_name f) = Inr f) WORKFLOWS"
    by (simp add: libs get_workflow_def)
  moreover have "list_all (\<lambda>f. unresolved_references f {} = set (wf_inputs f)) WORKFLOWS"
    using library_references by (simp add: libs unresolved_references_def)
  moreover have "list_all (\<lambda>f. Workflow (wf_name f) (wf_description f) (wf_inputs f) (wf_steps f) = Inr f) WORKFLOWS"
    using library_references by (simp add: libs Workflow_def ident_name_match MAX_STEPS_def)
  ultimately show ?thesis
    using library_steps_ok by (simp add: list_all_iff)
qed

end
