(* ===== verification/Paging.thy ===== *)
theory Paging
  imports Errors "HOL-Library.Product_Lexorder"
begin

text \<open>
  The listing queries of the services: \<open>order_by(created_at.desc(), id.desc())\<close> followed by
  \<open>limit\<close> and \<open>offset\<close>. The key of a row is the pair of its timestamp and its id, in the
  lexicographic order; the text of an id orders like the id.
\<close>

definition newest_first :: "('a \<Rightarrow> rat \<times> pystr) \<Rightarrow> 'a list \<Rightarrow> 'a list" where
  "newest_first key rows = rev (sort_key key rows)"

text \<open>The server takes both numbers as \<open>BIGINT\<close> and refuses negative ones.\<close>

definition page_number_ok :: "int \<Rightarrow> bool" where
  "page_number_ok n \<longleftrightarrow> 0 \<le> n \<and> n < 2 ^ 63"

definition page_of :: "int \<Rightarrow> int \<Rightarrow> 'a list \<Rightarrow> 'a list result" where
  "page_of limit offset rows =
     (if page_number_ok limit \<and> page_number_ok offset
      then Inr (take (nat limit) (drop (nat offset) rows))
      else Inl (SQLAlchemyError (str ''DBAPIError'')))"

subsection \<open>Lemmas\<close>

lemma set_newest_first [simp]: "set (newest_first key rows) = set rows"
  by (simp add: newest_first_def)

lemma mset_newest_first [simp]: "mset (newest_first key rows) = mset rows"
  by (simp add: newest_first_def)

lemma length_newest_first [simp]: "length (newest_first key rows) = length rows"
  by (simp add: newest_first_def)

lemma filter_newest_first: "filter P (newest_first key rows) = newest_first key (filter P rows)"
  by (simp add: newest_first_def filter_sort rev_filter [symmetric])

lemma newest_first_sorted: "sorted_wrt (\<ge>) (map key (newest_first key rows))"
proof -
  have "sorted (rev (map key (newest_first key rows)))"
    by (simp add: newest_first_def rev_map)
  then show ?thesis by (simp only: sorted_wrt_rev)
qed

text \<open>Consecutive pages are consecutive parts of the listing.\<close>

lemma take_pages: "concat (map (\<lambda>k. take n (drop (k * n) xs)) [0..<m]) = take (m * n) xs"
proof (induction m)
  case (Suc m)
  have "take (Suc m * n) xs = take (m * n) xs @ take n (drop (m * n) xs)"
    by (simp add: take_add [symmetric] add.commute)
  with Suc show ?case by simp
qed simp

lemma page_ofE:
  assumes "page_of limit offset rows = Inr rs"
  obtains "0 \<le> limit" "0 \<le> offset" "rs = take (nat limit) (drop (nat offset) rows)"
  using assms by (auto simp: page_of_def page_number_ok_def split: if_splits)

end
