(* ===== verification/Documents.thy ===== *)
theory Documents
  imports Paging Intent
begin

text \<open>
  \<open>rag/\<close> and the document services: splitting a text into chunks (\<open>chunking.py\<close>), the hashing
  embeddings (\<open>embeddings.py\<close>), ingestion and retrieval (\<open>services/document.py\<close>) and grounded
  answers (\<open>services/answer.py\<close>). The database is the pair of committed tables; a cosine distance,
  a digest and the identifiers it generates are arguments.
\<close>

subsection \<open>Chunking\<close>

definition DEFAULT_CHUNK_SIZE :: int where
  "DEFAULT_CHUNK_SIZE = 800"

definition MIN_CHUNK_SIZE :: int where
  "MIN_CHUNK_SIZE = 50"

text \<open>\<open>text.split("\n\n")\<close>\<close>

fun split_paragraphs :: "pystr \<Rightarrow> pystr list" where
  "split_paragraphs [] = [[]]"
| "split_paragraphs [x] = [[x]]"
| "split_paragraphs (x # y # xs) =
     (if x = 10 \<and> y = 10 then [] # split_paragraphs xs
      else (case split_paragraphs (y # xs) of [] \<Rightarrow> [[x]] | w # ws \<Rightarrow> (x # w) # ws))"

definition split_long_step :: "int \<Rightarrow> pystr \<Rightarrow> pystr list \<times> pystr \<Rightarrow> pystr list \<times> pystr" where
  "split_long_step chunk_size word st =
     (case st of (parts, current) \<Rightarrow>
        let candidate = strip (current @ str '' '' @ word) in
        if chunk_size < int (length candidate) \<and> current \<noteq> [] then (parts @ [current], word)
        else (parts, candidate))"

definition split_long :: "pystr \<Rightarrow> int \<Rightarrow> pystr list" where
  "split_long paragraph chunk_size =
     (case fold (split_long_step chunk_size) (split_ws paragraph) ([], []) of
        (parts, current) \<Rightarrow> if current \<noteq> [] then parts @ [current] else parts)"

definition paragraph_chunks :: "int \<Rightarrow> pystr \<Rightarrow> pystr list" where
  "paragraph_chunks chunk_size p =
     (let paragraph = strip p in
      if paragraph = [] then []
      else if int (length paragraph) \<le> chunk_size then [paragraph]
      else split_long paragraph chunk_size)"

definition chunk_text :: "int \<Rightarrow> pystr \<Rightarrow> pystr list result" where
  "chunk_text chunk_size text =
     (if chunk_size < MIN_CHUNK_SIZE then
        Inl (ValueError (str ''chunk_size must be at least '' @ show_int MIN_CHUNK_SIZE))
      else
        (let chunks = concat (map (paragraph_chunks chunk_size) (split_paragraphs text)) in
         Inr (if chunks = [] \<and> strip text \<noteq> [] then [strip text] else chunks)))"

subsection \<open>Hashing embeddings\<close>

text \<open>
  \<open>digest\<close> is the SHA-256 of a token's UTF-8 bytes; \<open>alnum\<close> and \<open>low\<close> are the interpreter's
  Unicode tables behind \<open>str.isalnum\<close> and \<open>str.lower\<close> of one character. The counts are exact; the scaling to unit
  length is over the reals, where the code rounds.
\<close>

definition EMBEDDING_DIMENSIONS :: nat where
  "EMBEDDING_DIMENSIONS = 384"

definition tokenise :: "(nat \<Rightarrow> bool) \<Rightarrow> (nat \<Rightarrow> pystr) \<Rightarrow> pystr \<Rightarrow> pystr list" where
  "tokenise alnum low s = split_ws (concat (map (\<lambda>c. if alnum c then low c else [32]) s))"

fun big_endian :: "nat \<Rightarrow> nat list \<Rightarrow> nat" where
  "big_endian n [] = n"
| "big_endian n (b # bs) = big_endian (256 * n + b) bs"

definition count_token :: "(pystr \<Rightarrow> nat list) \<Rightarrow> pystr \<Rightarrow> int list \<Rightarrow> int list" where
  "count_token digest token vector =
     (let d = digest token; index = big_endian 0 (take 4 d) mod EMBEDDING_DIMENSIONS
      in vector[index := vector ! index + (if d ! 4 mod 2 = 0 then 1 else - 1)])"

definition normalise :: "int list \<Rightarrow> real list" where
  "normalise vector =
     (let magnitude = sqrt (sum_list (map (\<lambda>v. real_of_int v * real_of_int v) vector)) in
      if magnitude = 0 then (replicate EMBEDDING_DIMENSIONS 0)[0 := 1]
      else map (\<lambda>v. real_of_int v / magnitude) vector)"

definition embed_one ::
  "(nat \<Rightarrow> bool) \<Rightarrow> (nat \<Rightarrow> pystr) \<Rightarrow> (pystr \<Rightarrow> nat list) \<Rightarrow> pystr \<Rightarrow> real list" where
  "embed_one alnum low digest text =
     normalise (fold (count_token digest) (tokenise alnum low text) (replicate EMBEDDING_DIMENSIONS 0))"

definition embed_hashing ::
  "(nat \<Rightarrow> bool) \<Rightarrow> (nat \<Rightarrow> pystr) \<Rightarrow> (pystr \<Rightarrow> nat list) \<Rightarrow> pystr list \<Rightarrow> real list list" where
  "embed_hashing alnum low digest texts = map (embed_one alnum low digest) texts"

subsection \<open>The document service\<close>

record document_row =
  dr_id :: pystr
  dr_title :: pystr
  dr_content :: pystr
  dr_created :: rat

record 'v chunk_row =
  cr_id :: pystr
  cr_document :: pystr
  cr_ordinal :: int
  cr_content :: pystr
  cr_embedding :: 'v

record 'v document_db =
  dd_documents :: "document_row list"
  dd_chunks :: "'v chunk_row list"

record retrieved_chunk =
  rc_chunk_id :: pystr
  rc_document_id :: pystr
  rc_document_title :: pystr
  rc_ordinal :: int
  rc_content :: pystr
  rc_distance :: rat

definition similarity :: "retrieved_chunk \<Rightarrow> rat" where
  "similarity c = max 0 (min 1 (1 - rc_distance c))"

definition chunk_rows :: "pystr \<Rightarrow> (nat \<Rightarrow> pystr) \<Rightarrow> pystr list \<Rightarrow> 'v list \<Rightarrow> 'v chunk_row list" where
  "chunk_rows document_id chunk_id pieces vectors =
     map (\<lambda>(ordinal, piece, vector).
       \<lparr>cr_id = chunk_id ordinal, cr_document = document_id, cr_ordinal = int ordinal, cr_content = piece,
        cr_embedding = vector\<rparr>)
       (zip [0..<length pieces] (zip pieces vectors))"

text \<open>
  The flush of the document row checks the width of its title and its constraints,
  \<open>length(btrim(_)) > 0\<close>, where \<open>btrim\<close> removes spaces only; \<open>zip(strict=True)\<close> raises before the commit. Either way nothing of the
  transaction is kept.
\<close>

definition blank :: "pystr \<Rightarrow> bool" where
  "blank s \<longleftrightarrow> list_all (\<lambda>c. c = 32) s"

definition TITLE_WIDTH :: nat where
  "TITLE_WIDTH = 300"

definition ingest_document ::
  "(pystr list \<Rightarrow> 'v list result) \<Rightarrow> pystr \<Rightarrow> (nat \<Rightarrow> pystr) \<Rightarrow> rat \<Rightarrow> pystr \<Rightarrow> pystr \<Rightarrow> 'v document_db \<Rightarrow>
   document_row result \<times> 'v document_db" where
  "ingest_document embedder document_id chunk_id now title content db =
     (case chunk_text DEFAULT_CHUNK_SIZE content of
        Inl e \<Rightarrow> (Inl e, db)
      | Inr pieces \<Rightarrow>
          (case embedder pieces of
             Inl e \<Rightarrow> (Inl e, db)
           | Inr vectors \<Rightarrow>
               (let document = \<lparr>dr_id = document_id, dr_title = title, dr_content = content, dr_created = now\<rparr> in
                if TITLE_WIDTH < length title then (Inl (SQLAlchemyError (str ''DBAPIError'')), db)
                else if blank title \<or> blank content then (Inl IntegrityError, db)
                else if length vectors < length pieces then
                  (Inl (ValueError (str ''zip() argument 2 is shorter than argument 1'')), db)
                else if length pieces < length vectors then
                  (Inl (ValueError (str ''zip() argument 2 is longer than argument 1'')), db)
                else
                  (Inr document,
                   db\<lparr>dd_documents := dd_documents db @ [document],
                      dd_chunks := dd_chunks db @ chunk_rows document_id chunk_id pieces vectors\<rparr>))))"

definition get_document :: "pystr \<Rightarrow> 'v document_db \<Rightarrow> document_row result" where
  "get_document document_id db =
     (case List.find (\<lambda>d. dr_id d = document_id) (dd_documents db) of
        None \<Rightarrow> raise_app DocumentNotFoundError None (Some [(str ''document_id'', PStr document_id)])
      | Some d \<Rightarrow> Inr d)"

definition list_documents :: "int \<Rightarrow> int \<Rightarrow> 'v document_db \<Rightarrow> document_row list result" where
  "list_documents limit offset db =
     page_of limit offset (newest_first (\<lambda>d. (dr_created d, dr_id d)) (dd_documents db))"

text \<open>The inner join, the order by distance and the limit of \<open>search\<close>.\<close>

definition search_documents ::
  "(pystr \<Rightarrow> 'v) \<Rightarrow> ('v \<Rightarrow> 'v \<Rightarrow> rat) \<Rightarrow> 'v document_db \<Rightarrow> pystr \<Rightarrow> nat \<Rightarrow> retrieved_chunk list" where
  "search_documents embed_query distance db query top_k =
     (let vector = embed_query query;
          rows = concat (map (\<lambda>c.
            map (\<lambda>d. \<lparr>rc_chunk_id = cr_id c, rc_document_id = cr_document c, rc_document_title = dr_title d,
                      rc_ordinal = cr_ordinal c, rc_content = cr_content c,
                      rc_distance = distance (cr_embedding c) vector\<rparr>)
              (filter (\<lambda>d. dr_id d = cr_document c) (dd_documents db)))
            (dd_chunks db))
      in take top_k (sort_key rc_distance rows))"

subsection \<open>Grounded answers\<close>

record citation =
  ct_document_id :: pystr
  ct_document_title :: pystr
  ct_ordinal :: int
  ct_excerpt :: pystr
  ct_similarity :: rat

record model_answer =
  ma_answered :: bool
  ma_answer :: pystr
  ma_cited_sources :: "int list"

text \<open>The bounds \<open>GroundedModelAnswer\<close> enforces on what a model returns.\<close>

definition model_answer_ok :: "model_answer \<Rightarrow> bool" where
  "model_answer_ok a \<longleftrightarrow> 1 \<le> length (ma_answer a) \<and> length (ma_answer a) \<le> 2000"

record grounded_answer =
  ga_answered :: bool
  ga_answer :: pystr
  ga_citations :: "citation list"

definition GroundedAnswer :: "bool \<Rightarrow> pystr \<Rightarrow> citation list \<Rightarrow> grounded_answer result" where
  "GroundedAnswer answered answer citations =
     (if answer = [] then
        Inl (ValidationError [([str ''answer''], str ''String should have at least 1 character'')])
      else if 2000 < length answer then
        Inl (ValidationError [([str ''answer''], str ''String should have at most 2000 characters'')])
      else Inr \<lparr>ga_answered = answered, ga_answer = answer, ga_citations = citations\<rparr>)"

definition NO_SOURCES_ANSWER :: pystr where
  "NO_SOURCES_ANSWER = str ''I do not have any documentation that covers that question.''"

definition STATIC_MODEL_ANSWER :: model_answer where
  "STATIC_MODEL_ANSWER =
     \<lparr>ma_answered = False, ma_answer = str ''Static provider response; no model was called.'', ma_cited_sources = []\<rparr>"

definition to_citation :: "retrieved_chunk \<Rightarrow> citation" where
  "to_citation c =
     \<lparr>ct_document_id = rc_document_id c, ct_document_title = rc_document_title c, ct_ordinal = rc_ordinal c,
      ct_excerpt = take 300 (rc_content c), ct_similarity = similarity c\<rparr>"

definition render_question :: "pystr \<Rightarrow> retrieved_chunk list \<Rightarrow> pystr" where
  "render_question question chunks =
     (let sources = join [10, 10]
            (map (\<lambda>(index, c). str ''['' @ show_nat index @ str ''] '' @ rc_document_title c @ [10] @ rc_content c)
              (zip [1..<Suc (length chunks)] chunks))
      in str ''Sources:'' @ [10, 10] @ sources @ [10, 10] @ str ''Question: '' @ question)"

definition cited :: "retrieved_chunk list \<Rightarrow> int list \<Rightarrow> citation list" where
  "cited chunks numbers =
     map (\<lambda>n. to_citation (chunks ! nat (n - 1)))
       (filter (\<lambda>n. 1 \<le> n \<and> n \<le> int (length chunks)) (first_seen [] numbers))"

definition answer_question ::
  "pystr \<Rightarrow> (pystr \<Rightarrow> nat \<Rightarrow> 'w \<Rightarrow> retrieved_chunk list result \<times> 'w) \<Rightarrow> ('w, model_answer) provider \<Rightarrow>
   pystr \<Rightarrow> nat \<Rightarrow> 'w \<Rightarrow> grounded_answer result \<times> 'w" where
  "answer_question system search complete_structured question top_k w =
     (case search question top_k w of
        (Inl e, w1) \<Rightarrow> (Inl e, w1)
      | (Inr chunks, w1) \<Rightarrow>
          if chunks = [] then (GroundedAnswer False NO_SOURCES_ANSWER [], w1)
          else
            (case complete_structured \<lparr>lp_system = system, lp_user = render_question question chunks\<rparr> w1 of
               (Inl e, w2) \<Rightarrow> (Inl e, w2)
             | (Inr a, w2) \<Rightarrow> (GroundedAnswer (ma_answered a) (ma_answer a) (cited chunks (ma_cited_sources a)), w2)))"

subsection \<open>Lemmas on chunking\<close>

lemma split_paragraphs_ne [simp]: "split_paragraphs s \<noteq> []"
  by (induction s rule: split_paragraphs.induct) (auto split: list.splits)

lemma join_split_paragraphs: "join [10, 10] (split_paragraphs s) = s"
proof (induction s rule: split_paragraphs.induct)
  case (3 x y xs)
  show ?case
  proof (cases "x = 10 \<and> y = 10")
    case True
    with 3(1) show ?thesis by (simp add: join_Cons)
  next
    case False
    obtain w ws where w: "split_paragraphs (y # xs) = w # ws" by (cases "split_paragraphs (y # xs)") auto
    from False 3(2) have "join [10, 10] (w # ws) = y # xs" by (simp add: w)
    moreover have "join [10, 10] ((x # w) # ws) = x # join [10, 10] (w # ws)" by (cases ws) auto
    ultimately have "join [10, 10] ((x # w) # ws) = x # y # xs" by simp
    moreover have "split_paragraphs (x # y # xs) = (x # w) # ws" using False w by auto
    ultimately show ?thesis by (simp only:)
  qed
qed simp_all

lemma split_ws_join:
  assumes "isspace c" "\<forall>d \<in> set cs. isspace d"
  shows "split_ws (join (c # cs) ps) = concat (map split_ws ps)"
proof (induction ps)
  case (Cons p ps)
  then show ?case using assms
    by (cases ps) (simp_all add: split_ws_space_between split_ws_spaces)
qed simp

lemma split_paragraphs_words: "concat (map split_ws (split_paragraphs s)) = split_ws s"
  using split_ws_join [of 10 "[10]" "split_paragraphs s"] by (simp add: isspace_def join_split_paragraphs)

text \<open>A chunk: not empty, no white space at its ends, within the size unless it is one word.\<close>

definition chunk_ok :: "int \<Rightarrow> pystr \<Rightarrow> bool" where
  "chunk_ok chunk_size c \<longleftrightarrow> c \<noteq> [] \<and> strip c = c \<and> (int (length c) \<le> chunk_size \<or> list_all (\<lambda>x. \<not> isspace x) c)"

definition no_space :: "pystr \<Rightarrow> bool" where
  "no_space w \<longleftrightarrow> w \<noteq> [] \<and> list_all (\<lambda>x. \<not> isspace x) w"

lemma no_space_word:
  assumes "no_space w"
  shows "strip w = w" "split_ws w = [w]" "w \<noteq> []" "\<not> isspace (hd w)" "\<not> isspace (last w)"
  using assms by (auto simp: no_space_def list_all_iff intro!: strip_ends split_ws_word)

lemma candidate_nonempty:
  assumes "chunk_ok k c" "no_space w"
  shows "strip (c @ str '' '' @ w) = c @ str '' '' @ w" "split_ws (c @ str '' '' @ w) = split_ws c @ [w]"
proof -
  have c: "c \<noteq> []" "\<not> isspace (hd c)"
    using assms(1) strip_fixed_ends [of c] by (auto simp: chunk_ok_def)
  show "strip (c @ str '' '' @ w) = c @ str '' '' @ w"
    using c no_space_word [OF assms(2)] by (intro strip_ends) (auto simp: str_def)
  show "split_ws (c @ str '' '' @ w) = split_ws c @ [w]"
    using no_space_word [OF assms(2)] split_ws_space_between [of 32 c w] by (simp add: str_def isspace_def)
qed

lemma split_long_step_ok:
  assumes "list_all (chunk_ok k) parts" "current = [] \<or> chunk_ok k current" "no_space w"
    and "split_long_step k w (parts, current) = (parts', current')"
  shows "list_all (chunk_ok k) parts' \<and> chunk_ok k current' \<and>
    concat (map split_ws parts') @ split_ws current' = concat (map split_ws parts) @ split_ws current @ [w]"
proof (cases "current = []")
  case True
  have "strip (str '' '' @ w) = w"
    using no_space_word [OF assms(3)] by (simp add: strip_def lstrip_def str_def isspace_def)
  with True assms(4) have "parts' = parts" "current' = w" by (auto simp: split_long_step_def)
  with True assms(1,3) show ?thesis using no_space_word [OF assms(3)] by (simp add: chunk_ok_def no_space_def)
next
  case False
  with assms(2) have c: "chunk_ok k current" by simp
  note cand = candidate_nonempty [OF c assms(3)]
  show ?thesis
  proof (cases "k < int (length (current @ str '' '' @ w))")
    case True
    with False assms(4) have "parts' = parts @ [current]" "current' = w"
      by (auto simp: split_long_step_def cand(1) Let_def simp del: append_assoc)
    with c assms(1,3) show ?thesis using no_space_word [OF assms(3)] by (simp add: chunk_ok_def no_space_def)
  next
    case le: False
    with False assms(4) have "parts' = parts" "current' = current @ str '' '' @ w"
      by (auto simp: split_long_step_def cand(1) Let_def simp del: append_assoc)
    with le assms(1) show ?thesis by (simp add: chunk_ok_def cand)
  qed
qed

lemma split_long_fold:
  assumes "list_all no_space ws" "list_all (chunk_ok k) parts" "current = [] \<or> chunk_ok k current"
    and "fold (split_long_step k) ws (parts, current) = (parts', current')"
  shows "list_all (chunk_ok k) parts' \<and> (current' = [] \<or> chunk_ok k current') \<and>
    concat (map split_ws parts') @ split_ws current' = concat (map split_ws parts) @ split_ws current @ ws"
  using assms
proof (induction ws arbitrary: parts current)
  case (Cons w ws)
  obtain p c where pc: "split_long_step k w (parts, current) = (p, c)" by force
  from split_long_step_ok [OF Cons.prems(2,3) _ pc] Cons.prems(1)
  have step: "list_all (chunk_ok k) p" "chunk_ok k c"
    "concat (map split_ws p) @ split_ws c = concat (map split_ws parts) @ split_ws current @ [w]" by auto
  from Cons.prems(1,4) step(1,2) Cons.IH [of p c] pc have "list_all (chunk_ok k) parts' \<and>
     (current' = [] \<or> chunk_ok k current') \<and>
     concat (map split_ws parts') @ split_ws current' = (concat (map split_ws p) @ split_ws c) @ ws" by simp
  with step(3) show ?case by simp
qed auto

lemma split_long_ok:
  "list_all (chunk_ok k) (split_long p k) \<and> concat (map split_ws (split_long p k)) = split_ws p"
proof -
  obtain parts current where f: "fold (split_long_step k) (split_ws p) ([], []) = (parts, current)" by force
  have "list_all no_space (split_ws p)"
    by (auto simp: list_all_iff no_space_def dest: split_ws_words)
  from split_long_fold [OF this _ _ f] show ?thesis
    by (auto simp: split_long_def f)
qed

lemma paragraph_chunks_ok:
  "list_all (chunk_ok k) (paragraph_chunks k p) \<and> concat (map split_ws (paragraph_chunks k p)) = split_ws p"
proof (cases "strip p = []")
  case True
  then have "split_ws p = []" using split_ws_strip [of p] by simp
  with True show ?thesis by (simp add: paragraph_chunks_def)
next
  case False
  with split_long_ok [of k "strip p"] show ?thesis
    by (simp add: paragraph_chunks_def Let_def chunk_ok_def)
qed

lemma chunk_text_ok:
  assumes "chunk_text k text = Inr chunks"
  shows "list_all (chunk_ok k) chunks" "concat (map split_ws chunks) = split_ws text"
proof -
  let ?cs = "concat (map (paragraph_chunks k) (split_paragraphs text))"
  have "list_all (chunk_ok k) (concat (map (paragraph_chunks k) ps)) \<and>
    concat (map split_ws (concat (map (paragraph_chunks k) ps))) = concat (map split_ws ps)" for ps
    using paragraph_chunks_ok [of k] by (induction ps) auto
  from this [of "split_paragraphs text"] have cs: "list_all (chunk_ok k) ?cs" "concat (map split_ws ?cs) = split_ws text"
    by (auto simp: split_paragraphs_words)
  have "strip text = []" if "?cs = []"
  proof -
    have "split_ws text = []" using cs(2) unfolding that by simp
    then show ?thesis by (simp add: split_ws_eq_Nil strip_eq_Nil)
  qed
  with assms have "chunks = ?cs" by (auto simp: chunk_text_def Let_def simp del: concat_eq_Nil_conv split: if_splits)
  with cs show "list_all (chunk_ok k) chunks" "concat (map split_ws chunks) = split_ws text" by simp_all
qed

subsection \<open>Lemmas on embeddings\<close>

lemma count_token_length [simp]: "length (count_token digest t v) = length v"
  by (simp add: count_token_def Let_def)

lemma count_tokens_length [simp]: "length (fold (count_token digest) ts v) = length v"
  by (induction ts arbitrary: v) simp_all

lemma anchor_squares: "0 < n \<Longrightarrow> sum_list (map (\<lambda>x. x * x) ((replicate n (0::real))[0 := 1])) = 1"
  by (cases n) (simp_all add: sum_list_replicate map_replicate_const)

lemma normalise_unit:
  assumes "length v = EMBEDDING_DIMENSIONS"
  shows "length (normalise v) = EMBEDDING_DIMENSIONS \<and> sum_list (map (\<lambda>x. x * x) (normalise v)) = 1"
proof -
  let ?q = "sum_list (map (\<lambda>v. real_of_int v * real_of_int v) v)"
  have pos: "0 \<le> ?q" by (rule sum_list_nonneg) auto
  show ?thesis
  proof (cases "sqrt ?q = 0")
    case True
    then show ?thesis by (simp add: normalise_def anchor_squares EMBEDDING_DIMENSIONS_def)
  next
    case False
    with pos have q: "?q \<noteq> 0" "sqrt ?q * sqrt ?q = ?q" by auto
    have "sum_list (map (\<lambda>x. x * x) (normalise v)) =
        sum_list (map (\<lambda>i. real_of_int i * real_of_int i * (1 / ?q)) v)"
      using False q(2) by (simp add: normalise_def Let_def comp_def)
    also have "\<dots> = ?q * (1 / ?q)" by (rule sum_list_mult_const)
    also have "\<dots> = 1" using q(1) by simp
    finally show ?thesis using False assms by (simp add: normalise_def Let_def)
  qed
qed

subsection \<open>Lemmas on the tables\<close>

text \<open>Documents have distinct ids, and every chunk belongs to one of them.\<close>

definition document_db_ok :: "'v document_db \<Rightarrow> bool" where
  "document_db_ok db \<longleftrightarrow> distinct (map dr_id (dd_documents db)) \<and>
     cr_document ` set (dd_chunks db) \<subseteq> dr_id ` set (dd_documents db)"

lemma chunk_rows_document: "c \<in> set (chunk_rows i f ps vs) \<Longrightarrow> cr_document c = i"
  by (auto simp: chunk_rows_def)

lemma ingest_document_cases:
  assumes "ingest_document emb i c now t x db = (r, db')"
  shows "(\<exists>e. r = Inl e) \<and> db' = db \<or>
    (\<exists>pieces vectors. r = Inr \<lparr>dr_id = i, dr_title = t, dr_content = x, dr_created = now\<rparr> \<and>
       chunk_text DEFAULT_CHUNK_SIZE x = Inr pieces \<and> emb pieces = Inr vectors \<and> length vectors = length pieces \<and>
       dd_documents db' = dd_documents db @ [\<lparr>dr_id = i, dr_title = t, dr_content = x, dr_created = now\<rparr>] \<and>
       dd_chunks db' = dd_chunks db @ chunk_rows i c pieces vectors)"
proof (cases "chunk_text DEFAULT_CHUNK_SIZE x")
  case (Inr pieces)
  then show ?thesis
    using assms by (cases "emb pieces") (auto simp: ingest_document_def Let_def split: if_splits)
qed (use assms in \<open>auto simp: ingest_document_def\<close>)

lemma ingest_document_ok [invs]:
  assumes "document_db_ok db" "i \<notin> dr_id ` set (dd_documents db)" "ingest_document emb i c now t x db = (r, db')"
  shows "document_db_ok db'"
  using ingest_document_cases [OF assms(3)]
proof
  assume "(\<exists>e. r = Inl e) \<and> db' = db"
  with assms(1) show ?thesis by simp
next
  assume "\<exists>pieces vectors. r = Inr \<lparr>dr_id = i, dr_title = t, dr_content = x, dr_created = now\<rparr> \<and>
       chunk_text DEFAULT_CHUNK_SIZE x = Inr pieces \<and> emb pieces = Inr vectors \<and> length vectors = length pieces \<and>
       dd_documents db' = dd_documents db @ [\<lparr>dr_id = i, dr_title = t, dr_content = x, dr_created = now\<rparr>] \<and>
       dd_chunks db' = dd_chunks db @ chunk_rows i c pieces vectors"
  then obtain pieces vectors where db':
    "dd_documents db' = dd_documents db @ [\<lparr>dr_id = i, dr_title = t, dr_content = x, dr_created = now\<rparr>]"
    "dd_chunks db' = dd_chunks db @ chunk_rows i c pieces vectors" by blast
  have "cr_document ` set (dd_chunks db') \<subseteq> insert i (dr_id ` set (dd_documents db))"
    using assms(1) unfolding db' by (auto simp: document_db_ok_def dest!: chunk_rows_document)
  with assms(1,2) show ?thesis by (simp add: document_db_ok_def db')
qed

definition hit :: "('v \<Rightarrow> 'v \<Rightarrow> rat) \<Rightarrow> 'v \<Rightarrow> document_row \<Rightarrow> 'v chunk_row \<Rightarrow> retrieved_chunk" where
  "hit distance vector d c =
     \<lparr>rc_chunk_id = cr_id c, rc_document_id = cr_document c, rc_document_title = dr_title d,
      rc_ordinal = cr_ordinal c, rc_content = cr_content c, rc_distance = distance (cr_embedding c) vector\<rparr>"

definition owner_of :: "'v document_db \<Rightarrow> 'v chunk_row \<Rightarrow> document_row" where
  "owner_of db c = the (List.find (\<lambda>d. dr_id d = cr_document c) (dd_documents db))"

lemma find_by_key:
  assumes "distinct (map f xs)" "x \<in> set xs"
  shows "List.find (\<lambda>y. f y = f x) xs = Some x"
  using assms by (induction xs) (auto simp: image_iff)

lemma concat_singletons: "(\<And>x. x \<in> set xs \<Longrightarrow> f x = [g x]) \<Longrightarrow> concat (map f xs) = map g xs"
  by (induction xs) auto

lemma joined_rows:
  assumes "document_db_ok db"
  shows "search_documents emb distance db q k =
     take k (sort_key rc_distance (map (\<lambda>c. hit distance (emb q) (owner_of db c) c) (dd_chunks db)))"
proof -
  have "map (\<lambda>d. hit distance (emb q) d c) (filter (\<lambda>d. dr_id d = cr_document c) (dd_documents db)) =
      [hit distance (emb q) (owner_of db c) c]" if "c \<in> set (dd_chunks db)" for c
  proof -
    have "cr_document c \<in> dr_id ` set (dd_documents db)"
      using assms that by (auto simp: document_db_ok_def)
    then obtain d where d: "d \<in> set (dd_documents db)" "cr_document c = dr_id d" by auto
    with assms filter_by_key [of dr_id "dd_documents db" d] find_by_key [of dr_id "dd_documents db" d]
    show ?thesis by (simp add: document_db_ok_def owner_of_def)
  qed
  then have "concat (map (\<lambda>c. map (\<lambda>d. hit distance (emb q) d c)
      (filter (\<lambda>d. dr_id d = cr_document c) (dd_documents db))) (dd_chunks db)) =
      map (\<lambda>c. hit distance (emb q) (owner_of db c) c) (dd_chunks db)"
    by (rule concat_singletons)
  then show ?thesis by (simp add: search_documents_def hit_def Let_def)
qed

subsection \<open>Properties\<close>

text \<open>
  C28: Chunking loses no word and keeps the size. The words of the chunks, in order, are the
  words of the text; every chunk is trimmed, not empty, and within the size unless it is one
  single word; and only a text of white space yields no chunk.
\<close>

theorem chunk_text_keeps_every_word:
  assumes "chunk_text chunk_size text = Inr chunks"
  shows "concat (map split_ws chunks) = split_ws text \<and> list_all (chunk_ok chunk_size) chunks \<and>
    (chunks = [] \<longleftrightarrow> strip text = [])"
proof -
  note ok = chunk_text_ok [OF assms]
  have "split_ws text \<noteq> []" if "chunks \<noteq> []"
  proof -
    from that obtain c where c: "c \<in> set chunks" by (meson list.set_sel(1))
    with ok(1) have "split_ws c \<noteq> []"
      unfolding list_all_iff chunk_ok_def split_ws_eq_Nil strip_eq_Nil [symmetric] by auto
    with c ok(2) show ?thesis by (metis concat_eq_Nil_conv image_eqI list.set_map)
  qed
  moreover have "split_ws text = []" if "chunks = []" using ok(2) that by simp
  ultimately show ?thesis
    using ok unfolding split_ws_eq_Nil strip_eq_Nil by blast
qed

lemma chunk_text_keeps_every_word_witness:
  "\<exists>chunks. chunk_text 50 (str ''hi'') = Inr chunks \<and> concat (map split_ws chunks) = split_ws (str ''hi'')"
proof -
  have "chunk_text 50 (str ''hi'') = Inr [str ''hi'']"
    by (simp add: chunk_text_def MIN_CHUNK_SIZE_def str_def paragraph_chunks_def strip_defs)
  from chunk_text_keeps_every_word [OF this] this show ?thesis by blast
qed

text \<open>
  Every embedding is a unit vector of the column's width, also for a text without tokens
  or whose tokens cancel, so a cosine distance is always defined.
\<close>

theorem embeddings_are_unit_vectors:
  "list_all (\<lambda>v. length v = EMBEDDING_DIMENSIONS \<and> sum_list (map (\<lambda>x. x * x) v) = 1)
     (embed_hashing alnum low digest texts) \<and>
   length (embed_hashing alnum low digest texts) = length texts"
  using normalise_unit by (auto simp: embed_hashing_def embed_one_def list_all_iff)


text \<open>One document stored in two chunks, searched by a distance on numbers.\<close>

definition sample_documents :: "rat document_db" where
  "sample_documents =
     \<lparr>dd_documents = [\<lparr>dr_id = str ''d'', dr_title = str ''Refunds'', dr_content = str ''a b'', dr_created = 0\<rparr>],
      dd_chunks = [\<lparr>cr_id = str ''c0'', cr_document = str ''d'', cr_ordinal = 0, cr_content = str ''a'', cr_embedding = 3\<rparr>,
                   \<lparr>cr_id = str ''c1'', cr_document = str ''d'', cr_ordinal = 1, cr_content = str ''b'', cr_embedding = 1\<rparr>]\<rparr>"


text \<open>
  C27: An answer cites only what was retrieved. Without a hit the answer is the fixed apology,
  not answered, and the model is not asked; otherwise every citation is built from a hit of
  this search, whatever source numbers the model returned, and none is given twice.
\<close>

theorem citations_are_retrieved:
  assumes "answer_question system search provider question top_k w = (Inr a, w')"
  shows "\<exists>chunks w1. search question top_k w = (Inr chunks, w1) \<and>
    (if chunks = [] then ga_answer a = NO_SOURCES_ANSWER \<and> \<not> ga_answered a \<and> ga_citations a = [] \<and> w' = w1
     else \<exists>picks. ga_citations a = map (\<lambda>i. to_citation (chunks ! i)) picks \<and> distinct picks \<and>
       list_all (\<lambda>i. i < length chunks) picks)"
proof -
  from assms obtain chunks w1 where hits: "search question top_k w = (Inr chunks, w1)"
    by (auto simp: answer_question_def split: prod.splits sum.splits)
  show ?thesis
  proof (cases "chunks = []")
    case True
    with assms hits show ?thesis by (auto simp: answer_question_def GroundedAnswer_def split: if_splits)
  next
    case False
    with assms hits have "\<exists>numbers. ga_citations a = cited chunks numbers"
      by (auto simp: answer_question_def GroundedAnswer_def split: prod.splits sum.splits if_splits)
    then obtain numbers where out: "ga_citations a = cited chunks numbers" by blast
    let ?ns = "filter (\<lambda>n. 1 \<le> n \<and> n \<le> int (length chunks)) (first_seen [] numbers)"
    let ?picks = "map (\<lambda>n. nat (n - 1)) ?ns"
    have "inj_on (\<lambda>n::int. nat (n - 1)) (set ?ns)" by (auto simp: inj_on_def)
    then have "distinct ?picks" by (simp add: distinct_map)
    moreover have "list_all (\<lambda>i. i < length chunks) ?picks" by (auto simp: list_all_iff)
    moreover have "ga_citations a = map (\<lambda>i. to_citation (chunks ! i)) ?picks"
      by (simp add: out cited_def)
    ultimately have "\<exists>picks. ga_citations a = map (\<lambda>i. to_citation (chunks ! i)) picks \<and> distinct picks \<and>
        list_all (\<lambda>i. i < length chunks) picks" by blast
    with hits False show ?thesis by (intro exI [of _ chunks] exI [of _ w1]) (simp only: if_False simp_thms)
  qed
qed

definition sample_hit :: retrieved_chunk where
  "sample_hit =
     \<lparr>rc_chunk_id = str ''c1'', rc_document_id = str ''d'', rc_document_title = str ''Refunds'', rc_ordinal = 1,
      rc_content = str ''b'', rc_distance = 1\<rparr>"

lemma citations_are_retrieved_witness:
  "\<exists>a. answer_question [] (\<lambda>_ _ w. (Inr [sample_hit], w))
     (\<lambda>_ w. (Inr \<lparr>ma_answered = True, ma_answer = str ''b'', ma_cited_sources = [7, 1, 1]\<rparr>, w)) (str ''q'') 1 ()
     = (Inr a, ()) \<and> set (ga_citations a) \<subseteq> {to_citation sample_hit}"
  (is "\<exists>a. ?run = (Inr a, ()) \<and> _")
proof -
  have "?run = (Inr \<lparr>ga_answered = True, ga_answer = str ''b'', ga_citations = cited [sample_hit] [7, 1, 1]\<rparr>, ())"
    by (simp add: answer_question_def GroundedAnswer_def)
  then obtain a where run: "?run = (Inr a, ())" by blast
  from citations_are_retrieved [OF run] obtain picks where
    "ga_citations a = map (\<lambda>i. to_citation ([sample_hit] ! i)) picks" "list_all (\<lambda>i. i < 1) picks"
    by auto
  then have "set (ga_citations a) \<subseteq> {to_citation sample_hit}" by (auto simp: list_all_iff)
  with run show ?thesis by blast
qed

end
