(* ===== verification/Routing.thy ===== *)
theory Routing
  imports Registry Policy Agent Documents
begin

text \<open>
  \<open>routing/\<close>: the handlers of \<open>intent_handlers.py\<close>, the table of \<open>registry.py\<close>, the router of
  \<open>router.py\<close> and its wiring in \<open>factory.py\<close>. A handler maps a request and the world to a response
  or an exception; the classification it gets is already validated (\<open>analysis_ok\<close>).
\<close>

subsection \<open>Handlers\<close>

record handler_request =
  hq_message :: pystr
  hq_analysis :: intent_analysis

record handler_response =
  hr_handler :: pystr
  hr_reply :: pystr
  hr_handled :: bool
  hr_citations :: "citation list"

definition too_short :: "string \<Rightarrow> exn" where
  "too_short field = ValidationError [([str field], str ''String should have at least 1 character'')]"

definition HandlerRequest :: "pystr \<Rightarrow> intent_analysis \<Rightarrow> handler_request result" where
  "HandlerRequest message analysis =
     (if message = [] then Inl (too_short ''message'') else Inr \<lparr>hq_message = message, hq_analysis = analysis\<rparr>)"

definition HandlerResponse :: "pystr \<Rightarrow> pystr \<Rightarrow> bool \<Rightarrow> citation list \<Rightarrow> handler_response result" where
  "HandlerResponse handler reply handled citations =
     (if reply = [] then Inl (too_short ''reply'')
      else Inr \<lparr>hr_handler = handler, hr_reply = reply, hr_handled = handled, hr_citations = citations\<rparr>)"

record 'w intent_handler =
  ih_name :: pystr
  ih_handle :: "handler_request \<Rightarrow> 'w \<Rightarrow> handler_response result \<times> 'w"

definition UNRESOLVED :: pystr where
  "UNRESOLVED = str ''I could not find an answer to that in our documentation. A support agent can pick this up from here.''"

definition knowledge_base_handler ::
  "(pystr \<Rightarrow> nat \<Rightarrow> 'w \<Rightarrow> grounded_answer result \<times> 'w) \<Rightarrow> nat \<Rightarrow> 'w intent_handler" where
  "knowledge_base_handler answer top_k =
     \<lparr>ih_name = str ''knowledge_base'',
      ih_handle = (\<lambda>request w.
        case answer (hq_message request) top_k w of
          (Inl e, w1) \<Rightarrow> (Inl e, w1)
        | (Inr a, w1) \<Rightarrow> (HandlerResponse (str ''knowledge_base'') (ga_answer a) (ga_answered a) (ga_citations a), w1))\<rparr>"

definition agent_handler :: "(pystr \<Rightarrow> 'w \<Rightarrow> agent_outcome result \<times> 'w) \<Rightarrow> 'w intent_handler" where
  "agent_handler run =
     \<lparr>ih_name = str ''agent'',
      ih_handle = (\<lambda>request w.
        case run (hq_message request) w of
          (Inl e, w1) \<Rightarrow> (Inl e, w1)
        | (Inr out, w1) \<Rightarrow> (HandlerResponse (str ''agent'') (ao_answer out) (ao_completed out) [], w1))\<rparr>"

definition documented_first :: "'w intent_handler \<Rightarrow> 'w intent_handler \<Rightarrow> 'w intent_handler" where
  "documented_first documented otherwise =
     \<lparr>ih_name = ih_name documented @ str ''+'' @ ih_name otherwise,
      ih_handle = (\<lambda>request w.
        case ih_handle documented request w of
          (Inl e, w1) \<Rightarrow> (Inl e, w1)
        | (Inr d, w1) \<Rightarrow> if hr_handled d then (Inr d, w1) else ih_handle otherwise request w1)\<rparr>"

definition fallback_handler :: "'w intent_handler" where
  "fallback_handler =
     \<lparr>ih_name = str ''fallback'',
      ih_handle = (\<lambda>request w. (HandlerResponse (str ''fallback'') UNRESOLVED False [], w))\<rparr>"

subsection \<open>The table\<close>

type_synonym 'w intent_table = "(intent_category \<times> 'w intent_handler) list"

definition register_intent :: "intent_category \<times> 'w intent_handler \<Rightarrow> 'w intent_table \<Rightarrow> 'w intent_table result" where
  "register_intent entry table =
     (case entry of (intent, handler) \<Rightarrow>
        let refuse = (\<lambda>msg. raise_app HandlerRegistrationError (Some msg)
              (Some [(str ''intent'', PStr (intent_value intent))]))
        in if ih_name handler = [] then refuse (str ''Handlers must be named so a reply can be attributed.'')
           else if map_of table intent \<noteq> None then
             refuse (str ''Intent '' @ repr_str (intent_value intent) @ str '' already has a handler.'')
           else Inr (AList.update intent handler table))"

definition get_intent :: "'w intent_table \<Rightarrow> intent_category \<Rightarrow> 'w intent_handler option" where
  "get_intent table intent = map_of table intent"

definition has_intent :: "'w intent_table \<Rightarrow> intent_category \<Rightarrow> bool" where
  "has_intent table intent \<longleftrightarrow> map_of table intent \<noteq> None"

definition unmapped :: "'w intent_table \<Rightarrow> intent_category list" where
  "unmapped table = filter (\<lambda>c. \<not> has_intent table c) all_intents"

definition require_complete :: "'w intent_table \<Rightarrow> unit result" where
  "require_complete table =
     (let missing = unmapped table in
      if missing \<noteq> [] then
        raise_app HandlerRegistrationError (Some (str ''Every intent category needs a handler.''))
          (Some [(str ''unmapped'', PList (map (\<lambda>c. PStr (intent_value c)) missing))])
      else Inr ())"

definition table_mapping :: "'w intent_table \<Rightarrow> (pystr \<times> pystr) list" where
  "table_mapping table = map (\<lambda>(i, h). (intent_value i, ih_name h)) (sort_key (\<lambda>kv. intent_value (fst kv)) table)"

subsection \<open>The router\<close>

definition DEFAULT_MIN_CONFIDENCE :: rat where
  "DEFAULT_MIN_CONFIDENCE = 1 / 2"

datatype route_reason = MATCHED | NO_CATEGORY | LOW_CONFIDENCE | NO_HANDLER

record routing_decision =
  rd_intent :: intent_category
  rd_confidence :: rat
  rd_handler :: pystr
  rd_reason :: route_reason
  rd_fallback :: bool

record routed_reply =
  rr_decision :: routing_decision
  rr_reply :: pystr
  rr_handled :: bool
  rr_policy_rule :: "pystr option"
  rr_policy_modified :: bool
  rr_citations :: "citation list"

record 'w router =
  rt_table :: "'w intent_table"
  rt_fallback :: "'w intent_handler"
  rt_min_confidence :: rat
  rt_enforcer :: "policy_engine option"

definition to_fallback :: "'w router \<Rightarrow> intent_analysis \<Rightarrow> route_reason \<Rightarrow> routing_decision" where
  "to_fallback rt analysis reason =
     \<lparr>rd_intent = ia_intent analysis, rd_confidence = ia_confidence analysis,
      rd_handler = ih_name (rt_fallback rt), rd_reason = reason, rd_fallback = True\<rparr>"

definition decide_route :: "'w router \<Rightarrow> intent_analysis \<Rightarrow> routing_decision" where
  "decide_route rt analysis =
     (if ia_intent analysis = OTHER then to_fallback rt analysis NO_CATEGORY
      else if ia_confidence analysis < rt_min_confidence rt then to_fallback rt analysis LOW_CONFIDENCE
      else case get_intent (rt_table rt) (ia_intent analysis) of
        None \<Rightarrow> to_fallback rt analysis NO_HANDLER
      | Some handler \<Rightarrow>
          \<lparr>rd_intent = ia_intent analysis, rd_confidence = ia_confidence analysis, rd_handler = ih_name handler,
           rd_reason = MATCHED, rd_fallback = False\<rparr>)"

definition chosen_handler :: "'w router \<Rightarrow> intent_analysis \<Rightarrow> 'w intent_handler" where
  "chosen_handler rt analysis =
     (if rd_fallback (decide_route rt analysis) then rt_fallback rt
      else case get_intent (rt_table rt) (ia_intent analysis) of None \<Rightarrow> rt_fallback rt | Some h \<Rightarrow> h)"

definition finish_route ::
  "'w router \<Rightarrow> pystr \<Rightarrow> intent_analysis \<Rightarrow> handler_response \<Rightarrow> routed_reply result" where
  "finish_route rt message analysis response =
     (let decision = (decide_route rt analysis)\<lparr>rd_handler := hr_handler response\<rparr> in
      case rt_enforcer rt of
        None \<Rightarrow>
          Inr \<lparr>rr_decision = decision, rr_reply = hr_reply response, rr_handled = hr_handled response,
               rr_policy_rule = None, rr_policy_modified = False, rr_citations = hr_citations response\<rparr>
      | Some engine \<Rightarrow>
          (case enforce engine message analysis (hr_reply response) (hr_handled response) of
             Inl e \<Rightarrow> Inl e
           | Inr enforced \<Rightarrow>
               Inr \<lparr>rr_decision = decision, rr_reply = er_reply enforced, rr_handled = er_handled enforced,
                    rr_policy_rule = Some (er_rule enforced), rr_policy_modified = er_modified enforced,
                    rr_citations = (if er_modified enforced then [] else hr_citations response)\<rparr>))"

definition route :: "'w router \<Rightarrow> pystr \<Rightarrow> intent_analysis \<Rightarrow> 'w \<Rightarrow> routed_reply result \<times> 'w" where
  "route rt message analysis w =
     (case HandlerRequest message analysis of
        Inl e \<Rightarrow> (Inl e, w)
      | Inr request \<Rightarrow>
          (case ih_handle (chosen_handler rt analysis) request w of
             (Inl e, w1) \<Rightarrow> (Inl e, w1)
           | (Inr response, w1) \<Rightarrow> (finish_route rt message analysis response, w1)))"

subsection \<open>The wiring\<close>

definition routing_table :: "'w intent_handler \<Rightarrow> 'w intent_handler \<Rightarrow> (intent_category \<times> 'w intent_handler) list" where
  "routing_table knowledge_base agent =
     [(PRODUCT_QUESTION, knowledge_base),
      (ACCOUNT, knowledge_base),
      (BILLING, documented_first knowledge_base agent),
      (TECHNICAL_SUPPORT, agent),
      (COMPLAINT, agent),
      (OTHER, fallback_handler)]"

definition build_router ::
  "(nat \<Rightarrow> bool) \<Rightarrow> 'w intent_handler \<Rightarrow> 'w intent_handler \<Rightarrow> rat \<Rightarrow> 'w router result" where
  "build_router wide knowledge_base agent min_confidence =
     (case register_all register_intent (routing_table knowledge_base agent) [] of
        Inl e \<Rightarrow> Inl e
      | Inr table \<Rightarrow>
          (case require_complete table of
             Inl e \<Rightarrow> Inl e
           | Inr _ \<Rightarrow>
               (case PolicyEngine (default_rules wide) of
                  Inl e \<Rightarrow> Inl e
                | Inr engine \<Rightarrow>
                    Inr \<lparr>rt_table = table, rt_fallback = fallback_handler, rt_min_confidence = min_confidence,
                         rt_enforcer = Some engine\<rparr>)))"

subsection \<open>Lemmas\<close>

interpretation intents: registry register_intent "\<lambda>table k. map_option (Pair k) (get_intent table k)" fst
  by unfold_locales
    (auto simp: register_intent_def get_intent_def Let_def raise_app_def map_of_AList_update fun_eq_iff split: if_splits)

lemma build_router_Inr:
  assumes "ih_name kb \<noteq> []" "ih_name ag \<noteq> []"
  shows "build_router wide kb ag mc =
     Inr \<lparr>rt_table = routing_table kb ag, rt_fallback = fallback_handler, rt_min_confidence = mc,
          rt_enforcer = Some (default_rules wide)\<rparr>"
proof -
  have "register_all register_intent (routing_table kb ag) [] = Inr (routing_table kb ag)"
    using assms by (simp add: routing_table_def register_intent_def Let_def documented_first_def fallback_handler_def)
  moreover have "require_complete (routing_table kb ag) = Inr ()"
    by (simp add: require_complete_def unmapped_def has_intent_def routing_table_def all_intents_def)
  ultimately show ?thesis by (simp add: build_router_def default_engine)
qed

lemma decide_route_simps [simp]:
  "rd_intent (decide_route rt a) = ia_intent a" "rd_confidence (decide_route rt a) = ia_confidence a"
  by (simp_all add: decide_route_def to_fallback_def split: option.split)

lemma decide_route_fallback:
  "rd_fallback (decide_route rt a) \<longleftrightarrow> ia_intent a = OTHER \<or> ia_confidence a < rt_min_confidence rt \<or>
     get_intent (rt_table rt) (ia_intent a) = None"
  by (simp add: decide_route_def to_fallback_def split: option.split)

lemma route_Inr:
  "route rt message a w = (Inr r, w') \<longleftrightarrow>
   message \<noteq> [] \<and> (\<exists>response. ih_handle (chosen_handler rt a) \<lparr>hq_message = message, hq_analysis = a\<rparr> w = (Inr response, w') \<and>
     finish_route rt message a response = Inr r)"
  by (auto simp: route_def HandlerRequest_def split: prod.splits sum.splits)

lemma enforce_shape:
  assumes "enforce engine message a proposed handled = Inr e"
  shows "er_reply e \<noteq> []" "er_modified e \<longleftrightarrow> er_action e \<noteq> ALLOW \<and> (er_action e = BLOCK \<or> er_reply e \<noteq> proposed)"
    "er_action e = ALLOW \<Longrightarrow> er_reply e = proposed" "er_handled e \<Longrightarrow> handled"
  using assms
  by (auto simp: enforce_def apply_evaluation_def EnforcedReply_def Let_def
      split: policy_action.splits option.splits if_splits)

lemma enforce_default_total:
  "proposed \<noteq> [] \<Longrightarrow> \<exists>e. enforce (default_rules wide) message a proposed handled = Inr e"
  by (simp only: enforce_default EnforcedReply_def enforced_reply.select_convs split: if_split) blast

lemma route_reply_ne:
  assumes "route rt message a w = (Inr r, w')" "rt_enforcer rt \<noteq> None"
  shows "rr_reply r \<noteq> []"
proof -
  from assms(1) obtain response where "finish_route rt message a response = Inr r" unfolding route_Inr by blast
  with assms(2) enforce_shape(1) show ?thesis
    by (auto simp: finish_route_def Let_def split: sum.splits)
qed

text \<open>
  The wired router keeps its promises for any two capabilities behind it. Its table is
  complete; no reply it returns commits to money; a complaint, a message without a category
  and one below the confidence threshold get the hand-off to a person word for word, and so
  does every message that was not resolved.
\<close>

lemma built_router_safe:
  assumes "ih_name kb \<noteq> []" "ih_name ag \<noteq> []"
    and "build_router wide kb ag min_confidence = Inr rt" "route rt message a w = (Inr r, w')"
  shows "unmapped (rt_table rt) = [] \<and> \<not> commits wide (rr_reply r) \<and>
    (ia_intent a \<in> {COMPLAINT, OTHER} \<or> ia_confidence a < min_confidence \<or> \<not> rr_handled r \<longrightarrow>
       rr_reply r = REVIEW_REPLY)"
proof -
  have rt: "rt = \<lparr>rt_table = routing_table kb ag, rt_fallback = fallback_handler, rt_min_confidence = min_confidence,
      rt_enforcer = Some (default_rules wide)\<rparr>"
    using assms(3) by (simp add: build_router_Inr [OF assms(1,2)])
  from assms(4) obtain response where resp:
    "ih_handle (chosen_handler rt a) \<lparr>hq_message = message, hq_analysis = a\<rparr> w = (Inr response, w')"
    "finish_route rt message a response = Inr r" unfolding route_Inr by blast
  from resp(2) obtain e where e: "enforce (default_rules wide) message a (hr_reply response) (hr_handled response) = Inr e"
    and r: "rr_reply r = er_reply e" "rr_handled r = er_handled e"
    by (auto simp: finish_route_def rt Let_def split: sum.splits)
  have unhandled: "\<not> hr_handled response" if "rd_fallback (decide_route rt a)"
    using that resp(1) by (auto simp: chosen_handler_def rt fallback_handler_def HandlerResponse_def split: if_splits)
  have "er_reply e = REVIEW_REPLY" if "ia_intent a = COMPLAINT \<or> \<not> hr_handled response"
    using e that by (auto simp: enforce_default)
  moreover have "er_handled e = hr_handled response"
    using e by (auto simp: enforce_default EnforcedReply_def split: if_splits)
  moreover have "\<not> commits wide (er_reply e)"
    using e REVIEW_REPLY_no_commitment [of wide] by (auto simp: enforce_default EnforcedReply_def split: if_splits)
  moreover have "unmapped (rt_table rt) = []"
    by (simp add: rt unmapped_def has_intent_def routing_table_def all_intents_def)
  ultimately show ?thesis
    using unhandled decide_route_fallback [of rt a] by (auto simp: r rt)
qed

subsection \<open>Properties\<close>

text \<open>
  Only a confident, mapped classification reaches a specialised handler. The reason given
  is the first that applies, in the order category, confidence, table; every other message is
  answered by the fallback, whose reply is then the only one produced.
\<close>

theorem routing_decision_sound:
  "rd_reason (decide_route rt a) =
     (if ia_intent a = OTHER then NO_CATEGORY
      else if ia_confidence a < rt_min_confidence rt then LOW_CONFIDENCE
      else if get_intent (rt_table rt) (ia_intent a) = None then NO_HANDLER else MATCHED) \<and>
   (rd_fallback (decide_route rt a) \<longleftrightarrow> rd_reason (decide_route rt a) \<noteq> MATCHED) \<and>
   rd_handler (decide_route rt a) = ih_name (chosen_handler rt a) \<and>
   chosen_handler rt a =
     (if rd_reason (decide_route rt a) = MATCHED then the (get_intent (rt_table rt) (ia_intent a)) else rt_fallback rt)"
  by (auto simp: decide_route_def to_fallback_def chosen_handler_def split: option.splits)

text \<open>
  A routed reply is attributed to its author. When policy left the reply alone it is the
  response of the chosen handler, with that handler's name and its citations; when policy
  changed it, the reply is the enforced one and carries no citation. Policy never turns an
  unresolved response into a resolved one.
\<close>

theorem routed_reply_attributed:
  assumes "route rt message a w = (Inr r, w')"
  shows "\<exists>response. ih_handle (chosen_handler rt a) \<lparr>hq_message = message, hq_analysis = a\<rparr> w = (Inr response, w') \<and>
    rd_handler (rr_decision r) = hr_handler response \<and>
    (rr_handled r \<longrightarrow> hr_handled response) \<and>
    (if rr_policy_modified r then rr_citations r = [] \<and> rr_policy_rule r \<noteq> None
     else rr_reply r = hr_reply response \<and> rr_citations r = hr_citations response)"
proof -
  from assms obtain response where resp:
    "ih_handle (chosen_handler rt a) \<lparr>hq_message = message, hq_analysis = a\<rparr> w = (Inr response, w')"
    "finish_route rt message a response = Inr r" unfolding route_Inr by blast
  have "rd_handler (rr_decision r) = hr_handler response \<and> (rr_handled r \<longrightarrow> hr_handled response) \<and>
    (if rr_policy_modified r then rr_citations r = [] \<and> rr_policy_rule r \<noteq> None
     else rr_reply r = hr_reply response \<and> rr_citations r = hr_citations response)"
  proof (cases "rt_enforcer rt")
    case None
    with resp(2) show ?thesis by (auto simp: finish_route_def)
  next
    case (Some engine)
    with resp(2) obtain e where e: "enforce engine message a (hr_reply response) (hr_handled response) = Inr e"
      and r: "rr_handled r = er_handled e" "rr_policy_modified r = er_modified e" "rr_reply r = er_reply e"
        "rr_citations r = (if er_modified e then [] else hr_citations response)" "rr_policy_rule r = Some (er_rule e)"
        "rd_handler (rr_decision r) = hr_handler response"
      by (auto simp: finish_route_def Let_def split: sum.splits)
    from enforce_shape [OF e] show ?thesis by (cases "er_action e") (auto simp: r)
  qed
  with resp(1) show ?thesis by blast
qed

text \<open>
  A billing message is answered from the documentation when it can be. The pair returns
  the documented response exactly when that one was handled, and only otherwise runs the
  agent, in the world the first attempt left.
\<close>

theorem documented_first_order:
  assumes "ih_handle (documented_first d otherwise) q w = (Inr r, w')"
  shows "\<exists>first w1. ih_handle d q w = (Inr first, w1) \<and>
    (if hr_handled first then r = first \<and> w' = w1 else ih_handle otherwise q w1 = (Inr r, w'))"
  using assms by (auto simp: documented_first_def split: prod.splits sum.splits if_splits)

text \<open>Two capabilities: documentation that never answers, and an agent that promises money.\<close>

definition sample_kb :: "nat intent_handler" where
  "sample_kb =
     knowledge_base_handler
       (\<lambda>_ _ w. (Inr \<lparr>ga_answered = False, ga_answer = NO_SOURCES_ANSWER, ga_citations = []\<rparr>, w + 1)) 4"

definition sample_agent :: "nat intent_handler" where
  "sample_agent =
     agent_handler (\<lambda>q w.
       (Inr \<lparr>ao_run_id = [], ao_question = q, ao_answer = str ''We guarantee a full refund.'', ao_completed = True,
             ao_steps = [], ao_tool_calls = 0, ao_stop_reason = str ''answered''\<rparr>, w + 1))"

definition sample_analysis :: intent_analysis where
  "sample_analysis = \<lparr>ia_intent = BILLING, ia_confidence = 9 / 10, ia_reason = str ''r''\<rparr>"

lemma sample_names: "ih_name sample_kb \<noteq> []" "ih_name sample_agent \<noteq> []"
  by (simp_all add: sample_kb_def sample_agent_def knowledge_base_handler_def agent_handler_def)

lemma sample_pair:
  "\<exists>r. ih_handle (documented_first sample_kb sample_agent) q w = (Inr r, w + 1 + 1) \<and> hr_handler r = str ''agent''"
  by (simp add: documented_first_def sample_kb_def sample_agent_def knowledge_base_handler_def agent_handler_def
      HandlerResponse_def NO_SOURCES_ANSWER_def)

lemma sample_route:
  assumes "build_router wide sample_kb sample_agent (1 / 2) = Inr rt"
  shows "\<exists>r. route rt (str ''q'') sample_analysis 0 = (Inr r, 0 + 1 + 1)"
proof -
  have rt: "rt = \<lparr>rt_table = routing_table sample_kb sample_agent, rt_fallback = fallback_handler,
      rt_min_confidence = 1 / 2, rt_enforcer = Some (default_rules wide)\<rparr>"
    using assms by (simp add: build_router_Inr [OF sample_names])
  have chosen: "chosen_handler rt sample_analysis = documented_first sample_kb sample_agent"
    by (simp add: chosen_handler_def decide_route_def rt sample_analysis_def get_intent_def routing_table_def to_fallback_def)
  obtain p where p: "ih_handle (documented_first sample_kb sample_agent)
      \<lparr>hq_message = str ''q'', hq_analysis = sample_analysis\<rparr> 0 = (Inr p, 0 + 1 + 1)" "hr_handler p = str ''agent''"
    using sample_pair by blast
  have reply: "hr_reply p \<noteq> []"
    using p(1) by (auto simp: documented_first_def sample_kb_def sample_agent_def knowledge_base_handler_def
        agent_handler_def HandlerResponse_def NO_SOURCES_ANSWER_def split: if_splits)
  from enforce_default_total [OF this] obtain e where
    "enforce (default_rules wide) (str ''q'') sample_analysis (hr_reply p) (hr_handled p) = Inr e" by blast
  then obtain r where "finish_route rt (str ''q'') sample_analysis p = Inr r"
    by (simp add: finish_route_def rt Let_def)
  with p chosen show ?thesis unfolding route_Inr by fastforce
qed

lemma routed_reply_attributed_witness:
  "\<exists>rt r response. build_router (\<lambda>_. False) sample_kb sample_agent (1 / 2) = Inr rt \<and>
     route rt (str ''q'') sample_analysis 0 = (Inr r, 2) \<and>
     ih_handle (chosen_handler rt sample_analysis) \<lparr>hq_message = str ''q'', hq_analysis = sample_analysis\<rparr> 0 =
       (Inr response, 2) \<and> rd_handler (rr_decision r) = hr_handler response"
proof -
  obtain rt where rt: "build_router (\<lambda>_. False) sample_kb sample_agent (1 / 2) = Inr rt"
    using build_router_Inr [OF sample_names] by blast
  from sample_route [OF rt] obtain r where r: "route rt (str ''q'') sample_analysis 0 = (Inr r, 0 + 1 + 1)" by blast
  from routed_reply_attributed [OF r] obtain response where
    "ih_handle (chosen_handler rt sample_analysis) \<lparr>hq_message = str ''q'', hq_analysis = sample_analysis\<rparr> 0 =
       (Inr response, 0 + 1 + 1)" "rd_handler (rr_decision r) = hr_handler response" by blast
  with rt r show ?thesis by (intro exI [of _ rt] exI [of _ r] exI [of _ response]) simp
qed

lemma documented_first_order_witness:
  "\<exists>r. ih_handle (documented_first sample_kb sample_agent) \<lparr>hq_message = str ''q'', hq_analysis = sample_analysis\<rparr> 0 = (Inr r, 2) \<and>
     (\<exists>first w1. ih_handle sample_kb \<lparr>hq_message = str ''q'', hq_analysis = sample_analysis\<rparr> 0 = (Inr first, w1))"
proof -
  obtain r where r: "ih_handle (documented_first sample_kb sample_agent)
      \<lparr>hq_message = str ''q'', hq_analysis = sample_analysis\<rparr> 0 = (Inr r, 0 + 1 + 1)"
    using sample_pair by blast
  from documented_first_order [OF r] r show ?thesis by auto
qed

end
