(* ===== verification/Escalation.thy ===== *)
theory Escalation
  imports Routing
begin

text \<open>
  \<open>escalation/\<close> and the human review queue of \<open>services/review.py\<close>: the criteria, the hand-off
  that tells the customer and records the request, and the queue as the table its transactions
  leave behind. Identifiers and creation times are the database's and arguments here.
\<close>

subsection \<open>Criteria\<close>

datatype escalation_reason = ESC_UNRESOLVED | ESC_LOW_CONFIDENCE | ESC_UNCATEGORISED | ESC_POLICY | ESC_COMPLAINT

fun reason_value :: "escalation_reason \<Rightarrow> pystr" where
  "reason_value ESC_UNRESOLVED = str ''unresolved''"
| "reason_value ESC_LOW_CONFIDENCE = str ''low_confidence''"
| "reason_value ESC_UNCATEGORISED = str ''uncategorised''"
| "reason_value ESC_POLICY = str ''policy''"
| "reason_value ESC_COMPLAINT = str ''complaint''"

record escalation_context =
  esc_message :: pystr
  esc_analysis :: intent_analysis
  esc_handled :: bool
  esc_policy_modified :: bool
  esc_policy_rule :: "pystr option"

definition EscalationContext ::
  "pystr \<Rightarrow> intent_analysis \<Rightarrow> bool \<Rightarrow> bool \<Rightarrow> pystr option \<Rightarrow> escalation_context result" where
  "EscalationContext message analysis handled modified rule =
     (if message = [] then Inl (too_short ''message'')
      else Inr \<lparr>esc_message = message, esc_analysis = analysis, esc_handled = handled,
                esc_policy_modified = modified, esc_policy_rule = rule\<rparr>)"

record escalation_verdict =
  ev_escalate :: bool
  ev_reasons :: "escalation_reason list"

definition primary :: "escalation_verdict \<Rightarrow> escalation_reason option" where
  "primary v = (case ev_reasons v of [] \<Rightarrow> None | r # _ \<Rightarrow> Some r)"

definition evaluate_criteria :: "rat \<Rightarrow> escalation_context \<Rightarrow> escalation_verdict" where
  "evaluate_criteria min_confidence c =
     (let reasons =
        (if \<not> esc_handled c then [ESC_UNRESOLVED] else []) @
        (if ia_intent (esc_analysis c) = COMPLAINT then [ESC_COMPLAINT] else []) @
        (if ia_intent (esc_analysis c) = OTHER then [ESC_UNCATEGORISED]
         else if ia_confidence (esc_analysis c) < min_confidence then [ESC_LOW_CONFIDENCE] else []) @
        (if esc_policy_modified c then [ESC_POLICY] else [])
      in \<lparr>ev_escalate = (reasons \<noteq> []), ev_reasons = reasons\<rparr>)"

subsection \<open>The review queue\<close>

datatype review_status = PENDING_REVIEW | CLAIMED | RESOLVED

fun review_status_value :: "review_status \<Rightarrow> pystr" where
  "review_status_value PENDING_REVIEW = str ''pending''"
| "review_status_value CLAIMED = str ''claimed''"
| "review_status_value RESOLVED = str ''resolved''"

record review_item =
  ri_id :: pystr
  ri_created :: rat
  ri_ticket :: "pystr option"
  ri_message :: pystr
  ri_proposed :: "pystr option"
  ri_intent :: pystr
  ri_reason :: pystr
  ri_status :: review_status
  ri_resolution :: "pystr option"

text \<open>
  The flush of an insert checks the primary key, the constraint on the message and the
  reference to a ticket (\<open>tickets\<close> are the stored ids); a refused insert leaves the table as it
  was.
\<close>

definition enqueue_review ::
  "pystr set \<Rightarrow> pystr \<Rightarrow> rat \<Rightarrow> pystr \<Rightarrow> intent_category \<Rightarrow> escalation_reason \<Rightarrow> pystr option \<Rightarrow> pystr option \<Rightarrow>
   review_item list \<Rightarrow> review_item result \<times> review_item list" where
  "enqueue_review tickets new_id now message intent reason proposed ticket items =
     (let item = \<lparr>ri_id = new_id, ri_created = now, ri_ticket = ticket, ri_message = message, ri_proposed = proposed,
                  ri_intent = intent_value intent, ri_reason = reason_value reason, ri_status = PENDING_REVIEW,
                  ri_resolution = None\<rparr>
      in if blank message \<or> new_id \<in> ri_id ` set items \<or> (\<exists>t \<in> set_option ticket. t \<notin> tickets)
         then (Inl IntegrityError, items)
         else (Inr item, items @ [item]))"

definition find_review :: "pystr \<Rightarrow> review_item list \<Rightarrow> review_item option" where
  "find_review i items = List.find (\<lambda>x. ri_id x = i) items"

definition get_review :: "pystr \<Rightarrow> review_item list \<Rightarrow> review_item result" where
  "get_review i items =
     (case find_review i items of
        None \<Rightarrow> raise_app ReviewItemNotFoundError None (Some [(str ''review_id'', PStr i)])
      | Some x \<Rightarrow> Inr x)"

definition pending_reviews :: "nat \<Rightarrow> nat \<Rightarrow> review_item list \<Rightarrow> review_item list" where
  "pending_reviews limit offset items =
     take (min limit 100) (drop offset
       (sort_key (\<lambda>x. (ri_created x, ri_id x)) (filter (\<lambda>x. ri_status x = PENDING_REVIEW) items)))"

text \<open>The update and its condition are one statement, so claiming is one atomic step.\<close>

definition claim_review :: "pystr \<Rightarrow> review_item list \<Rightarrow> review_item option result \<times> review_item list" where
  "claim_review i items =
     (let hits = filter (\<lambda>x. ri_id x = i \<and> ri_status x = PENDING_REVIEW) items;
          items1 = map (\<lambda>x. if ri_id x = i \<and> ri_status x = PENDING_REVIEW then x\<lparr>ri_status := CLAIMED\<rparr> else x) items
      in if hits = [] then (Inr None, items1)
         else (case get_review i items1 of Inl e \<Rightarrow> (Inl e, items1) | Inr x \<Rightarrow> (Inr (Some x), items1)))"

definition resolve_review :: "pystr \<Rightarrow> pystr \<Rightarrow> review_item list \<Rightarrow> review_item result \<times> review_item list" where
  "resolve_review i resolution items =
     (case get_review i items of
        Inl e \<Rightarrow> (Inl e, items)
      | Inr x \<Rightarrow>
          (let x1 = x\<lparr>ri_status := RESOLVED, ri_resolution := Some resolution\<rparr>
           in (Inr x1, map (\<lambda>y. if ri_id y = i then x1 else y) items)))"

definition review_counts :: "review_item list \<Rightarrow> (pystr \<times> nat) list" where
  "review_counts items =
     map (\<lambda>s. (review_status_value s, length (filter (\<lambda>x. ri_status x = s) items)))
       [PENDING_REVIEW, CLAIMED, RESOLVED]"

subsection \<open>The hand-off\<close>

definition HANDOFF_NOTICE :: pystr where
  "HANDOFF_NOTICE = str '' A support agent will follow up with you.''"

record handoff_result =
  ho_reply :: pystr
  ho_escalated :: bool
  ho_reasons :: "escalation_reason list"
  ho_review_id :: "pystr option"
  ho_queued :: bool

definition HandoffResult :: "handoff_result \<Rightarrow> handoff_result result" where
  "HandoffResult r = (if ho_reply r = [] then Inl (too_short ''reply'') else Inr r)"

definition with_notice :: "pystr \<Rightarrow> pystr" where
  "with_notice reply =
     (if contains (str ''support agent'') (lower reply) then reply else rstrip reply @ HANDOFF_NOTICE)"

definition analysis_of :: "routed_reply \<Rightarrow> intent_analysis result" where
  "analysis_of routed =
     IntentAnalysis (rd_intent (rr_decision routed)) (rd_confidence (rr_decision routed)) (str ''routed'')"

text \<open>\<open>enqueue\<close> is the queue's operation as the service sees it: it may raise anything.\<close>

type_synonym 'w review_enqueue =
  "pystr \<Rightarrow> intent_category \<Rightarrow> escalation_reason \<Rightarrow> pystr option \<Rightarrow> pystr option \<Rightarrow> 'w \<Rightarrow> review_item result \<times> 'w"

definition record_review ::
  "'w review_enqueue \<Rightarrow> pystr \<Rightarrow> routed_reply \<Rightarrow> escalation_reason option \<Rightarrow> pystr option \<Rightarrow> 'w \<Rightarrow>
   (pystr option \<times> bool) result \<times> 'w" where
  "record_review enqueue message routed reason ticket w =
     (case enqueue message (rd_intent (rr_decision routed))
         (case reason of None \<Rightarrow> ESC_UNRESOLVED | Some r \<Rightarrow> r) (Some (rr_reply routed)) ticket w of
        (Inl e, w1) \<Rightarrow> if sqlalchemy_failure e then (Inr (None, False), w1) else (Inl e, w1)
      | (Inr item, w1) \<Rightarrow> (Inr (Some (ri_id item), True), w1))"

definition consider_handoff ::
  "'w review_enqueue \<Rightarrow> rat \<Rightarrow> pystr \<Rightarrow> routed_reply \<Rightarrow> pystr option \<Rightarrow> 'w \<Rightarrow> handoff_result result \<times> 'w" where
  "consider_handoff enqueue min_confidence message routed ticket w =
     (case analysis_of routed of
        Inl e \<Rightarrow> (Inl e, w)
      | Inr analysis \<Rightarrow>
          (case EscalationContext message analysis (rr_handled routed) (rr_policy_modified routed) (rr_policy_rule routed) of
             Inl e \<Rightarrow> (Inl e, w)
           | Inr c \<Rightarrow>
               (let verdict = evaluate_criteria min_confidence c in
                if \<not> ev_escalate verdict then
                  (HandoffResult \<lparr>ho_reply = rr_reply routed, ho_escalated = False, ho_reasons = [],
                     ho_review_id = None, ho_queued = False\<rparr>, w)
                else
                  (case record_review enqueue message routed (primary verdict) ticket w of
                     (Inl e, w1) \<Rightarrow> (Inl e, w1)
                   | (Inr (review_id, queued), w1) \<Rightarrow>
                       (HandoffResult \<lparr>ho_reply = with_notice (rr_reply routed), ho_escalated = True,
                          ho_reasons = ev_reasons verdict, ho_review_id = review_id, ho_queued = queued\<rparr>, w1)))))"

subsection \<open>Lemmas\<close>

lemma evaluate_escalates:
  "ev_escalate (evaluate_criteria mc c) \<longleftrightarrow> \<not> esc_handled c \<or> ia_intent (esc_analysis c) \<in> {COMPLAINT, OTHER} \<or>
     ia_confidence (esc_analysis c) < mc \<or> esc_policy_modified c"
  by (auto simp: evaluate_criteria_def Let_def)

lemma evaluate_reasons: "ev_escalate (evaluate_criteria mc c) \<longleftrightarrow> ev_reasons (evaluate_criteria mc c) \<noteq> []"
  by (simp add: evaluate_criteria_def Let_def)

lemma lower_notice: "lower HANDOFF_NOTICE = str '' a support agent will follow up with you.''"
  by (simp add: HANDOFF_NOTICE_def lower_def lower_cp_def str_def)

lemma with_notice_mentions: "contains (str ''support agent'') (lower (with_notice reply))"
proof (cases "contains (str ''support agent'') (lower reply)")
  case False
  have "lower (rstrip reply @ HANDOFF_NOTICE) =
      (lower (rstrip reply) @ str '' a '') @ str ''support agent'' @ str '' will follow up with you.''"
    by (simp add: lower_notice) (simp add: str_def)
  then have "contains (str ''support agent'') (lower (rstrip reply @ HANDOFF_NOTICE))"
    by (simp only: contains_mid)
  with False show ?thesis by (simp add: with_notice_def)
qed (simp add: with_notice_def)

lemma with_notice_keeps: "prefix (rstrip reply) (with_notice reply)"
  by (simp add: with_notice_def rstrip_prefix)

lemma with_notice_ne: "with_notice reply \<noteq> []"
  using with_notice_mentions [of reply] by (auto simp: lower_def)

lemma with_notice_idem: "with_notice (with_notice reply) = with_notice reply"
  by (subst with_notice_def) (simp add: with_notice_mentions)

text \<open>What considering a routed reply comes to.\<close>

lemma record_review_Inr: "record_review enq message routed reason ticket w = (Inr (i, q), w') \<Longrightarrow> q \<longleftrightarrow> i \<noteq> None"
  by (auto simp: record_review_def split: prod.splits sum.splits if_splits)

lemma consider_handoff_Inr:
  assumes "consider_handoff enq mc message routed ticket w = (Inr h, w')"
  shows "(if ho_escalated h then ho_reply h = with_notice (rr_reply routed) \<and> ho_reasons h \<noteq> [] \<and>
        (ho_queued h \<longleftrightarrow> ho_review_id h \<noteq> None)
     else ho_reply h = rr_reply routed \<and> w' = w \<and> ho_review_id h = None) \<and>
    (ho_escalated h \<longleftrightarrow> \<not> rr_handled routed \<or> rd_intent (rr_decision routed) \<in> {COMPLAINT, OTHER} \<or>
       rd_confidence (rr_decision routed) < mc \<or> rr_policy_modified routed)"
proof -
  from assms obtain a c where ac: "analysis_of routed = Inr a"
    "EscalationContext message a (rr_handled routed) (rr_policy_modified routed) (rr_policy_rule routed) = Inr c"
    by (auto simp: consider_handoff_def split: sum.splits)
  then have a: "ia_intent a = rd_intent (rr_decision routed)" "ia_confidence a = rd_confidence (rr_decision routed)"
    and c: "esc_analysis c = a" "esc_handled c = rr_handled routed" "esc_policy_modified c = rr_policy_modified routed"
    by (auto simp: analysis_of_def IntentAnalysis_Inr EscalationContext_def split: if_splits)
  show ?thesis
  proof (cases "ev_escalate (evaluate_criteria mc c)")
    case True
    with assms obtain i q where "record_review enq message routed (primary (evaluate_criteria mc c)) ticket w = (Inr (i, q), w')"
      "h = \<lparr>ho_reply = with_notice (rr_reply routed), ho_escalated = True, ho_reasons = ev_reasons (evaluate_criteria mc c),
            ho_review_id = i, ho_queued = q\<rparr>"
      by (auto simp: consider_handoff_def ac Let_def HandoffResult_def split: if_splits prod.splits sum.splits)
    with True record_review_Inr show ?thesis
      using evaluate_escalates [of mc c] evaluate_reasons [of mc c] by (simp add: a c)
  next
    case False
    with assms have "h = \<lparr>ho_reply = rr_reply routed, ho_escalated = False, ho_reasons = [], ho_review_id = None,
        ho_queued = False\<rparr>" "w' = w"
      by (auto simp: consider_handoff_def ac Let_def HandoffResult_def split: if_splits)
    with False show ?thesis using evaluate_escalates [of mc c] by (simp add: a c)
  qed
qed

lemma consider_handoff_total:
  assumes "message \<noteq> []" "rr_reply routed \<noteq> []" "0 \<le> rd_confidence (rr_decision routed)" "rd_confidence (rr_decision routed) \<le> 1"
    and "\<And>m i r p t w e. fst (enq m i r p t w) = Inl e \<Longrightarrow> sqlalchemy_failure e"
  shows "\<exists>h w'. consider_handoff enq mc message routed ticket w = (Inr h, w')"
proof -
  obtain a where a: "analysis_of routed = Inr a"
    using assms(3,4) by (simp add: analysis_of_def IntentAnalysis_Inr analysis_ok_def)
  obtain c where c: "EscalationContext message a (rr_handled routed) (rr_policy_modified routed) (rr_policy_rule routed) = Inr c"
    using assms(1) by (simp add: EscalationContext_def)
  have "\<exists>i q w'. record_review enq message routed reason ticket w = (Inr (i, q), w')" for reason
  proof (cases "enq message (rd_intent (rr_decision routed)) (case reason of None \<Rightarrow> ESC_UNRESOLVED | Some r \<Rightarrow> r)
      (Some (rr_reply routed)) ticket w")
    case (Pair out w')
    then show ?thesis using assms(5) by (cases out) (auto simp: record_review_def, metis fst_conv)
  qed
  then obtain i q w' where "record_review enq message routed (primary (evaluate_criteria mc c)) ticket w = (Inr (i, q), w')"
    by meson
  with assms(2) show ?thesis
    by (simp add: consider_handoff_def a c HandoffResult_def with_notice_ne Let_def split: if_split)
qed

text \<open>Claims over a sequence of operations by any number of reviewers.\<close>

datatype review_op =
    Enqueue_Review "pystr set" pystr rat pystr intent_category escalation_reason "pystr option" "pystr option"
  | Claim_Review pystr
  | Resolve_Review pystr pystr

fun review_step :: "review_op \<Rightarrow> review_item list \<Rightarrow> bool \<times> review_item list" where
  "review_step (Enqueue_Review ts i now m c r p t) items =
     (case enqueue_review ts i now m c r p t items of (out, items1) \<Rightarrow> (\<not> isl out, items1))"
| "review_step (Claim_Review i) items =
     (case claim_review i items of (out, items1) \<Rightarrow> (\<exists>x. out = Inr (Some x), items1))"
| "review_step (Resolve_Review i res) items =
     (case resolve_review i res items of (out, items1) \<Rightarrow> (\<not> isl out, items1))"

fun review_run :: "review_op list \<Rightarrow> review_item list \<Rightarrow> (review_op \<times> bool) list \<times> review_item list" where
  "review_run [] items = ([], items)"
| "review_run (op # ops) items =
     (case review_step op items of (ok, items1) \<Rightarrow>
        case review_run ops items1 of (trail, items2) \<Rightarrow> ((op, ok) # trail, items2))"

definition claimable :: "pystr \<Rightarrow> review_item list \<Rightarrow> nat" where
  "claimable i items = (if \<exists>x \<in> set items. ri_id x = i \<and> ri_status x \<noteq> PENDING_REVIEW then 0 else 1)"

definition reviews_ok :: "review_item list \<Rightarrow> bool" where
  "reviews_ok items \<longleftrightarrow> distinct (map ri_id items) \<and>
     (\<forall>x \<in> set items. (ri_status x = RESOLVED) = (ri_resolution x \<noteq> None))"

lemma find_review_Some:
  assumes "distinct (map ri_id items)"
  shows "find_review i items = Some x \<longleftrightarrow> x \<in> set items \<and> ri_id x = i"
proof
  assume "find_review i items = Some x"
  then show "x \<in> set items \<and> ri_id x = i" by (auto simp: find_review_def find_Some_iff)
next
  assume "x \<in> set items \<and> ri_id x = i"
  with find_by_key [of ri_id items x] assms show "find_review i items = Some x" by (auto simp: find_review_def)
qed

lemma enqueue_review_cases:
  "enqueue_review ts i now m c r p t items = (out, items') \<Longrightarrow>
   isl out \<and> items' = items \<or>
   (\<exists>x. out = Inr x \<and> items' = items @ [x] \<and> ri_id x = i \<and> ri_status x = PENDING_REVIEW \<and> ri_resolution x = None \<and>
      i \<notin> ri_id ` set items)"
  by (auto simp: enqueue_review_def Let_def split: if_splits)


lemma claim_review_eq:
  assumes "distinct (map ri_id items)"
  shows "claim_review i items =
    (case find_review i items of
       None \<Rightarrow> (Inr None, items)
     | Some x \<Rightarrow> if ri_status x = PENDING_REVIEW
         then (Inr (Some (x\<lparr>ri_status := CLAIMED\<rparr>)), map (\<lambda>y. if ri_id y = i then x\<lparr>ri_status := CLAIMED\<rparr> else y) items)
         else (Inr None, items))"
proof (cases "find_review i items")
  case None
  then have "\<forall>y \<in> set items. ri_id y \<noteq> i" by (simp add: find_review_def find_None_iff)
  then have "filter (\<lambda>y. ri_id y = i \<and> ri_status y = PENDING_REVIEW) items = []"
    "map (\<lambda>y. if ri_id y = i \<and> ri_status y = PENDING_REVIEW then y\<lparr>ri_status := CLAIMED\<rparr> else y) items = items"
    by (auto simp: filter_empty_conv intro!: map_idI)
  with None show ?thesis by (simp add: claim_review_def)
next
  case (Some x)
  then have x: "x \<in> set items" "ri_id x = i" using find_review_Some [OF assms] by auto
  have same: "y = x" if "y \<in> set items" "ri_id y = i" for y
    using find_review_Some [OF assms, of i] Some that by force
  let ?upd = "\<lambda>y. if ri_id y = i \<and> ri_status y = PENDING_REVIEW then y\<lparr>ri_status := CLAIMED\<rparr> else y"
  show ?thesis
  proof (cases "ri_status x = PENDING_REVIEW")
    case True
    have upd: "map ?upd items = map (\<lambda>y. if ri_id y = i then x\<lparr>ri_status := CLAIMED\<rparr> else y) items"
      using same True by (intro map_cong) auto
    moreover have "filter (\<lambda>y. ri_id y = i \<and> ri_status y = PENDING_REVIEW) items \<noteq> []"
      using x True by (auto simp: filter_empty_conv)
    moreover have "find_review i (map ?upd items) = Some (x\<lparr>ri_status := CLAIMED\<rparr>)"
    proof -
      have "map ri_id (map ?upd items) = map ri_id items" by auto
      with assms have "distinct (map ri_id (map ?upd items))" by (simp only:)
      from find_review_Some [OF this] x True show ?thesis by force
    qed
    ultimately show ?thesis using Some True by (simp add: claim_review_def get_review_def)
  next
    case False
    with same have "filter (\<lambda>y. ri_id y = i \<and> ri_status y = PENDING_REVIEW) items = []" "map ?upd items = items"
      by (auto simp: filter_empty_conv intro!: map_idI)
    with False Some show ?thesis by (simp add: claim_review_def)
  qed
qed

lemma ids_of_update: "ri_id x = i \<Longrightarrow> map ri_id (map (\<lambda>y. if ri_id y = i then x else y) items) = map ri_id items"
  by auto

lemma review_step_ok:
  assumes "reviews_ok items" "review_step op items = (ok, items')"
  shows "reviews_ok items'"
    and "(if op = Claim_Review i \<and> ok then 1 else 0) + claimable i items' \<le> claimable i items"
proof -
  have d: "distinct (map ri_id items)" using assms(1) by (simp add: reviews_ok_def)
  have "reviews_ok items' \<and> (if op = Claim_Review i \<and> ok then 1 else 0) + claimable i items' \<le> claimable i items"
  proof (cases op)
    case (Enqueue_Review ts j now m c r p t)
    then obtain out where out: "enqueue_review ts j now m c r p t items = (out, items')"
      using assms(2) by (auto split: prod.splits)
    from enqueue_review_cases [OF out] Enqueue_Review assms(1) show ?thesis
      by (auto simp: reviews_ok_def claimable_def)
  next
    case (Claim_Review j)
    show ?thesis
    proof (cases "find_review j items")
      case None
      with Claim_Review assms show ?thesis by (auto simp: claim_review_eq [OF d])
    next
      case (Some x)
      then have x: "x \<in> set items" "ri_id x = j" using find_review_Some [OF d] by auto
      let ?x = "x\<lparr>ri_status := CLAIMED\<rparr>"
      show ?thesis
      proof (cases "ri_status x = PENDING_REVIEW")
        case True
        with Claim_Review Some assms(2) have new: "ok" "items' = map (\<lambda>y. if ri_id y = j then ?x else y) items"
          by (auto simp: claim_review_eq [OF d])
        have "distinct (map ri_id items')"
          using d x(2) by (simp only: new(2)) (subst ids_of_update; simp)
        moreover have "(ri_status y = RESOLVED) = (ri_resolution y \<noteq> None)" if "y \<in> set items'" for y
          using that assms(1) x True by (auto simp: new(2) reviews_ok_def split: if_splits)
        moreover have "claimable j items = 1"
        proof -
          have "y = x" if "y \<in> set items" "ri_id y = j" for y
            using find_review_Some [OF d, of j] Some that by force
          with True show ?thesis by (auto simp: claimable_def)
        qed
        moreover have "claimable j items' = 0"
        proof -
          have "?x \<in> set items'" using x by (force simp: new(2))
          moreover have "ri_id ?x = j \<and> ri_status ?x \<noteq> PENDING_REVIEW" using x(2) by simp
          ultimately show ?thesis unfolding claimable_def by (metis (lifting))
        qed
        moreover have "claimable i items' = claimable i items" if "i \<noteq> j"
          using that x(2) by (auto simp: claimable_def new(2) split: if_splits)
        ultimately show ?thesis using Claim_Review new(1) by (cases "i = j") (auto simp: reviews_ok_def)
      next
        case False
        with Claim_Review Some assms show ?thesis by (auto simp: claim_review_eq [OF d])
      qed
    qed
  next
    case (Resolve_Review j res)
    show ?thesis
    proof (cases "find_review j items")
      case None
      with Resolve_Review assms show ?thesis by (auto simp: resolve_review_def get_review_def raise_app_def)
    next
      case (Some x)
      then have x: "x \<in> set items" "ri_id x = j" using find_review_Some [OF d] by auto
      let ?x = "x\<lparr>ri_status := RESOLVED, ri_resolution := Some res\<rparr>"
      from Some Resolve_Review assms(2) have new: "items' = map (\<lambda>y. if ri_id y = j then ?x else y) items"
        by (auto simp: resolve_review_def get_review_def Let_def)
      have "distinct (map ri_id items')"
        using d x(2) by (simp only: new) (subst ids_of_update; simp)
      moreover have "(ri_status y = RESOLVED) = (ri_resolution y \<noteq> None)" if "y \<in> set items'" for y
        using that assms(1) by (auto simp: new reviews_ok_def split: if_splits)
      moreover have "claimable i items' \<le> claimable i items"
      proof (cases "i = j")
        case True
        have "?x \<in> set items'" using x by (force simp: new)
        moreover have "ri_id ?x = i \<and> ri_status ?x \<noteq> PENDING_REVIEW" using x(2) True by simp
        ultimately have "claimable i items' = 0" unfolding claimable_def by (metis (lifting))
        then show ?thesis by simp
      next
        case False
        with x(2) show ?thesis by (auto simp: claimable_def new split: if_splits)
      qed
      ultimately show ?thesis using Resolve_Review by (auto simp: reviews_ok_def)
    qed
  qed
  then show "reviews_ok items'"
    "(if op = Claim_Review i \<and> ok then 1 else 0) + claimable i items' \<le> claimable i items" by blast+
qed

definition claims_of :: "pystr \<Rightarrow> (review_op \<times> bool) list \<Rightarrow> nat" where
  "claims_of i trail = length (filter (\<lambda>(op, ok). op = Claim_Review i \<and> ok) trail)"

lemma review_run_ok:
  "reviews_ok items \<Longrightarrow> review_run ops items = (trail, items') \<Longrightarrow>
   reviews_ok items' \<and> claims_of i trail + claimable i items' \<le> claimable i items"
proof (induction ops arbitrary: items trail)
  case Nil
  then show ?case by (simp add: claims_of_def)
next
  case (Cons op ops)
  obtain ok items1 where st: "review_step op items = (ok, items1)" by force
  obtain trail1 where rn: "review_run ops items1 = (trail1, items')" "trail = (op, ok) # trail1"
    using Cons.prems(2) by (auto simp: st split: prod.splits)
  from Cons.IH [OF review_step_ok(1) [OF Cons.prems(1) st] rn(1)] review_step_ok(2) [OF Cons.prems(1) st, of i] show ?case by (auto simp: claims_of_def rn(2))
qed

subsection \<open>Properties\<close>

text \<open>
  Who gets a person. The reasons of a verdict are exactly those that apply -- not
  resolved, a complaint, without a category, classified below the threshold, changed by
  policy -- each once and in this order; a request is escalated when there is one, and the
  first is the one it is queued under.
\<close>

theorem escalation_criteria_exact:
  "ev_reasons (evaluate_criteria mc c) = filter (\<lambda>r. case r of
        ESC_UNRESOLVED \<Rightarrow> \<not> esc_handled c
      | ESC_COMPLAINT \<Rightarrow> ia_intent (esc_analysis c) = COMPLAINT
      | ESC_UNCATEGORISED \<Rightarrow> ia_intent (esc_analysis c) = OTHER
      | ESC_LOW_CONFIDENCE \<Rightarrow> ia_intent (esc_analysis c) \<noteq> OTHER \<and> ia_confidence (esc_analysis c) < mc
      | ESC_POLICY \<Rightarrow> esc_policy_modified c)
      [ESC_UNRESOLVED, ESC_COMPLAINT, ESC_UNCATEGORISED, ESC_LOW_CONFIDENCE, ESC_POLICY] \<and>
   (ev_escalate (evaluate_criteria mc c) \<longleftrightarrow> ev_reasons (evaluate_criteria mc c) \<noteq> []) \<and>
   primary (evaluate_criteria mc c) = (if ev_escalate (evaluate_criteria mc c)
      then Some (hd (ev_reasons (evaluate_criteria mc c))) else None)"
  by (simp add: evaluate_criteria_def primary_def Let_def)

text \<open>
  A queueing failure never costs the customer the reply. For a validated classification
  and a queue that fails only as a database does, considering a reply always gives a result:
  without a reason to escalate the reply is sent unchanged and the queue is not touched; with
  one, the reply keeps its text up to trailing white space, tells about the support agent,
  and carries the review's id exactly when it was recorded.
\<close>

theorem handoff_never_loses_the_reply:
  assumes "message \<noteq> []" "rr_reply routed \<noteq> []" "0 \<le> rd_confidence (rr_decision routed)" "rd_confidence (rr_decision routed) \<le> 1"
    and "\<And>m i r p t w e. fst (enqueue m i r p t w) = Inl e \<Longrightarrow> sqlalchemy_failure e"
  shows "\<exists>h w'. consider_handoff enqueue mc message routed ticket w = (Inr h, w') \<and>
    (if ho_escalated h then prefix (rstrip (rr_reply routed)) (ho_reply h) \<and>
        contains (str ''support agent'') (lower (ho_reply h)) \<and> ho_reasons h \<noteq> [] \<and>
        (ho_queued h \<longleftrightarrow> ho_review_id h \<noteq> None)
     else ho_reply h = rr_reply routed \<and> w' = w \<and> ho_review_id h = None) \<and>
    (ho_escalated h \<longleftrightarrow> \<not> rr_handled routed \<or> rd_intent (rr_decision routed) \<in> {COMPLAINT, OTHER} \<or>
       rd_confidence (rr_decision routed) < mc \<or> rr_policy_modified routed)"
proof -
  obtain h w' where h: "consider_handoff enqueue mc message routed ticket w = (Inr h, w')"
    using consider_handoff_total [OF assms(1-4)] assms(5) by meson
  from consider_handoff_Inr [OF h] show ?thesis
    using h with_notice_keeps with_notice_mentions by (intro exI [of _ h] exI [of _ w']) (auto split: if_splits)
qed

text \<open>A routed complaint whose review cannot be stored.\<close>

definition sample_routed :: routed_reply where
  "sample_routed =
     \<lparr>rr_decision = \<lparr>rd_intent = COMPLAINT, rd_confidence = 1, rd_handler = str ''agent'', rd_reason = MATCHED,
                     rd_fallback = False\<rparr>,
      rr_reply = str ''Sorry. '', rr_handled = True, rr_policy_rule = None, rr_policy_modified = False, rr_citations = []\<rparr>"

lemma handoff_never_loses_the_reply_witness:
  "\<exists>h w'. consider_handoff (\<lambda>_ _ _ _ _ w. (Inl (SQLAlchemyError (str ''OperationalError'')), w)) (1 / 2) (str ''q'')
     sample_routed None () = (Inr h, w') \<and> contains (str ''support agent'') (lower (ho_reply h))"
proof -
  have h: "\<exists>h w'. consider_handoff (\<lambda>_ _ _ _ _ w. (Inl (SQLAlchemyError (str ''OperationalError'')), w)) (1 / 2) (str ''q'')
     sample_routed None () = (Inr h, w') \<and>
    (if ho_escalated h then prefix (rstrip (rr_reply sample_routed)) (ho_reply h) \<and>
        contains (str ''support agent'') (lower (ho_reply h)) \<and> ho_reasons h \<noteq> [] \<and>
        (ho_queued h \<longleftrightarrow> ho_review_id h \<noteq> None)
     else ho_reply h = rr_reply sample_routed \<and> w' = () \<and> ho_review_id h = None) \<and>
    (ho_escalated h \<longleftrightarrow> \<not> rr_handled sample_routed \<or> rd_intent (rr_decision sample_routed) \<in> {COMPLAINT, OTHER} \<or>
       rd_confidence (rr_decision sample_routed) < 1 / 2 \<or> rr_policy_modified sample_routed)"
    by (rule handoff_never_loses_the_reply) (auto simp: sample_routed_def)
  then show ?thesis by (auto simp: sample_routed_def split: if_splits)
qed

text \<open>
  C16: No two reviewers take the same item. In any sequence of insertions, claims and
  resolutions on a queue that starts empty, an item is claimed successfully at most once, and
  an item has a resolution exactly when it is resolved.
\<close>

theorem review_claimed_at_most_once:
  assumes "review_run ops [] = (trail, items)"
  shows "claims_of i trail \<le> 1 \<and> distinct (map ri_id items) \<and>
    list_all (\<lambda>x. (ri_status x = RESOLVED) = (ri_resolution x \<noteq> None)) items"
proof -
  have "reviews_ok []" by (simp add: reviews_ok_def)
  from review_run_ok [OF this assms, of i] show ?thesis
    by (auto simp: reviews_ok_def list_all_iff claimable_def split: if_splits)
qed

lemma review_claimed_at_most_once_witness:
  "claims_of (str ''r'') (fst (review_run
     [Enqueue_Review {} (str ''r'') 0 (str ''m'') OTHER ESC_UNCATEGORISED None None, Claim_Review (str ''r''),
      Claim_Review (str ''r''), Resolve_Review (str ''r'') (str ''done''), Claim_Review (str ''r'')] [])) = 1"
proof -
  let ?run = "review_run
     [Enqueue_Review {} (str ''r'') 0 (str ''m'') OTHER ESC_UNCATEGORISED None None, Claim_Review (str ''r''),
      Claim_Review (str ''r''), Resolve_Review (str ''r'') (str ''done''), Claim_Review (str ''r'')] []"
  obtain trail items where run: "?run = (trail, items)" by force
  have "claims_of (str ''r'') trail \<ge> 1"
    using run by (auto simp: claims_of_def enqueue_review_def blank_def str_def claim_review_def get_review_def
        find_review_def resolve_review_def Let_def)
  with review_claimed_at_most_once [OF run, of "str ''r''"] run show ?thesis by simp
qed

end
