(* ===== verification/Conversations.thy ===== *)
theory Conversations
  imports Auth Documents
begin

text \<open>
  \<open>services/conversation.py\<close> with the tables of \<open>models/conversation.py\<close>, and the context window
  of \<open>services/context.py\<close>. The state is what is committed; an append is also given as its two
  database round trips, reading the next position and inserting, so that racing appends are
  runs of a step relation.
\<close>

subsection \<open>Tables\<close>

datatype message_role = CUSTOMER | ASSISTANT

fun role_value :: "message_role \<Rightarrow> pystr" where
  "role_value CUSTOMER = str ''customer''"
| "role_value ASSISTANT = str ''assistant''"

record conversation =
  cv_id :: pystr
  cv_customer :: pystr
  cv_owner :: "pystr option"

record turn =
  tn_conversation :: pystr
  tn_position :: int
  tn_role :: message_role
  tn_content :: pystr
  tn_tokens :: int
  tn_citations :: "citation list"

record conversation_db =
  cd_customers :: "pystr list"
  cd_conversations :: "conversation list"
  cd_turns :: "turn list"

definition estimate_tokens :: "pystr \<Rightarrow> int" where
  "estimate_tokens s = max 1 (- ((- int (length s)) div 4))"

definition start_conversation ::
  "pystr \<Rightarrow> pystr \<Rightarrow> pystr option \<Rightarrow> conversation_db \<Rightarrow> conversation result \<times> conversation_db" where
  "start_conversation new_id customer owner db =
     (let c = \<lparr>cv_id = new_id, cv_customer = customer, cv_owner = owner\<rparr> in
      if customer \<notin> set (cd_customers db) \<or> new_id \<in> cv_id ` set (cd_conversations db) then (Inl IntegrityError, db)
      else (Inr c, db\<lparr>cd_conversations := cd_conversations db @ [c]\<rparr>))"

text \<open>A conversation that is not the subject's raises what a missing one raises.\<close>

definition get_conversation :: "pystr \<Rightarrow> pystr option \<Rightarrow> conversation_db \<Rightarrow> conversation result" where
  "get_conversation i scope db =
     (let missing = raise_app ConversationNotFoundError None (Some [(str ''conversation_id'', PStr i)]) in
      case List.find (\<lambda>c. cv_id c = i) (cd_conversations db) of
        None \<Rightarrow> missing
      | Some c \<Rightarrow> (case scope of
            None \<Rightarrow> Inr c
          | Some subject \<Rightarrow> if scope_permits subject (cv_owner c) then Inr c else missing))"

definition turns_of :: "pystr \<Rightarrow> conversation_db \<Rightarrow> turn list" where
  "turns_of i db = filter (\<lambda>t. tn_conversation t = i) (cd_turns db)"

definition next_position :: "pystr \<Rightarrow> conversation_db \<Rightarrow> int" where
  "next_position i db =
     (case map tn_position (turns_of i db) of [] \<Rightarrow> 0 | p # ps \<Rightarrow> fold max ps p + 1)"

definition new_turn :: "pystr \<Rightarrow> int \<Rightarrow> message_role \<Rightarrow> pystr \<Rightarrow> citation list \<Rightarrow> turn" where
  "new_turn i position role content citations =
     \<lparr>tn_conversation = i, tn_position = position, tn_role = role, tn_content = content,
      tn_tokens = estimate_tokens content, tn_citations = citations\<rparr>"

text \<open>The flush: the constraints of the table, the unique position among them.\<close>

definition insert_turn :: "turn \<Rightarrow> conversation_db \<Rightarrow> turn result \<times> conversation_db" where
  "insert_turn t db =
     (if blank (tn_content t) \<or> tn_position t < 0 \<or> tn_tokens t < 0 \<or>
         tn_conversation t \<notin> cv_id ` set (cd_conversations db) \<or>
         list_ex (\<lambda>u. tn_position u = tn_position t) (turns_of (tn_conversation t) db)
      then (Inl IntegrityError, db)
      else (Inr t, db\<lparr>cd_turns := cd_turns db @ [t]\<rparr>))"

definition append_turn ::
  "pystr \<Rightarrow> message_role \<Rightarrow> pystr \<Rightarrow> citation list \<Rightarrow> pystr option \<Rightarrow> conversation_db \<Rightarrow> turn result \<times> conversation_db" where
  "append_turn i role content citations scope db =
     (case get_conversation i scope db of
        Inl e \<Rightarrow> (Inl e, db)
      | Inr _ \<Rightarrow> insert_turn (new_turn i (next_position i db) role content citations) db)"

definition history :: "pystr \<Rightarrow> nat option \<Rightarrow> conversation_db \<Rightarrow> turn list" where
  "history i limit db =
     (case limit of
        None \<Rightarrow> sort_key tn_position (turns_of i db)
      | Some n \<Rightarrow> sort_key tn_position (take n (rev (sort_key tn_position (turns_of i db)))))"

text \<open>Racing requests: each reads its position and inserts later, in any order.\<close>

inductive conversation_step ::
  "conversation_db \<times> turn list \<Rightarrow> conversation_db \<times> turn list \<Rightarrow> bool" where
  start: "start_conversation i customer owner db = (r, db') \<Longrightarrow> conversation_step (db, waiting) (db', waiting)"
| read: "get_conversation i scope db = Inr c \<Longrightarrow>
    conversation_step (db, waiting) (db, new_turn i (next_position i db) role content citations # waiting)"
| flush: "insert_turn t db = (r, db') \<Longrightarrow>
    conversation_step (db, before @ t # after) (db', before @ after)"

inductive_cases conversation_stepE: "conversation_step (db, waiting) (db', waiting')"

subsection \<open>The context window\<close>

definition DEFAULT_MAX_TOKENS :: int where
  "DEFAULT_MAX_TOKENS = 2000"

text \<open>A space, an ellipsis and \<open>[truncated]\<close>.\<close>

definition TRUNCATION_MARKER :: pystr where
  "TRUNCATION_MARKER = [32, 8230] @ str ''[truncated]''"

record context_message =
  cm_role :: message_role
  cm_content :: pystr
  cm_tokens :: int

record conversation_context =
  cc_messages :: "context_message list"
  cc_total :: int
  cc_dropped :: int
  cc_truncated :: bool

definition render_context :: "conversation_context \<Rightarrow> pystr" where
  "render_context c = join [10] (map (\<lambda>m. role_value (cm_role m) @ str '': '' @ cm_content m) (cc_messages c))"

definition truncate_content :: "pystr \<Rightarrow> int \<Rightarrow> pystr" where
  "truncate_content content budget =
     (let characters = max 1 (budget * 4 - int (length TRUNCATION_MARKER)) in
      if int (length content) \<le> characters then content
      else rstrip (take (nat characters) content) @ TRUNCATION_MARKER)"

definition whole_message :: "turn \<Rightarrow> context_message" where
  "whole_message t = \<lparr>cm_role = tn_role t, cm_content = tn_content t, cm_tokens = tn_tokens t\<rparr>"

text \<open>The walk from the newest turn; \<open>kept\<close> is in reading order.\<close>

fun window_loop :: "int \<Rightarrow> turn list \<Rightarrow> context_message list \<Rightarrow> int \<Rightarrow> context_message list \<times> int \<times> bool" where
  "window_loop max_tokens [] kept used = (kept, used, False)"
| "window_loop max_tokens (t # older) kept used =
     (let remaining = max_tokens - used in
      if remaining \<le> 0 then (kept, used, False)
      else if tn_tokens t \<le> remaining then
        window_loop max_tokens older (whole_message t # kept) (used + tn_tokens t)
      else if kept \<noteq> [] then (kept, used, False)
      else ([\<lparr>cm_role = tn_role t, cm_content = truncate_content (tn_content t) remaining, cm_tokens = remaining\<rparr>],
            used + remaining, True))"

definition build_window :: "int \<Rightarrow> turn list \<Rightarrow> conversation_context result" where
  "build_window max_tokens turns =
     (if max_tokens < 1 then Inl (ValueError (str ''max_tokens must be at least 1''))
      else case window_loop max_tokens (rev turns) [] 0 of
        (kept, used, truncated) \<Rightarrow>
          Inr \<lparr>cc_messages = kept, cc_total = used, cc_dropped = int (length turns) - int (length kept),
               cc_truncated = truncated\<rparr>)"

subsection \<open>Lemmas\<close>

text \<open>The turns of a conversation, as stored, have the positions 0, 1, 2, ...\<close>

definition gapless :: "conversation_db \<Rightarrow> bool" where
  "gapless db \<longleftrightarrow> (\<forall>i. map tn_position (turns_of i db) = map int [0..<length (turns_of i db)])"

definition waiting_ok :: "conversation_db \<Rightarrow> turn list \<Rightarrow> bool" where
  "waiting_ok db waiting \<longleftrightarrow>
     (\<forall>t \<in> set waiting. 0 \<le> tn_position t \<and> tn_position t \<le> int (length (turns_of (tn_conversation t) db)))"

lemma fold_max_upt: "0 < n \<Longrightarrow> fold max (map int [1..<n]) 0 = int n - 1"
proof (induction n)
  case (Suc n)
  then show ?case by (cases n) auto
qed simp

lemma gapless_next:
  assumes "gapless db"
  shows "next_position i db = int (length (turns_of i db))"
proof -
  let ?n = "length (turns_of i db)"
  have ps: "map tn_position (turns_of i db) = map int [0..<?n]" using assms by (simp add: gapless_def)
  show ?thesis
  proof (cases "?n")
    case (Suc k)
    then have "map int [0..<?n] = 0 # map int [1..<?n]" by (simp add: upt_rec)
    with ps Suc fold_max_upt [of ?n] show ?thesis by (simp add: next_position_def)
  qed (simp add: next_position_def)
qed

lemma gapless_position: "gapless db \<Longrightarrow> (\<exists>u \<in> set (turns_of i db). tn_position u = p) \<longleftrightarrow> 0 \<le> p \<and> p < int (length (turns_of i db))"
proof -
  assume "gapless db"
  then have "tn_position ` set (turns_of i db) = int ` {0..<length (turns_of i db)}"
    by (metis atLeastLessThan_upt gapless_def list.set_map)
  then have "(\<exists>u \<in> set (turns_of i db). tn_position u = p) \<longleftrightarrow> p \<in> int ` {0..<length (turns_of i db)}" by force
  also have "\<dots> \<longleftrightarrow> 0 \<le> p \<and> p < int (length (turns_of i db))"
    by (auto intro!: image_eqI [of _ _ "nat p"])
  finally show ?thesis .
qed

lemma insert_turn_cases:
  assumes "insert_turn t db = (r, db')"
  shows "(r = Inl IntegrityError \<and> db' = db) \<or>
    (r = Inr t \<and> cd_turns db' = cd_turns db @ [t] \<and> cd_conversations db' = cd_conversations db \<and> \<not> blank (tn_content t) \<and>
     0 \<le> tn_position t \<and> \<not> (\<exists>u \<in> set (turns_of (tn_conversation t) db). tn_position u = tn_position t))"
  using assms by (auto simp: insert_turn_def list_ex_iff split: if_splits)

lemma insert_turn_gapless:
  assumes "gapless db" "0 \<le> tn_position t" "tn_position t \<le> int (length (turns_of (tn_conversation t) db))"
    and "insert_turn t db = (r, db')"
  shows "gapless db' \<and> (\<forall>i. length (turns_of i db) \<le> length (turns_of i db'))"
  using insert_turn_cases [OF assms(4)]
proof
  assume ok: "r = Inr t \<and> cd_turns db' = cd_turns db @ [t] \<and> cd_conversations db' = cd_conversations db \<and>
     \<not> blank (tn_content t) \<and> 0 \<le> tn_position t \<and>
     \<not> (\<exists>u \<in> set (turns_of (tn_conversation t) db). tn_position u = tn_position t)"
  have turns: "turns_of i db' = (if i = tn_conversation t then turns_of i db @ [t] else turns_of i db)" for i
    using ok by (auto simp: turns_of_def)
  have "tn_position t = int (length (turns_of (tn_conversation t) db))"
    using ok assms(2,3) gapless_position [OF assms(1), of "tn_conversation t" "tn_position t"] by auto
  with assms(1) show ?thesis by (auto simp: gapless_def turns)
qed (use assms(1) in simp)

lemma conversation_step_ok:
  assumes "conversation_step (db, waiting) (db', waiting')" "gapless db" "waiting_ok db waiting"
  shows "gapless db' \<and> waiting_ok db' waiting'"
  using assms(1)
proof (rule conversation_stepE)
  fix i customer owner r
  assume "waiting' = waiting" "start_conversation i customer owner db = (r, db')"
  moreover from this have "cd_turns db' = cd_turns db"
    by (auto simp: start_conversation_def Let_def split: if_splits)
  ultimately show ?thesis using assms(2,3) by (simp add: gapless_def waiting_ok_def turns_of_def)
next
  fix i role content citations
  assume "db = db'" "waiting' = new_turn i (next_position i db') role content citations # waiting"
  with assms(2,3) show ?thesis by (auto simp: waiting_ok_def new_turn_def gapless_next)
next
  fix t r before after
  assume 3: "waiting = before @ t # after" "waiting' = before @ after" "insert_turn t db = (r, db')"
  then have t: "0 \<le> tn_position t" "tn_position t \<le> int (length (turns_of (tn_conversation t) db))"
    using assms(3) by (auto simp: waiting_ok_def)
  from insert_turn_gapless [OF assms(2) t] 3 have g: "gapless db'" "\<forall>i. length (turns_of i db) \<le> length (turns_of i db')"
    by auto
  have "waiting_ok db' waiting'"
    unfolding waiting_ok_def
  proof
    fix u assume "u \<in> set waiting'"
    with 3 assms(3) have "0 \<le> tn_position u" "tn_position u \<le> int (length (turns_of (tn_conversation u) db))"
      by (auto simp: waiting_ok_def)
    with g(2) show "0 \<le> tn_position u \<and> tn_position u \<le> int (length (turns_of (tn_conversation u) db'))"
      by (meson of_nat_mono order_trans)
  qed
  with g(1) show ?thesis ..
qed

lemma conversation_steps_ok:
  assumes "conversation_step\<^sup>*\<^sup>* s s'" "gapless (fst s)" "waiting_ok (fst s) (snd s)"
  shows "gapless (fst s') \<and> waiting_ok (fst s') (snd s')"
  using assms
proof (induction rule: rtranclp_induct)
  case (step s' s'')
  obtain db waiting db' waiting' where "s' = (db, waiting)" "s'' = (db', waiting')" by force
  with step conversation_step_ok [of db waiting db' waiting'] show ?case by simp
qed simp

lemma history_gapless:
  assumes "gapless db"
  shows "history i None db = turns_of i db"
    "history i (Some n) db = drop (length (turns_of i db) - n) (turns_of i db)"
proof -
  have ps: "map tn_position (turns_of i db) = map int [0..<length (turns_of i db)]"
    using assms by (simp add: gapless_def)
  have sorted_ints: "sorted (map int [a..<b])" for a b by (induction b) (auto simp: sorted_append)
  have srt: "sort_key tn_position (turns_of i db) = turns_of i db"
    by (rule sort_key_id_if_sorted) (simp only: ps sorted_ints)
  then show "history i None db = turns_of i db" by (simp add: history_def)
  let ?k = "length (turns_of i db) - n"
  have "sort_key tn_position (rev (drop ?k (turns_of i db))) = drop ?k (turns_of i db)"
  proof (rule sort_key_inj_key_eq)
    show "mset (rev (drop ?k (turns_of i db))) = mset (drop ?k (turns_of i db))" by simp
    have "map tn_position (drop ?k (turns_of i db)) = map int [?k..<length (turns_of i db)]"
      by (simp only: drop_map [symmetric] ps) (simp add: drop_map)
    then show "sorted (map tn_position (drop ?k (turns_of i db)))" by (simp only: sorted_ints)
    have "distinct (map tn_position (turns_of i db))" by (simp add: ps distinct_map)
    then have "inj_on tn_position (set (turns_of i db))" by (simp add: distinct_map)
    then show "inj_on tn_position (set (rev (drop ?k (turns_of i db))))"
      by (rule inj_on_subset) (simp add: set_drop_subset)
  qed
  then show "history i (Some n) db = drop ?k (turns_of i db)"
    by (simp add: history_def srt take_rev)
qed

lemma window_loop_whole:
  assumes "kept \<noteq> []" "used \<le> max_tokens" "\<forall>t \<in> set older. 1 \<le> tn_tokens t"
    and "window_loop max_tokens older kept used = (kept', used', truncated)"
  shows "\<not> truncated \<and> used' \<le> max_tokens \<and>
    (\<exists>n \<le> length older. kept' = rev (map whole_message (take n older)) @ kept \<and>
       used' = used + sum_list (map tn_tokens (take n older)) \<and>
       (n = length older \<or> max_tokens < used' + tn_tokens (older ! n)))"
  using assms
proof (induction older arbitrary: kept used)
  case (Cons t older)
  show ?case
  proof (cases "0 < max_tokens - used \<and> tn_tokens t \<le> max_tokens - used")
    case True
    with Cons.prems(4) have "window_loop max_tokens older (whole_message t # kept) (used + tn_tokens t) = (kept', used', truncated)"
      by (simp add: Let_def)
    from Cons.IH [OF _ _ _ this] True Cons.prems(3) obtain n where n: "\<not> truncated" "used' \<le> max_tokens" "n \<le> length older"
      "kept' = rev (map whole_message (take n older)) @ whole_message t # kept"
      "used' = used + tn_tokens t + sum_list (map tn_tokens (take n older))"
      "n = length older \<or> max_tokens < used' + tn_tokens (older ! n)" by auto
    then show ?thesis by (auto intro!: exI [of _ "Suc n"])
  next
    case False
    with Cons.prems have "kept' = kept" "used' = used" "\<not> truncated" "max_tokens < used + tn_tokens t"
      by (auto simp: Let_def split: if_splits)
    with Cons.prems(2) show ?thesis by (auto intro!: exI [of _ 0])
  qed
qed simp

lemma length_marker [simp]: "length TRUNCATION_MARKER = 13"
  by (simp add: TRUNCATION_MARKER_def)

lemma rstrip_length: "length (rstrip s) \<le> length s"
  using rstrip_prefix [of s] by (auto dest: prefix_length_le)

lemma estimate_le: "int (length s) \<le> 4 * b \<Longrightarrow> 1 \<le> b \<Longrightarrow> estimate_tokens s \<le> b"
  by (simp add: estimate_tokens_def)

lemma estimate_pos: "1 \<le> estimate_tokens s"
  by (simp add: estimate_tokens_def)

lemma truncate_fits:
  assumes "4 \<le> b"
  shows "estimate_tokens (truncate_content s b) \<le> b"
proof -
  have "int (length (truncate_content s b)) \<le> 4 * b"
  proof (cases "int (length s) \<le> b * 4 - 13")
    case False
    have "length (rstrip (take (nat (b * 4 - 13)) s)) \<le> nat (b * 4 - 13)"
      using rstrip_length [of "take (nat (b * 4 - 13)) s"] by simp
    with False assms show ?thesis by (simp add: truncate_content_def max_def)
  qed (use assms in \<open>simp add: truncate_content_def max_def\<close>)
  then show ?thesis using assms by (intro estimate_le) auto
qed

text \<open>The newest turn fits: the window is a suffix of whole turns, as long as the budget allows.\<close>

lemma window_of_whole_turns:
  assumes "tn_tokens newest \<le> max_tokens" "\<forall>t \<in> set older. 1 \<le> tn_tokens t"
    and "window_loop max_tokens older [whole_message newest] (tn_tokens newest) = (kept, used, truncated)"
    and "turns = rev older @ [newest]" "\<forall>t \<in> set turns. estimate_tokens (tn_content t) = tn_tokens t"
  shows "\<not> truncated \<and> used \<le> max_tokens \<and> used = sum_list (map cm_tokens kept) \<and> kept \<noteq> [] \<and>
    (\<exists>older newer. turns = older @ newer \<and> kept = map whole_message newer \<and>
       (older = [] \<or> max_tokens < used + tn_tokens (last older))) \<and>
    list_all (\<lambda>m. estimate_tokens (cm_content m) \<le> cm_tokens m) kept"
proof -
  from window_loop_whole [OF _ assms(1,2,3)] obtain n where n: "\<not> truncated" "used \<le> max_tokens" "n \<le> length older"
    "kept = rev (map whole_message (take n older)) @ [whole_message newest]"
    "used = tn_tokens newest + sum_list (map tn_tokens (take n older))"
    "n = length older \<or> max_tokens < used + tn_tokens (older ! n)" by auto
  let ?new = "rev (take n older) @ [newest]"
  have split: "turns = rev (drop n older) @ ?new"
    by (simp add: assms(4)) (metis append_take_drop_id rev_append)
  have kept: "kept = map whole_message ?new" by (simp add: n(4) rev_map)
  have sum: "used = sum_list (map cm_tokens kept)"
    by (simp add: n(4,5) rev_map [symmetric] whole_message_def comp_def)
  have last: "rev (drop n older) = [] \<or> max_tokens < used + tn_tokens (last (rev (drop n older)))"
  proof (cases "n = length older")
    case False
    with n(3,6) show ?thesis by (simp add: last_rev hd_drop_conv_nth)
  qed simp
  have "list_all (\<lambda>m. estimate_tokens (cm_content m) \<le> cm_tokens m) kept"
    using assms(5) unfolding kept split by (auto simp: list_all_iff whole_message_def)
  moreover have "\<exists>older newer. turns = older @ newer \<and> kept = map whole_message newer \<and>
      (older = [] \<or> max_tokens < used + tn_tokens (last older))"
    using split kept last by blast
  moreover have "kept \<noteq> []" by (simp add: n(4))
  ultimately show ?thesis using n(1,2) sum by blast
qed

subsection \<open>Properties\<close>

text \<open>
  C17: Racing appends leave no gap and no duplicate. In every state that any interleaving of
  requests reaches from empty tables -- each reading its position first and inserting later --
  the turns of each conversation have the positions 0, 1, 2, ... in the order they were
  committed, and the history, whole or limited to the last turns, is in that order.
\<close>

theorem racing_appends_stay_gapless:
  assumes "conversation_step\<^sup>*\<^sup>* (\<lparr>cd_customers = cs, cd_conversations = [], cd_turns = []\<rparr>, []) (db, waiting)"
  shows "map tn_position (turns_of i db) = map int [0..<length (turns_of i db)] \<and>
    history i None db = turns_of i db \<and>
    history i (Some n) db = drop (length (turns_of i db) - n) (turns_of i db)"
proof -
  have "gapless (fst (\<lparr>cd_customers = cs, cd_conversations = [], cd_turns = []\<rparr>, []))"
    by (simp add: gapless_def turns_of_def)
  from conversation_steps_ok [OF assms this] have "gapless db" by (simp add: waiting_ok_def)
  then show ?thesis using history_gapless by (simp add: gapless_def)
qed

text \<open>Two requests that read the same position; the second insert is refused.\<close>

definition race_db :: "turn list \<Rightarrow> conversation_db" where
  "race_db turns =
     \<lparr>cd_customers = [str ''c''],
      cd_conversations = [\<lparr>cv_id = str ''v'', cv_customer = str ''c'', cv_owner = None\<rparr>], cd_turns = turns\<rparr>"

definition race_turn :: "string \<Rightarrow> turn" where
  "race_turn content = new_turn (str ''v'') 0 CUSTOMER (str content) []"

lemma race_start: "conversation_step (\<lparr>cd_customers = [str ''c''], cd_conversations = [], cd_turns = []\<rparr>, []) (race_db [], [])"
  by (rule conversation_step.start [where i = "str ''v''" and customer = "str ''c''" and owner = None])
    (simp add: start_conversation_def Let_def race_db_def)

lemma race_read: "conversation_step (race_db [], ts) (race_db [], race_turn t # ts)"
proof -
  have "get_conversation (str ''v'') None (race_db []) = Inr (hd (cd_conversations (race_db [])))"
    by (simp add: get_conversation_def race_db_def)
  from conversation_step.read [OF this, of ts CUSTOMER "str t" "[]"]
  show ?thesis by (simp add: next_position_def turns_of_def race_db_def race_turn_def)
qed

lemma race_first: "conversation_step (race_db [], [race_turn ''b'', race_turn ''a'']) (race_db [race_turn ''a''], [race_turn ''b''])"
proof -
  have "insert_turn (race_turn ''a'') (race_db []) = (Inr (race_turn ''a''), race_db [race_turn ''a''])"
    by (simp add: insert_turn_def race_turn_def race_db_def new_turn_def turns_of_def blank_def str_def estimate_tokens_def)
  from conversation_step.flush [OF this, of "[race_turn ''b'']" "[]"] show ?thesis by simp
qed

lemma race_second: "conversation_step (race_db [race_turn ''a''], [race_turn ''b'']) (race_db [race_turn ''a''], [])"
proof -
  have "insert_turn (race_turn ''b'') (race_db [race_turn ''a'']) = (Inl IntegrityError, race_db [race_turn ''a''])"
    by (simp add: insert_turn_def race_turn_def race_db_def new_turn_def turns_of_def)
  from conversation_step.flush [OF this, of "[]" "[]"] show ?thesis by simp
qed

lemma conversation_one: "conversation_step s t \<Longrightarrow> conversation_step\<^sup>*\<^sup>* s t"
  and conversation_more: "conversation_step\<^sup>*\<^sup>* s t \<Longrightarrow> conversation_step t u \<Longrightarrow> conversation_step\<^sup>*\<^sup>* s u"
  by simp_all

lemmas race_run = conversation_more [OF conversation_more [OF conversation_more [OF conversation_more
  [OF conversation_one [OF race_start] race_read] race_read] race_first] race_second]

lemma racing_appends_stay_gapless_witness:
  "\<exists>db. conversation_step\<^sup>*\<^sup>* (\<lparr>cd_customers = [str ''c''], cd_conversations = [], cd_turns = []\<rparr>, []) (db, []) \<and>
     map tn_position (turns_of (str ''v'') db) = [0]"
proof -
  have "length (turns_of (str ''v'') (race_db [race_turn ''a''])) = 1"
    by (simp add: turns_of_def race_db_def race_turn_def new_turn_def)
  moreover have "map tn_position (turns_of (str ''v'') (race_db [race_turn ''a''])) =
      map int [0..<length (turns_of (str ''v'') (race_db [race_turn ''a'']))]"
    using racing_appends_stay_gapless [OF race_run, of "str ''v''"] by (rule conjunct1)
  ultimately have "map tn_position (turns_of (str ''v'') (race_db [race_turn ''a''])) = [0]"
    by simp
  with race_run show ?thesis by (intro exI [of _ "race_db [race_turn ''a'']"] conjI)
qed

text \<open>
  C39: The window holds the newest turns that fit. Its cost is the sum of its messages and
  within the budget; a non-empty history keeps its newest turn. Unless that turn alone is too
  long, the window is a suffix of the history, unchanged, and one turn more would not fit;
  otherwise it is that turn shortened. From a budget of four tokens on, the estimate of every
  kept text is within what the window charges for it.
\<close>

theorem context_window_fits:
  assumes "build_window max_tokens turns = Inr c" "turns \<noteq> []"
    and "\<forall>t \<in> set turns. tn_tokens t = estimate_tokens (tn_content t)"
  shows "cc_total c \<le> max_tokens \<and> cc_total c = sum_list (map cm_tokens (cc_messages c)) \<and> cc_messages c \<noteq> [] \<and>
    cc_dropped c = int (length turns) - int (length (cc_messages c)) \<and>
    (if cc_truncated c then max_tokens < tn_tokens (last turns) \<and>
        cc_messages c = [\<lparr>cm_role = tn_role (last turns), cm_content = truncate_content (tn_content (last turns)) max_tokens,
                          cm_tokens = max_tokens\<rparr>]
     else \<exists>older newer. turns = older @ newer \<and> cc_messages c = map whole_message newer \<and>
        (older = [] \<or> max_tokens < cc_total c + tn_tokens (last older))) \<and>
    (4 \<le> max_tokens \<longrightarrow> list_all (\<lambda>m. estimate_tokens (cm_content m) \<le> cm_tokens m) (cc_messages c))"
proof -
  obtain newest older where turns: "turns = rev older @ [newest]" "rev turns = newest # older"
    using assms(2) by (metis rev.simps(2) rev_exhaust rev_rev_ident)
  obtain kept used truncated where loop: "window_loop max_tokens (newest # older) [] 0 = (kept, used, truncated)"
    by (metis prod_cases3)
  with assms(1) have budget: "1 \<le> max_tokens" and c: "cc_messages c = kept" "cc_total c = used" "cc_truncated c = truncated"
    "cc_dropped c = int (length turns) - int (length kept)"
    by (auto simp: build_window_def turns(2) split: if_splits)
  have tokens: "\<forall>t \<in> set older. 1 \<le> tn_tokens t" "1 \<le> tn_tokens newest"
    and est: "\<forall>t \<in> set turns. estimate_tokens (tn_content t) = tn_tokens t"
    using assms(3) estimate_pos by (auto simp: turns(1))
  show ?thesis
  proof (cases "tn_tokens newest \<le> max_tokens")
    case True
    with budget loop have "window_loop max_tokens older [whole_message newest] (tn_tokens newest) = (kept, used, truncated)"
      by simp
    note whole = window_of_whole_turns [OF True tokens(1) this turns(1) est]
    then have whole_turns: "\<not> truncated" by blast
    show ?thesis unfolding c if_not_P [OF whole_turns] using whole by blast
  next
    case False
    with budget loop have k: "truncated" "used = max_tokens"
      "kept = [\<lparr>cm_role = tn_role newest, cm_content = truncate_content (tn_content newest) max_tokens, cm_tokens = max_tokens\<rparr>]"
      by auto
    with False c truncate_fits [of max_tokens "tn_content newest"] show ?thesis by (simp add: turns(1))
  qed
qed

lemma context_window_fits_witness:
  "\<exists>c. build_window 5 [new_turn (str ''v'') 0 CUSTOMER (str ''first question'') [], new_turn (str ''v'') 1 ASSISTANT (str ''ok'') []]
     = Inr c \<and> cc_total c \<le> 5 \<and> cc_messages c \<noteq> []"
proof -
  let ?turns = "[new_turn (str ''v'') 0 CUSTOMER (str ''first question'') [], new_turn (str ''v'') 1 ASSISTANT (str ''ok'') []]"
  obtain kept used truncated where "window_loop 5 (rev ?turns) [] 0 = (kept, used, truncated)"
    by (metis prod_cases3)
  then obtain c where c: "build_window 5 ?turns = Inr c"
    unfolding build_window_def by (simp del: window_loop.simps rev.simps)
  from context_window_fits [OF c] c show ?thesis by (auto simp: new_turn_def)
qed

text \<open>Below four tokens the marker alone is longer than the budget.\<close>

lemma tiny_budget_overflows: "estimate_tokens (truncate_content (replicate 20 97) 1) = 4"
  by (simp add: truncate_content_def estimate_tokens_def rstrip_def isspace_def)

end
