(* ===== verification/Assistant.thy ===== *)
theory Assistant
  imports Escalation Conversations
begin

text \<open>
  \<open>services/assistant.py\<close>: one customer message through classification, routing with policy, and
  escalation, recorded against a conversation when there is one. The world is the committed
  conversation tables beside the rest, \<open>'w\<close>, which the model, the tools and the review queue
  change. The last part shows that a reply keeps its policy guarantees when the notice of an
  escalation is appended.
\<close>

subsection \<open>The pipeline\<close>

record assistant_reply =
  ar_reply :: pystr
  ar_intent :: intent_category
  ar_confidence :: rat
  ar_handler :: pystr
  ar_route_reason :: route_reason
  ar_fallback :: bool
  ar_handled :: bool
  ar_policy_rule :: "pystr option"
  ar_policy_modified :: bool
  ar_escalated :: bool
  ar_reasons :: "escalation_reason list"
  ar_review_id :: "pystr option"
  ar_conversation_id :: "pystr option"
  ar_citations :: "citation list"

record 'w assistant =
  sv_analyze :: "pystr \<Rightarrow> 'w \<Rightarrow> intent_analysis result \<times> 'w"
  sv_router :: "'w router"
  sv_enqueue :: "'w review_enqueue"
  sv_min_confidence :: rat

definition compose_reply :: "routed_reply \<Rightarrow> handoff_result \<Rightarrow> pystr option \<Rightarrow> assistant_reply" where
  "compose_reply routed handoff conversation_id =
     \<lparr>ar_reply = ho_reply handoff, ar_intent = rd_intent (rr_decision routed),
      ar_confidence = rd_confidence (rr_decision routed), ar_handler = rd_handler (rr_decision routed),
      ar_route_reason = rd_reason (rr_decision routed), ar_fallback = rd_fallback (rr_decision routed),
      ar_handled = rr_handled routed, ar_policy_rule = rr_policy_rule routed,
      ar_policy_modified = rr_policy_modified routed, ar_escalated = ho_escalated handoff,
      ar_reasons = ho_reasons handoff, ar_review_id = ho_review_id handoff,
      ar_conversation_id = conversation_id, ar_citations = rr_citations routed\<rparr>"

definition answer_message ::
  "'w assistant \<Rightarrow> pystr \<Rightarrow> 'w \<Rightarrow> (routed_reply \<times> handoff_result) result \<times> 'w" where
  "answer_message sv message w =
     (case sv_analyze sv message w of
        (Inl e, w1) \<Rightarrow> (Inl e, w1)
      | (Inr analysis, w1) \<Rightarrow>
          (case route (sv_router sv) message analysis w1 of
             (Inl e, w2) \<Rightarrow> (Inl e, w2)
           | (Inr routed, w2) \<Rightarrow>
               (case consider_handoff (sv_enqueue sv) (sv_min_confidence sv) message routed None w2 of
                  (Inl e, w3) \<Rightarrow> (Inl e, w3)
                | (Inr handoff, w3) \<Rightarrow> (Inr (routed, handoff), w3))))"

definition record_exchange ::
  "pystr option \<Rightarrow> message_role \<Rightarrow> pystr \<Rightarrow> citation list \<Rightarrow> pystr option \<Rightarrow> conversation_db \<Rightarrow>
   unit result \<times> conversation_db" where
  "record_exchange conversation_id role content citations scope db =
     (case conversation_id of
        None \<Rightarrow> (Inr (), db)
      | Some i \<Rightarrow>
          (case append_turn i role content citations scope db of
             (Inl e, db1) \<Rightarrow> (Inl e, db1)
           | (Inr _, db1) \<Rightarrow> (Inr (), db1)))"

definition respond ::
  "'w assistant \<Rightarrow> pystr \<Rightarrow> pystr option \<Rightarrow> pystr option \<Rightarrow> conversation_db \<times> 'w \<Rightarrow>
   assistant_reply result \<times> conversation_db \<times> 'w" where
  "respond sv message conversation_id scope world =
     (case world of (db, w) \<Rightarrow>
        case record_exchange conversation_id CUSTOMER message [] scope db of
          (Inl e, db1) \<Rightarrow> (Inl e, db1, w)
        | (Inr _, db1) \<Rightarrow>
            (case answer_message sv message w of
               (Inl e, w1) \<Rightarrow> (Inl e, db1, w1)
             | (Inr (routed, handoff), w1) \<Rightarrow>
                 (case record_exchange conversation_id ASSISTANT (ho_reply handoff) (rr_citations routed) scope db1 of
                    (Inl e, db2) \<Rightarrow> (Inl e, db2, w1)
                  | (Inr _, db2) \<Rightarrow> (Inr (compose_reply routed handoff conversation_id), db2, w1))))"

subsection \<open>Matching on a text with something appended\<close>

text \<open>
  \<open>wide\<close> is sensible when no white space counts as a word character; then appending a text that
  starts with white space neither adds a match inside the old text nor removes one.
\<close>

definition spaces_are_not_words :: "(nat \<Rightarrow> bool) \<Rightarrow> bool" where
  "spaces_are_not_words wide \<longleftrightarrow> (\<forall>c. isspace c \<longrightarrow> \<not> wide c)"

lemma space_not_word: "spaces_are_not_words wide \<Longrightarrow> isspace c \<Longrightarrow> \<not> word_char wide c"
proof -
  assume "spaces_are_not_words wide" "isspace c"
  moreover from this(2) have "\<not> isalnum c" "c \<noteq> 95"
    unfolding isspace_def isalnum_def isdigit_def islower_ascii_def insert_iff empty_iff by presburger+
  ultimately show ?thesis by (simp add: word_char_def spaces_are_not_words_def)
qed

definition starts_blank :: "pystr \<Rightarrow> bool" where
  "starts_blank t \<longleftrightarrow> (case t of [] \<Rightarrow> True | c # _ \<Rightarrow> isspace c)"

lemma boundary_append:
  assumes "spaces_are_not_words wide" "starts_blank t" "i \<le> length s"
  shows "at_boundary wide (s @ t) i = at_boundary wide s i"
proof (cases "i < length s")
  case True
  then have "i - 1 < length s" by linarith
  with True have "(s @ t) ! (i - 1) = s ! (i - 1)" "(s @ t) ! i = s ! i" by (simp_all add: nth_append del: One_nat_def)
  with True show ?thesis by (simp add: at_boundary_def)
next
  case False
  with assms(3) have i: "i = length s" by simp
  have "\<not> (t \<noteq> [] \<and> word_char wide (hd t))"
    using assms(2) space_not_word [OF assms(1)] by (cases t) (auto simp: starts_blank_def)
  then show ?thesis by (cases t) (auto simp: at_boundary_def i nth_append)
qed

lemma space_ends_iff: "j \<in> set (space_ends s i) \<longleftrightarrow> i \<le> j \<and> j - i \<le> length (takeWhile isspace (drop i s))"
  by (auto simp: space_ends_def intro!: image_eqI [of _ _ "j - i"])

lemma space_ends1_iff: "j \<in> set (tl (space_ends s i)) \<longleftrightarrow> i < j \<and> j - i \<le> length (takeWhile isspace (drop i s))"
proof -
  have "space_ends s i = i # map (\<lambda>k. i + k) [1..<Suc (length (takeWhile isspace (drop i s)))]"
    unfolding space_ends_def by (simp add: upt_conv_Cons del: upt_Suc)
  then have "set (tl (space_ends s i)) = (\<lambda>k. i + k) ` {1..<Suc (length (takeWhile isspace (drop i s)))}"
    by (simp del: upt_Suc)
  then show ?thesis by (auto intro!: image_eqI [of _ _ "j - i"])
qed

lemma re_ends_mono: "j \<in> set (re_ends wide r s i) \<Longrightarrow> i \<le> j"
proof (induction r arbitrary: i j)
  case (Seq a b)
  then obtain k where "k \<in> set (re_ends wide a s i)" "j \<in> set (re_ends wide b s k)" by auto
  with Seq.IH show ?case by (meson order_trans)
qed (auto simp: space_ends_iff space_ends1_iff split: if_splits)

lemma takeWhile_prefix_length: "k \<le> length (takeWhile P (xs @ ys)) \<Longrightarrow> k \<le> length xs \<Longrightarrow> k \<le> length (takeWhile P xs)"
proof (cases "\<forall>x \<in> set xs. P x")
  case True
  then show "k \<le> length xs \<Longrightarrow> ?thesis" by (simp add: takeWhile_eq_all_conv [THEN iffD2])
next
  case False
  then obtain x where "x \<in> set xs" "\<not> P x" by blast
  then have "takeWhile P (xs @ ys) = takeWhile P xs" by (rule takeWhile_append1)
  then show "k \<le> length (takeWhile P (xs @ ys)) \<Longrightarrow> ?thesis" by simp
qed

lemma takeWhile_append_length: "length (takeWhile P xs) \<le> length (takeWhile P (xs @ ys))"
  by (induction xs) auto

lemma re_ends_append:
  assumes "spaces_are_not_words wide" "starts_blank t"
  shows "i \<le> length s \<Longrightarrow> j \<le> length s \<Longrightarrow> j \<in> set (re_ends wide r (s @ t) i) \<longleftrightarrow> j \<in> set (re_ends wide r s i)"
proof (induction r arbitrary: i j)
  case (Lit p)
  then show ?case by (auto split: if_splits)
next
  case (Seq a b)
  have "(\<exists>k \<in> set (re_ends wide a (s @ t) i). j \<in> set (re_ends wide b (s @ t) k)) \<longleftrightarrow>
      (\<exists>k \<in> set (re_ends wide a s i). j \<in> set (re_ends wide b s k))"
    using Seq re_ends_mono [of j wide b "s @ t"] re_ends_mono [of j wide b s] by (meson order_trans)
  then show ?case by auto
next
  case Spaces
  then show ?case
    using takeWhile_prefix_length [of "j - i" isspace "drop i s" t] takeWhile_append_length [of isspace "drop i s" t]
    by (auto simp: space_ends_iff)
next
  case Spaces1
  then show ?case
    using takeWhile_prefix_length [of "j - i" isspace "drop i s" t] takeWhile_append_length [of isspace "drop i s" t]
    by (auto simp: space_ends1_iff)
next
  case Bound
  then show ?case using boundary_append [OF assms] by simp
qed auto

text \<open>
  A pattern that cannot end inside what was appended: its literals hold no white space, and
  wherever it may run over white space a required word still follows.
\<close>

fun tail_safe :: "pystr list \<Rightarrow> regex \<Rightarrow> bool" where
  "tail_safe ws (Lit p) \<longleftrightarrow> list_all (\<lambda>c. \<not> isspace c) p"
| "tail_safe ws (Seq a b) \<longleftrightarrow> (tail_safe ws a \<or> goes_through ws b) \<and> tail_safe ws b"
| "tail_safe ws (Alt a b) \<longleftrightarrow> tail_safe ws a \<and> tail_safe ws b"
| "tail_safe ws (Opt a) \<longleftrightarrow> tail_safe ws a"
| "tail_safe ws Spaces \<longleftrightarrow> False"
| "tail_safe ws Spaces1 \<longleftrightarrow> False"
| "tail_safe ws Bound \<longleftrightarrow> True"

lemma contains_drop: "contains n (drop j s) \<Longrightarrow> i \<le> j \<Longrightarrow> contains n (drop i s)"
proof -
  assume "contains n (drop j s)" "i \<le> j"
  moreover from this(2) have "drop i s = take (j - i) (drop i s) @ drop j s"
    by (metis append_take_drop_id drop_drop le_add_diff_inverse2)
  ultimately show ?thesis by (metis contains_append_left)
qed

lemma goes_through_after:
  "goes_through ws r \<Longrightarrow> re_ends wide r s i \<noteq> [] \<Longrightarrow> \<exists>w \<in> set ws. contains w (drop i (map re_fold s))"
proof (induction r arbitrary: i)
  case (Lit p)
  then have "p \<in> set ws" "p = take (length p) (drop i (map re_fold s))"
    by (auto simp: take_map drop_map split: if_splits)
  then show ?case by (metis append_take_drop_id contains_self_append)
next
  case (Seq a b)
  from Seq.prems(2) obtain j where j: "j \<in> set (re_ends wide a s i)" "re_ends wide b s j \<noteq> []" by auto
  show ?case
  proof (cases "goes_through ws a")
    case True
    with j(1) Seq.IH(1) show ?thesis by (metis empty_iff empty_set)
  next
    case False
    with Seq.prems(1) Seq.IH(2) j obtain w where "w \<in> set ws" "contains w (drop j (map re_fold s))" by auto
    with re_ends_mono [OF j(1)] show ?thesis by (meson contains_drop)
  qed
qed auto

lemma re_fold_space: "isspace c \<Longrightarrow> re_fold c = c"
  by (auto simp: re_fold_def isspace_def)

lemma lit_ends:
  assumes "j \<in> set (re_ends wide (Lit p) s i)"
  shows "j = i + length p" "map re_fold (take (length p) (drop i s)) = p" "i \<le> length s \<Longrightarrow> j \<le> length s"
    "k < length p \<Longrightarrow> p ! k = re_fold (s ! (i + k))"
proof -
  show j: "j = i + length p" and eq: "map re_fold (take (length p) (drop i s)) = p"
    using assms by (simp_all split: if_splits)
  then have "length (take (length p) (drop i s)) = length p" by (metis length_map)
  then have len: "length p \<le> length s - i" by simp
  with j show "i \<le> length s \<Longrightarrow> j \<le> length s" by simp
  have "map re_fold (take (length p) (drop i s)) ! k = re_fold (s ! (i + k))" if "k < length p"
    using that len by simp
  with eq show "k < length p \<Longrightarrow> p ! k = re_fold (s ! (i + k))" by simp
qed

lemma re_ends_inside:
  assumes t: "t = c # t'" "isspace c" "\<forall>w \<in> set ws. \<not> contains w (map re_fold t)"
  shows "tail_safe ws r \<Longrightarrow> i \<le> length s \<Longrightarrow> j \<in> set (re_ends wide r (s @ t) i) \<Longrightarrow> j \<le> length s"
proof (induction r arbitrary: i j)
  case (Lit p)
  note lit = lit_ends [OF Lit.prems(3)]
  show ?case
  proof (rule ccontr)
    assume "\<not> j \<le> length s"
    then have k: "length s - i < length p" using lit(1) Lit.prems(2) by linarith
    have "p ! (length s - i) = re_fold ((s @ t) ! length s)"
      using lit(4) [OF k] Lit.prems(2) by simp
    also have "\<dots> = c" using t(1) re_fold_space [OF t(2)] by (simp add: nth_append)
    finally have "p ! (length s - i) = c" .
    with nth_mem [OF k] t(2) Lit.prems(1) show False by (auto simp: list_all_iff)
  qed
next
  case (Seq a b)
  from Seq.prems(3) obtain k where k: "k \<in> set (re_ends wide a (s @ t) i)" "j \<in> set (re_ends wide b (s @ t) k)" by auto
  have "k \<le> length s"
  proof (rule ccontr)
    assume far: "\<not> k \<le> length s"
    with Seq.IH(1) [OF _ Seq.prems(2) k(1)] Seq.prems(1) have gt: "goes_through ws b" by auto
    have "re_ends wide b (s @ t) k \<noteq> []" using k(2) by force
    from goes_through_after [OF gt this] obtain w where
      w: "w \<in> set ws" "contains w (drop k (map re_fold (s @ t)))" by blast
    from contains_drop [OF w(2), of "length s"] far have "contains w (map re_fold t)" by simp
    with t(3) w(1) show False by blast
  qed
  moreover have "tail_safe ws b" using Seq.prems(1) by simp
  ultimately show ?case by (intro Seq.IH(2) [OF _ _ k(2)])
next
  case (Alt a b)
  from Alt.prems(3) have "j \<in> set (re_ends wide a (s @ t) i) \<or> j \<in> set (re_ends wide b (s @ t) i)" by simp
  moreover have "tail_safe ws a" "tail_safe ws b" using Alt.prems(1) by simp_all
  ultimately show ?case using Alt.IH(1) [OF _ Alt.prems(2)] Alt.IH(2) [OF _ Alt.prems(2)] by (elim disjE) simp_all
next
  case (Opt a)
  from Opt.prems(3) have "j = i \<or> j \<in> set (re_ends wide a (s @ t) i)" by simp
  moreover have "tail_safe ws a" using Opt.prems(1) by simp
  ultimately show ?case using Opt.prems(2) Opt.IH [OF _ Opt.prems(2)] by (elim disjE) simp_all
qed (simp_all split: if_splits)

definition commitment_words :: "pystr list" where
  "commitment_words = map str [''refund'', ''reimburse'', ''credit'', ''cancel'', ''refunded'', ''reimbursed'',
     ''credited'', ''guarantee'']"

lemma commitment_literals:
  "list_all (\<lambda>w. list_all (\<lambda>c. \<not> isspace c) w)
     (map str [''i'', ''we'', ''have'', ''will'', ''guarantee'', ''d'', ''full'', ''refunded'', ''reimbursed'', ''credited'',
               ''refund'', ''reimburse'', ''credit'', ''cancel''] @ [[39, 108, 108], [8217, 108, 108]])"
  by (simp add: str_def isspace_def)

lemma commitments_tail_safe:
  "list_all (\<lambda>p. tail_safe commitment_words p \<and> goes_through commitment_words p) COMMITMENT_PATTERNS"
  using commitment_literals
  by (simp add: COMMITMENT_PATTERNS_def commitment_words_def)

lemma re_ends_bound: "i \<le> length s \<Longrightarrow> j \<in> set (re_ends wide r s i) \<Longrightarrow> j \<le> length s"
proof (induction r arbitrary: i j)
  case (Lit p)
  then show ?case by (rule lit_ends(3) [rotated])
next
  case (Seq a b)
  from Seq.prems(2) obtain k where k: "k \<in> set (re_ends wide a s i)" "j \<in> set (re_ends wide b s k)" by auto
  show ?case by (rule Seq.IH(2) [OF Seq.IH(1) [OF Seq.prems(1) k(1)] k(2)])
next
  case (Alt a b)
  from Alt.prems(2) have "j \<in> set (re_ends wide a s i) \<or> j \<in> set (re_ends wide b s i)" by simp
  then show ?case using Alt.IH(1) [OF Alt.prems(1)] Alt.IH(2) [OF Alt.prems(1)] by (rule disjE)
next
  case (Opt a)
  from Opt.prems(2) have "j = i \<or> j \<in> set (re_ends wide a s i)" by simp
  then show ?case using Opt.prems(1) Opt.IH [OF Opt.prems(1)] by (elim disjE) simp_all
next
  case Spaces
  then show ?case using length_takeWhile_le [of isspace "drop i s"] by (auto simp: space_ends_iff)
next
  case Spaces1
  then show ?case using length_takeWhile_le [of isspace "drop i s"] by (auto simp: space_ends1_iff)
next
  case Bound
  then show ?case by (simp split: if_splits)
qed

lemma commits_iff:
  "commits wide s \<longleftrightarrow> (\<exists>p \<in> set COMMITMENT_PATTERNS. \<exists>i \<le> length s. \<exists>j. j \<in> set (re_ends wide p s i))"
proof -
  have "re_ends wide p s i \<noteq> [] \<longleftrightarrow> (\<exists>j. j \<in> set (re_ends wide p s i))" for p i
    by (cases "re_ends wide p s i") auto
  then have "re_search wide p s \<longleftrightarrow> (\<exists>i \<le> length s. \<exists>j. j \<in> set (re_ends wide p s i))" for p
    by (simp only: re_search_def list_ex_iff set_upt atLeast0LessThan lessThan_Suc_atMost) auto
  then show ?thesis by (simp only: commits_def list_ex_iff)
qed

lemma commits_append:
  assumes "spaces_are_not_words wide" "t = c # t'" "isspace c" "\<forall>w \<in> set commitment_words. \<not> contains w (map re_fold t)"
  shows "commits wide (s @ t) \<Longrightarrow> commits wide s"
proof -
  assume "commits wide (s @ t)"
  then obtain p i j where p: "p \<in> set COMMITMENT_PATTERNS" and j: "j \<in> set (re_ends wide p (s @ t) i)"
    unfolding commits_iff by blast
  from p commitments_tail_safe have safe: "tail_safe commitment_words p" "goes_through commitment_words p"
    by (auto simp: list_all_iff)
  have i: "i \<le> length s"
  proof (rule ccontr)
    assume "\<not> i \<le> length s"
    then have far: "length s \<le> i" by simp
    have "re_ends wide p (s @ t) i \<noteq> []" using j by force
    from goes_through_after [OF safe(2) this] obtain w where
      w: "w \<in> set commitment_words" "contains w (drop i (map re_fold (s @ t)))" by blast
    from contains_drop [OF w(2) far] have "contains w (map re_fold t)" by simp
    with assms(4) w(1) show False by blast
  qed
  from re_ends_inside [OF assms(2-4) safe(1) i j] have "j \<le> length s" .
  with re_ends_append [OF assms(1) _ i, of t j p] j assms(2,3) have "j \<in> set (re_ends wide p s i)"
    by (simp add: starts_blank_def)
  with p i show ?thesis unfolding commits_iff by blast
qed

lemma commits_rstrip:
  assumes "spaces_are_not_words wide" "commits wide (rstrip s)"
  shows "commits wide s"
proof -
  have "rev (takeWhile isspace (rev s) @ dropWhile isspace (rev s)) = s" by simp
  then have s: "s = rstrip s @ rev (takeWhile isspace (rev s))" by (simp only: rev_append rstrip_def)
  define t where "t = rev (takeWhile isspace (rev s))"
  have "\<forall>c \<in> set t. isspace c" by (auto simp: t_def dest: set_takeWhileD)
  then have blank: "starts_blank t" by (cases t) (auto simp: starts_blank_def)
  from assms(2) obtain p i j where p: "p \<in> set COMMITMENT_PATTERNS" "i \<le> length (rstrip s)" "j \<in> set (re_ends wide p (rstrip s) i)"
    unfolding commits_iff by blast
  with re_ends_append [OF assms(1) blank p(2) re_ends_bound [OF p(2,3)], of p]
  have "j \<in> set (re_ends wide p (rstrip s @ t) i)" by blast
  with p(1,2) have "commits wide (rstrip s @ t)" unfolding commits_iff by (intro bexI [of _ p] exI [of _ i] exI [of _ j]) auto
  then show ?thesis using s by (simp add: t_def)
qed

text \<open>The notice of an escalation keeps a reply free of commitments.\<close>

lemma contains_set: "contains n h \<Longrightarrow> set n \<subseteq> set h"
proof (induction h)
  case (Cons c h)
  from Cons.prems have "prefix n (c # h) \<or> contains n h" by simp
  then show ?case using Cons.IH set_mono_prefix [of n "c # h"] by auto
qed simp

lemma notice_fold: "map re_fold HANDOFF_NOTICE = [32, 97, 32, 115, 117, 112, 112, 111, 114, 116, 32, 97, 103, 101, 110,
    116, 32, 119, 105, 108, 108, 32, 102, 111, 108, 108, 111, 119, 32, 117, 112, 32, 119, 105, 116, 104, 32, 121, 111, 117, 46]"
  by (simp add: HANDOFF_NOTICE_def str_def re_fold_def)

lemma notice_words: "list_all (\<lambda>w. \<not> contains w (map re_fold HANDOFF_NOTICE)) commitment_words"
proof -
  have "\<not> contains (str ''guarantee'') (map re_fold HANDOFF_NOTICE)"
    unfolding notice_fold by (simp add: str_def)
  moreover have "\<not> set w \<subseteq> set (map re_fold HANDOFF_NOTICE)" if "w \<in> set (remove1 (str ''guarantee'') commitment_words)" for w
  proof -
    have "100 \<in> set w \<or> 109 \<in> set w \<or> 99 \<in> set w"
      using that by (auto simp: commitment_words_def) (simp_all add: str_def)
    then show ?thesis unfolding notice_fold by auto
  qed
  then have "\<not> contains w (map re_fold HANDOFF_NOTICE)" if "w \<in> set (remove1 (str ''guarantee'') commitment_words)" for w
    using that contains_set by blast
  moreover have "set commitment_words \<subseteq> insert (str ''guarantee'') (set (remove1 (str ''guarantee'') commitment_words))"
    by (metis insertCI in_set_remove1 subsetI)
  ultimately show ?thesis by (auto simp: list_all_iff)
qed

lemma with_notice_no_commitment:
  assumes "spaces_are_not_words wide" "\<not> commits wide reply"
  shows "\<not> commits wide (with_notice reply)"
proof -
  have "HANDOFF_NOTICE = 32 # tl HANDOFF_NOTICE" by (simp add: HANDOFF_NOTICE_def str_def)
  from commits_append [OF assms(1) this _ notice_words [unfolded list_all_iff]]
  have "commits wide (rstrip reply @ HANDOFF_NOTICE) \<Longrightarrow> commits wide (rstrip reply)"
    by (simp add: isspace_def)
  with commits_rstrip [OF assms(1), of reply] assms(2) show ?thesis
    unfolding with_notice_def by (simp split: if_split) blast
qed

subsection \<open>Lemmas on the pipeline\<close>

lemma REVIEW_REPLY_notice: "with_notice REVIEW_REPLY = REVIEW_REPLY"
proof -
  have "REVIEW_REPLY = str ''I have passed this to a '' @ str ''support agent'' @
      str '', who will confirm the details with you.''"
    by (simp add: REVIEW_REPLY_def str_def)
  then have "lower REVIEW_REPLY = lower (str ''I have passed this to a '') @ lower (str ''support agent'') @
      lower (str '', who will confirm the details with you.'')"
    by (metis lower_append)
  moreover have "lower (str ''support agent'') = str ''support agent''"
    by (simp add: lower_def lower_cp_def str_def)
  ultimately have "contains (str ''support agent'') (lower REVIEW_REPLY)"
    by (simp only: contains_mid)
  then show ?thesis by (simp add: with_notice_def)
qed

lemma route_decision:
  assumes "route rt message a w = (Inr r, w')"
  shows "rd_intent (rr_decision r) = ia_intent a" "rd_confidence (rr_decision r) = ia_confidence a"
proof -
  from assms obtain response where "finish_route rt message a response = Inr r" unfolding route_Inr by blast
  then show "rd_intent (rr_decision r) = ia_intent a" "rd_confidence (rr_decision r) = ia_confidence a"
    by (auto simp: finish_route_def Let_def split: option.splits sum.splits)
qed

lemma route_policy_citations:
  assumes "route rt message a w = (Inr r, w')" "rr_policy_modified r"
  shows "rr_citations r = []"
proof -
  from assms(1) obtain response where "finish_route rt message a response = Inr r" unfolding route_Inr by blast
  with assms(2) show ?thesis
    by (auto simp: finish_route_def Let_def split: option.splits sum.splits)
qed

lemma answer_message_Inr:
  assumes "answer_message sv message w = (Inr (routed, h), w')"
  obtains a w1 w2 where "sv_analyze sv message w = (Inr a, w1)" "route (sv_router sv) message a w1 = (Inr routed, w2)"
    "consider_handoff (sv_enqueue sv) (sv_min_confidence sv) message routed None w2 = (Inr h, w')"
  using assms by (auto simp: answer_message_def split: prod.splits sum.splits)

lemma respond_Inr:
  assumes "respond sv message cid scope (db, w) = (Inr r, db', w')"
  obtains routed h where "answer_message sv message w = (Inr (routed, h), w')" "r = compose_reply routed h cid"
  using assms by (auto simp: respond_def split: prod.splits sum.splits)

lemma append_turn_gapless:
  assumes "gapless db" "get_conversation i scope db = Inr c"
  shows "append_turn i role content cites scope db =
    (let t = new_turn i (int (length (turns_of i db))) role content cites in
     if blank content then (Inl IntegrityError, db) else (Inr t, db\<lparr>cd_turns := cd_turns db @ [t]\<rparr>))"
proof -
  have known: "i \<in> cv_id ` set (cd_conversations db)"
    using assms(2) by (auto simp: get_conversation_def Let_def raise_app_def find_Some_iff image_iff split: option.splits if_splits)
  have "\<not> (\<exists>u \<in> set (turns_of i db). tn_position u = int (length (turns_of i db)))"
    using gapless_position [OF assms(1)] by simp
  moreover have "0 \<le> estimate_tokens content" using estimate_pos [of content] by linarith
  ultimately show ?thesis
    using known by (auto simp: append_turn_def assms(2) insert_turn_def gapless_next [OF assms(1)] new_turn_def list_ex_iff Let_def)
qed

lemma get_conversation_turns: "get_conversation i scope (db\<lparr>cd_turns := ts\<rparr>) = get_conversation i scope db"
  by (simp add: get_conversation_def)

lemma gapless_append:
  assumes "gapless db" "t = new_turn i (int (length (turns_of i db))) role content cites"
  shows "gapless (db\<lparr>cd_turns := cd_turns db @ [t]\<rparr>)"
proof -
  have "turns_of j (db\<lparr>cd_turns := cd_turns db @ [t]\<rparr>) = (if j = i then turns_of j db @ [t] else turns_of j db)" for j
    by (simp add: turns_of_def assms(2) new_turn_def)
  with assms show ?thesis by (simp add: gapless_def new_turn_def)
qed

lemma reply_is_safe:
  assumes "spaces_are_not_words wide" "ih_name kb \<noteq> []" "ih_name ag \<noteq> []"
    and "build_router wide kb ag min_confidence = Inr (sv_router sv)"
    and "respond sv message conversation_id scope (db, w) = (Inr r, db', w')"
  shows "\<not> commits wide (ar_reply r) \<and>
    (ar_intent r \<in> {COMPLAINT, OTHER} \<or> \<not> ar_handled r \<longrightarrow> ar_escalated r \<and> ar_reply r = REVIEW_REPLY) \<and>
    (ar_policy_modified r \<longrightarrow> ar_escalated r \<and> ar_citations r = []) \<and>
    (ar_escalated r \<longrightarrow> contains (str ''support agent'') (lower (ar_reply r)))"
proof -
  from respond_Inr [OF assms(5)] obtain routed h where
    am: "answer_message sv message w = (Inr (routed, h), w')" and r: "r = compose_reply routed h conversation_id" by blast
  from answer_message_Inr [OF am] obtain a w1 w2 where
    rt: "route (sv_router sv) message a w1 = (Inr routed, w2)" and
    ho: "consider_handoff (sv_enqueue sv) (sv_min_confidence sv) message routed None w2 = (Inr h, w')" by blast
  note safe = built_router_safe [OF assms(2-4) rt]
  note cites = route_policy_citations [OF rt]
  note esc = consider_handoff_Inr [OF ho]
  have "\<not> commits wide (ho_reply h)"
    using esc safe with_notice_no_commitment [OF assms(1), of "rr_reply routed"] by (auto split: if_splits)
  moreover have "ho_reply h = REVIEW_REPLY" if "rr_reply routed = REVIEW_REPLY"
    using esc that by (auto simp: REVIEW_REPLY_notice split: if_splits)
  ultimately show ?thesis
    using esc safe cites with_notice_mentions [of "rr_reply routed"]
    by (auto simp: r compose_reply_def route_decision [OF rt] split: if_splits)
qed

text \<open>What an exchange leaves behind once the question can be recorded.\<close>

lemma respond_recorded:
  assumes "gapless db" "get_conversation i scope db = Inr c" "\<not> blank message"
    and "respond sv message (Some i) scope (db, w) = (out, db', w')"
  shows "gapless db' \<and>
    (let n = int (length (turns_of i db)); asked = new_turn i n CUSTOMER message [] in
     case out of
       Inl _ \<Rightarrow> cd_turns db' = cd_turns db @ [asked]
     | Inr r \<Rightarrow> cd_turns db' = cd_turns db @ [asked, new_turn i (n + 1) ASSISTANT (ar_reply r) (ar_citations r)])"
proof -
  note first = append_turn_gapless [OF assms(1,2), of CUSTOMER message "[]"]
  let ?n = "int (length (turns_of i db))"
  define asked where "asked = new_turn i ?n CUSTOMER message []"
  define db1 where "db1 = db\<lparr>cd_turns := cd_turns db @ [asked]\<rparr>"
  have g1: "gapless db1" unfolding db1_def by (rule gapless_append [OF assms(1) asked_def])
  have c1: "get_conversation i scope db1 = Inr c" by (simp add: db1_def get_conversation_turns assms(2))
  have n1: "int (length (turns_of i db1)) = ?n + 1" by (simp add: db1_def asked_def turns_of_def new_turn_def)
  have rec1: "record_exchange (Some i) CUSTOMER message [] scope db = (Inr (), db1)"
    using assms(3) by (simp add: record_exchange_def first Let_def asked_def db1_def)
  obtain ans w1 where ans: "answer_message sv message w = (ans, w1)" by force
  show ?thesis
  proof (cases ans)
    case (Inl e)
    with assms(4) have "out = Inl e" "db' = db1" by (simp_all add: respond_def rec1 ans)
    with g1 show ?thesis by (simp add: asked_def [symmetric] db1_def Let_def)
  next
    case (Inr p)
    then obtain routed h where p: "ans = Inr (routed, h)" by (cases p) auto
    let ?t = "new_turn i (?n + 1) ASSISTANT (ho_reply h) (rr_citations routed)"
    have rec2: "record_exchange (Some i) ASSISTANT (ho_reply h) (rr_citations routed) scope db1 =
        (if blank (ho_reply h) then (Inl IntegrityError, db1) else (Inr (), db1\<lparr>cd_turns := cd_turns db1 @ [?t]\<rparr>))"
      by (simp add: record_exchange_def append_turn_gapless [OF g1 c1] n1 Let_def)
    show ?thesis
    proof (cases "blank (ho_reply h)")
      case True
      with assms(4) have "out = Inl IntegrityError" "db' = db1"
        by (simp_all add: respond_def rec1 ans p rec2)
      with g1 show ?thesis
        by (simp add: asked_def [symmetric] db1_def Let_def)
    next
      case said: False
      then have "out = Inr (compose_reply routed h (Some i))" "db' = db1\<lparr>cd_turns := cd_turns db1 @ [?t]\<rparr>"
        using assms(4) by (simp_all add: respond_def rec1 ans p rec2)
      moreover have "gapless (db1\<lparr>cd_turns := cd_turns db1 @ [?t]\<rparr>)" using gapless_append [OF g1] n1 by metis
      ultimately show ?thesis
        by (simp add: asked_def db1_def compose_reply_def Let_def)
    qed
  qed
qed

end
