(* ===== verification/Llm.thy ===== *)
theory Llm
  imports Tracing Agent
begin

text \<open>
  \<open>llm/\<close>: the provider configuration of \<open>base.py\<close>, the Groq backend of \<open>groq_provider.py\<close> and
  \<open>groq_streaming.py\<close>, the static one, and their factory. The SDK's client is an argument: it maps
  a request and the world to a response or to one of its exceptions, which are classed as its
  documentation classes them. Its response objects are read attribute by attribute, so they are
  \<open>PDict\<close>s over attribute names. The locales are what \<open>LLMProvider\<close> and \<open>StreamingLLMProvider\<close>
  promise their callers.
\<close>

subsection \<open>What a provider promises\<close>

locale llm_provider =
  fixes complete :: "llm_prompt \<Rightarrow> 'w \<Rightarrow> 'a result \<times> 'w"
  assumes only_llm_errors: "complete p w = (Inl e, w') \<Longrightarrow> llm_error e"
begin

lemma fst_llm_error: "fst (complete p w) = Inl e \<Longrightarrow> llm_error e"
  by (metis only_llm_errors prod.collapse)

end

text \<open>The agent over such a provider always returns.\<close>

locale decision_provider = llm_provider decide
  for decide :: "llm_prompt \<Rightarrow> 'w \<Rightarrow> agent_decision result \<times> 'w"
begin

lemma agent_returns:
  assumes "al_provider al = decide"
  shows "\<exists>out. fst (fst (agent_run_loop al s w)) = Inr out"
  by (rule agent_run_loop_returns) (simp add: assms fst_llm_error)

end

locale streaming_provider =
  fixes stream_text :: "llm_prompt \<Rightarrow> 'w \<Rightarrow> (pystr list \<times> exn option) \<times> 'w"
  assumes stream_llm_errors: "stream_text p w = ((pieces, Some e), w') \<Longrightarrow> llm_error e"
    and no_empty_delta: "stream_text p w = ((pieces, ending), w') \<Longrightarrow> [] \<notin> set pieces"
begin

lemma never_foreign: "\<not> (\<exists>p w pieces w'. stream_text p w = ((pieces, Some e), w')) \<or> llm_error e"
  using stream_llm_errors by blast

end

subsection \<open>Configuration\<close>

record llm_config =
  lc_provider :: pystr
  lc_model :: pystr
  lc_api_key :: "pystr option"
  lc_timeout :: rat
  lc_max_retries :: int
  lc_total_timeout :: rat
  lc_max_output_tokens :: int
  lc_temperature :: "rat option"

definition LLMConfig :: "llm_config \<Rightarrow> llm_config result" where
  "LLMConfig c =
     (let bad = map (\<lambda>(n, m, _). ([str n], str m)) (filter (\<lambda>(_, _, b). b)
        [(''timeout_seconds'', ''Input should be greater than 0'', lc_timeout c \<le> 0),
         (''max_retries'', ''Input should be greater than or equal to 0'', lc_max_retries c < 0),
         (''total_timeout_seconds'', ''Input should be greater than 0'', lc_total_timeout c \<le> 0),
         (''max_output_tokens'', ''Input should be greater than 0'', lc_max_output_tokens c \<le> 0),
         (''temperature'', ''Input should be greater than or equal to 0'',
            case lc_temperature c of None \<Rightarrow> False | Some t \<Rightarrow> t < 0),
         (''temperature'', ''Input should be less than or equal to 1'',
            case lc_temperature c of None \<Rightarrow> False | Some t \<Rightarrow> 1 < t)])
      in if bad = [] then Inr c else Inl (ValidationError bad))"

definition PROVIDER_NAME :: pystr where
  "PROVIDER_NAME = str ''groq''"

subsection \<open>A schema the SDK accepts\<close>

text \<open>\<open>list(v)\<close> of the value under \<open>properties\<close>.\<close>

fun keys_of :: "pyval \<Rightarrow> pyval list result" where
  "keys_of (PDict kvs) = Inr (map fst kvs)"
| "keys_of (PList xs) = Inr xs"
| "keys_of (PTuple xs) = Inr xs"
| "keys_of (PStr s) = Inr (map (\<lambda>c. PStr [c]) s)"
| "keys_of _ = Inl (TypeError (str ''object is not iterable''))"

definition is_object :: "(pyval \<times> pyval) list \<Rightarrow> bool" where
  "is_object kvs \<longleftrightarrow> map_of kvs (PStr (str ''type'')) = Some (PStr (str ''object'')) \<and>
     map_of kvs (PStr (str ''properties'')) \<noteq> None"

text \<open>
  \<open>_tighten\<close>: the two entries it sets hold nothing to tighten, so the values are those the node
  had; \<open>required\<close> is the list of names at the time the node is visited.
\<close>

fun tighten :: "pyval \<Rightarrow> pyval result"
  and tighten_items :: "(pyval \<times> pyval) list \<Rightarrow> (pyval \<times> pyval) list result"
  and tighten_list :: "pyval list \<Rightarrow> pyval list result" where
  "tighten (PDict kvs) =
     (case keys_of (if is_object kvs then the (map_of kvs (PStr (str ''properties''))) else PList []) of
        Inl e \<Rightarrow> Inl e
      | Inr keys \<Rightarrow>
          (case tighten_items kvs of
             Inl e \<Rightarrow> Inl e
           | Inr kvs' \<Rightarrow>
               Inr (PDict (if is_object kvs then
                  AList.update (PStr (str ''required'')) (PList keys)
                    (AList.update (PStr (str ''additionalProperties'')) (PBool False) kvs')
                else kvs'))))"
| "tighten (PList xs) = (case tighten_list xs of Inl e \<Rightarrow> Inl e | Inr ys \<Rightarrow> Inr (PList ys))"
| "tighten v = Inr v"
| "tighten_items [] = Inr []"
| "tighten_items ((k, v) # kvs) =
     (case tighten v of
        Inl e \<Rightarrow> Inl e
      | Inr v' \<Rightarrow> (case tighten_items kvs of Inl e \<Rightarrow> Inl e | Inr kvs' \<Rightarrow> Inr ((k, v') # kvs')))"
| "tighten_list [] = Inr []"
| "tighten_list (x # xs) =
     (case tighten x of
        Inl e \<Rightarrow> Inl e
      | Inr y \<Rightarrow> (case tighten_list xs of Inl e \<Rightarrow> Inl e | Inr ys \<Rightarrow> Inr (y # ys)))"

text \<open>\<open>strict_json_schema\<close> of the schema pydantic renders.\<close>

definition strict_json_schema :: "pyval \<Rightarrow> pyval result" where
  "strict_json_schema document = tighten document"

subsection \<open>Calling Groq\<close>

text \<open>
  The exceptions of the SDK that the code tells apart, \<open>TimeoutError\<close> of \<open>asyncio.timeout\<close> first,
  and any other exception. A status error carries its status and what \<open>headers.get("retry-after")\<close>
  gives, \<open>None\<close> also when there are no headers or reading them raises.
\<close>

datatype status_class =
    Rate_Limit | Authentication | Permission_Denied | Not_Found | Bad_Request | Unprocessable_Entity | Other_Status

datatype sdk_exn =
    Sdk_Deadline
  | Sdk_Timeout
  | Sdk_Status status_class int "pystr option"
  | Sdk_Connection
  | Sdk_Api
  | Sdk_Foreign exn

definition groq_error :: "err_class \<Rightarrow> llm_config \<Rightarrow> exn" where
  "groq_error failure c =
     App (new_error failure None (Some [(str ''provider'', PStr PROVIDER_NAME), (str ''model'', PStr (lc_model c))]))"

text \<open>\<open>float(raw)\<close> is an argument; \<open>None\<close> is its \<open>ValueError\<close>.\<close>

definition retry_after_seconds :: "(pystr \<Rightarrow> pyval option) \<Rightarrow> pystr option \<Rightarrow> pyval option" where
  "retry_after_seconds parse_float raw = (case raw of None \<Rightarrow> None | Some r \<Rightarrow> parse_float r)"

definition groq_rate_limited :: "(pystr \<Rightarrow> pyval option) \<Rightarrow> llm_config \<Rightarrow> pystr option \<Rightarrow> exn" where
  "groq_rate_limited parse_float c raw =
     App (llm_rate_limited (Some [(str ''provider'', PStr PROVIDER_NAME), (str ''model'', PStr (lc_model c))])
       (retry_after_seconds parse_float raw))"

fun translate_failure :: "(pystr \<Rightarrow> pyval option) \<Rightarrow> llm_config \<Rightarrow> sdk_exn \<Rightarrow> exn" where
  "translate_failure parse_float c Sdk_Deadline = groq_error LLMTimeoutError c"
| "translate_failure parse_float c Sdk_Timeout = groq_error LLMTimeoutError c"
| "translate_failure parse_float c (Sdk_Status k code raw) =
     (if k = Rate_Limit then groq_rate_limited parse_float c raw
      else if k \<in> {Authentication, Permission_Denied, Not_Found} then groq_error LLMConfigurationError c
      else if k \<in> {Bad_Request, Unprocessable_Entity} then groq_error LLMRequestError c
      else groq_error (if 500 \<le> code then LLMUnavailableError else LLMError) c)"
| "translate_failure parse_float c Sdk_Connection = groq_error LLMUnavailableError c"
| "translate_failure parse_float c Sdk_Api = groq_error LLMError c"
| "translate_failure parse_float c (Sdk_Foreign e) = e"

definition request_head :: "llm_config \<Rightarrow> llm_prompt \<Rightarrow> (pyval \<times> pyval) list" where
  "request_head c p =
     [(PStr (str ''model''), PStr (lc_model c)),
      (PStr (str ''messages''), PList
        [PDict [(PStr (str ''role''), PStr (str ''system'')), (PStr (str ''content''), PStr (lp_system p))],
         PDict [(PStr (str ''role''), PStr (str ''user'')), (PStr (str ''content''), PStr (lp_user p))]]),
      (PStr (str ''max_completion_tokens''), PInt (lc_max_output_tokens c))]"

definition with_temperature :: "llm_config \<Rightarrow> (pyval \<times> pyval) list \<Rightarrow> pyval" where
  "with_temperature c request =
     PDict (case lc_temperature c of None \<Rightarrow> request
            | Some t \<Rightarrow> AList.update (PStr (str ''temperature'')) (PFloat t) request)"

definition structured_request :: "llm_config \<Rightarrow> llm_prompt \<Rightarrow> pystr \<Rightarrow> pyval \<Rightarrow> pyval" where
  "structured_request c p schema_name schema =
     with_temperature c (request_head c p @
       [(PStr (str ''response_format''), PDict
          [(PStr (str ''type''), PStr (str ''json_schema'')),
           (PStr (str ''json_schema''), PDict
             [(PStr (str ''name''), PStr schema_name), (PStr (str ''strict''), PBool True),
              (PStr (str ''schema''), schema)])])])"

text \<open>\<open>getattr(obj, name, None)\<close>, and the first of the choices, a list when there are any.\<close>

fun attr :: "pyval \<Rightarrow> string \<Rightarrow> pyval" where
  "attr (PDict kvs) name = (case map_of kvs (PStr (str name)) of None \<Rightarrow> PNone | Some v \<Rightarrow> v)"
| "attr _ name = PNone"

definition first_choice :: "pyval \<Rightarrow> pyval option" where
  "first_choice response = (case attr response ''choices'' of PList (x # _) \<Rightarrow> Some x | _ \<Rightarrow> None)"

definition message_content :: "pyval \<Rightarrow> pystr option" where
  "message_content response =
     (case first_choice response of
        None \<Rightarrow> None
      | Some choice \<Rightarrow>
          (case attr (attr choice ''message'') ''content'' of
             PStr s \<Rightarrow> if strip s = [] then None else Some s
           | _ \<Rightarrow> None))"

definition finish_reason :: "pyval \<Rightarrow> pystr option" where
  "finish_reason response =
     (case first_choice response of
        None \<Rightarrow> None
      | Some choice \<Rightarrow> (case attr choice ''finish_reason'' of PStr s \<Rightarrow> Some s | _ \<Rightarrow> None))"

text \<open>A token count of the SDK is an integer, or missing.\<close>

definition token_count :: "pyval \<Rightarrow> int" where
  "token_count v = (case v of PInt n \<Rightarrow> n | _ \<Rightarrow> 0)"

definition usage_of :: "pyval \<Rightarrow> llm_usage" where
  "usage_of response =
     (case attr response ''usage'' of
        PNone \<Rightarrow> \<lparr>lu_input = 0, lu_output = 0\<rparr>
      | usage \<Rightarrow> \<lparr>lu_input = token_count (attr usage ''prompt_tokens''),
                  lu_output = token_count (attr usage ''completion_tokens'')\<rparr>)"

record 'a structured_completion =
  sc_output :: 'a
  sc_meta :: completion
  sc_latency :: rat

definition read_completion ::
  "(pystr \<Rightarrow> 'a option) \<Rightarrow> llm_config \<Rightarrow> rat \<Rightarrow> pyval \<Rightarrow> 'a structured_completion result" where
  "read_completion validate c latency response =
     (case message_content response of
        None \<Rightarrow> Inl (groq_error LLMInvalidOutputError c)
      | Some content \<Rightarrow>
          (case validate content of
             None \<Rightarrow> Inl (groq_error LLMInvalidOutputError c)
           | Some output \<Rightarrow>
               Inr \<lparr>sc_output = output,
                    sc_meta = \<lparr>co_provider = PROVIDER_NAME,
                      co_model = (case attr response ''model'' of PStr m \<Rightarrow> if m = [] then lc_model c else m | _ \<Rightarrow> lc_model c),
                      co_stop_reason = finish_reason response, co_usage = usage_of response\<rparr>,
                    sc_latency = latency\<rparr>))"

text \<open>
  \<open>complete_structured\<close>. \<open>validate\<close> is \<open>schema.model_validate_json\<close>, \<open>None\<close> for its
  \<open>ValidationError\<close>; \<open>document\<close> is \<open>schema.model_json_schema()\<close>.
\<close>

definition groq_complete ::
  "(pyval \<Rightarrow> 'w \<Rightarrow> (sdk_exn + pyval) \<times> 'w) \<Rightarrow> (pystr \<Rightarrow> pyval option) \<Rightarrow> ('w \<Rightarrow> rat) \<Rightarrow> llm_config \<Rightarrow>
   pystr \<Rightarrow> pyval \<Rightarrow> (pystr \<Rightarrow> 'a option) \<Rightarrow> llm_prompt \<Rightarrow> 'w \<Rightarrow> 'a structured_completion result \<times> 'w" where
  "groq_complete create parse_float clock c schema_name document validate p w =
     (case strict_json_schema document of
        Inl e \<Rightarrow> (Inl e, w)
      | Inr schema \<Rightarrow>
          (case create (structured_request c p schema_name schema) w of
             (Inl x, w1) \<Rightarrow> (Inl (translate_failure parse_float c x), w1)
           | (Inr response, w1) \<Rightarrow> (read_completion validate c ((clock w1 - clock w) * 1000) response, w1)))"

text \<open>A caller that wants the output alone, as the agent and the services do.\<close>

definition output_of ::
  "(llm_prompt \<Rightarrow> 'w \<Rightarrow> 'a structured_completion result \<times> 'w) \<Rightarrow> llm_prompt \<Rightarrow> 'w \<Rightarrow> 'a result \<times> 'w" where
  "output_of complete_structured p w =
     (case complete_structured p w of (Inl e, w1) \<Rightarrow> (Inl e, w1) | (Inr sc, w1) \<Rightarrow> (Inr (sc_output sc), w1))"

subsection \<open>Streaming from Groq\<close>

definition delta_of :: "pyval \<Rightarrow> pystr option" where
  "delta_of chunk =
     (case first_choice chunk of
        None \<Rightarrow> None
      | Some choice \<Rightarrow>
          (case attr (attr choice ''delta'') ''content'' of
             PStr s \<Rightarrow> if s = [] then None else Some s
           | _ \<Rightarrow> None))"

fun translate_stream_failure :: "llm_config \<Rightarrow> sdk_exn \<Rightarrow> exn" where
  "translate_stream_failure c Sdk_Deadline = groq_error LLMTimeoutError c"
| "translate_stream_failure c Sdk_Timeout = groq_error LLMTimeoutError c"
| "translate_stream_failure c (Sdk_Status k code _) =
     groq_error
       (if k = Rate_Limit then LLMError
        else if k \<in> {Authentication, Permission_Denied, Not_Found} then LLMConfigurationError
        else if k \<in> {Bad_Request, Unprocessable_Entity} then LLMRequestError
        else if 500 \<le> code then LLMUnavailableError else LLMError) c"
| "translate_stream_failure c Sdk_Connection = groq_error LLMUnavailableError c"
| "translate_stream_failure c Sdk_Api = groq_error LLMError c"
| "translate_stream_failure c (Sdk_Foreign e) = e"

definition stream_request :: "llm_config \<Rightarrow> llm_prompt \<Rightarrow> pyval" where
  "stream_request c p = with_temperature c (request_head c p @ [(PStr (str ''stream''), PBool True)])"

definition groq_stream ::
  "(pyval \<Rightarrow> 'w \<Rightarrow> (pyval list \<times> sdk_exn option) \<times> 'w) \<Rightarrow> llm_config \<Rightarrow> llm_prompt \<Rightarrow> 'w \<Rightarrow>
   (pystr list \<times> exn option) \<times> 'w" where
  "groq_stream create c p w =
     (case create (stream_request c p) w of
        ((chunks, ending), w1) \<Rightarrow>
          ((List.map_filter delta_of chunks, map_option (translate_stream_failure c) ending), w1))"

subsection \<open>The static providers\<close>

text \<open>The canned responses by schema name.\<close>

definition static_complete ::
  "llm_config \<Rightarrow> (pystr \<times> 'a) list \<Rightarrow> pystr \<Rightarrow> llm_prompt \<Rightarrow> 'w \<Rightarrow> 'a structured_completion result \<times> 'w" where
  "static_complete c canned schema_name p w =
     (case map_of canned schema_name of
        None \<Rightarrow>
          (raise_app LLMError (Some (str ''The static provider has no canned response for '' @ schema_name @ str ''.''))
             (Some [(str ''provider'', PStr (str ''static'')), (str ''schema'', PStr schema_name)]), w)
      | Some output \<Rightarrow>
          (Inr \<lparr>sc_output = output,
                sc_meta = \<lparr>co_provider = str ''static'', co_model = lc_model c, co_stop_reason = Some (str ''end_turn''),
                           co_usage = \<lparr>lu_input = 0, lu_output = 0\<rparr>\<rparr>,
                sc_latency = 0\<rparr>, w))"

definition DEFAULT_STATIC_STREAM_TEXT :: pystr where
  "DEFAULT_STATIC_STREAM_TEXT = str ''This is a deterministic response from the static streaming provider. It makes no network call and always produces the same deltas.''"

fun split_loop :: "pystr \<Rightarrow> pystr list \<Rightarrow> pystr \<Rightarrow> pystr list" where
  "split_loop [] pieces current = (if current = [] then pieces else pieces @ [current])"
| "split_loop (c # s) pieces current =
     (if c = 32 then split_loop s (pieces @ [current @ [c]]) [] else split_loop s pieces (current @ [c]))"

definition split_keeping_whitespace :: "pystr \<Rightarrow> pystr list" where
  "split_keeping_whitespace text = (if text = [] then [] else split_loop text [] [])"

definition static_stream :: "pystr \<Rightarrow> llm_prompt \<Rightarrow> 'w \<Rightarrow> (pystr list \<times> exn option) \<times> 'w" where
  "static_stream text p w = ((split_keeping_whitespace text, None), w)"

subsection \<open>The factory\<close>

definition PROVIDER_NAMES :: "pystr list" where
  "PROVIDER_NAMES = sort [str ''groq'', str ''static'']"

text \<open>What the provider builders make is an argument.\<close>

definition build_provider :: "(pystr \<times> (llm_config \<Rightarrow> 'p result)) list \<Rightarrow> llm_config \<Rightarrow> 'p result" where
  "build_provider builders c =
     (case map_of builders (lc_provider c) of
        None \<Rightarrow> raise_app LLMError (Some (str ''Unknown LLM provider '' @ repr_str (lc_provider c) @ str ''.''))
                  (Some [(str ''provider'', PStr (lc_provider c)), (str ''supported'', PList (map PStr PROVIDER_NAMES))])
      | Some builder \<Rightarrow> builder c)"

subsection \<open>Strict schemas\<close>

text \<open>
  A rendered schema: the properties of an object are named by a dictionary with texts for keys,
  which is not itself an object schema. A strict one closes every object and requires all of its properties.
\<close>

fun is_text :: "pyval \<Rightarrow> bool" where
  "is_text (PStr _) = True"
| "is_text _ = False"

definition names_properties :: "(pyval \<times> pyval) list \<Rightarrow> bool" where
  "names_properties kvs \<longleftrightarrow> (case map_of kvs (PStr (str ''properties'')) of
     Some (PDict ps) \<Rightarrow> \<not> is_object ps \<and> list_all is_text (map fst ps) | _ \<Rightarrow> False)"

fun schema_ok :: "pyval \<Rightarrow> bool" where
  "schema_ok (PDict kvs) \<longleftrightarrow> (is_object kvs \<longrightarrow> names_properties kvs) \<and> list_all (\<lambda>(k, v). schema_ok v) kvs"
| "schema_ok (PList xs) \<longleftrightarrow> list_all schema_ok xs"
| "schema_ok _ \<longleftrightarrow> True"

definition closed_object :: "(pyval \<times> pyval) list \<Rightarrow> bool" where
  "closed_object kvs \<longleftrightarrow> map_of kvs (PStr (str ''additionalProperties'')) = Some (PBool False) \<and>
     (\<exists>ps. map_of kvs (PStr (str ''properties'')) = Some (PDict ps) \<and>
        map_of kvs (PStr (str ''required'')) = Some (PList (map fst ps)))"

fun strict_schema :: "pyval \<Rightarrow> bool" where
  "strict_schema (PDict kvs) \<longleftrightarrow> (is_object kvs \<longrightarrow> closed_object kvs) \<and> list_all (\<lambda>(k, v). strict_schema v) kvs"
| "strict_schema (PList xs) \<longleftrightarrow> list_all strict_schema xs"
| "strict_schema _ \<longleftrightarrow> True"

lemma list_all_update: "list_all P kvs \<Longrightarrow> P (k, v) \<Longrightarrow> list_all P (AList.update k v kvs)"
  by (induction kvs) auto

lemma tighten_dict_keys:
  assumes "tighten (PDict ps) = Inr v'" "\<not> is_object ps"
  shows "\<exists>ps'. v' = PDict ps' \<and> tighten_items ps = Inr ps'"
  using assms by (auto split: sum.splits)

lemma tighten_items_keys: "tighten_items kvs = Inr kvs' \<Longrightarrow> map fst kvs' = map fst kvs"
  by (induction kvs arbitrary: kvs' rule: list.induct) (auto split: sum.splits)

lemma tighten_items_lookup:
  assumes "tighten_items kvs = Inr kvs'"
  shows "(case map_of kvs k of None \<Rightarrow> map_of kvs' k = None
          | Some v \<Rightarrow> \<exists>v'. tighten v = Inr v' \<and> map_of kvs' k = Some v')"
  using assms by (induction kvs arbitrary: kvs' rule: list.induct) (auto split: sum.splits option.splits)

lemma tighten_str_inv: "tighten v = Inr (PStr s) \<longleftrightarrow> v = PStr s"
  by (cases v) (auto split: sum.splits)

lemma tighten_items_is_object:
  assumes "tighten_items kvs = Inr kvs'"
  shows "is_object kvs' = is_object kvs"
proof -
  have "map_of kvs' (PStr (str ''type'')) = Some (PStr (str ''object'')) \<longleftrightarrow>
      map_of kvs (PStr (str ''type'')) = Some (PStr (str ''object''))"
    using tighten_items_lookup [OF assms, of "PStr (str ''type'')"]
    by (auto simp: tighten_str_inv split: option.splits)
  moreover have "map_of kvs' (PStr (str ''properties'')) = None \<longleftrightarrow> map_of kvs (PStr (str ''properties'')) = None"
    using tighten_items_lookup [OF assms, of "PStr (str ''properties'')"] by (auto split: option.splits)
  ultimately show ?thesis by (simp add: is_object_def)
qed

lemma is_object_update:
  assumes "k \<notin> {PStr (str ''type''), PStr (str ''properties'')}"
  shows "is_object (AList.update k v kvs) = is_object kvs"
  using assms by (auto simp: is_object_def update_conv')

lemma tighten_closes:
  assumes "tighten_items kvs = Inr kvs'" "map_of kvs (PStr (str ''properties'')) = Some (PDict ps)" "\<not> is_object ps"
  shows "closed_object (AList.update (PStr (str ''required'')) (PList (map fst ps))
    (AList.update (PStr (str ''additionalProperties'')) (PBool False) kvs'))"
proof -
  from tighten_items_lookup [OF assms(1), of "PStr (str ''properties'')"] assms(2)
  obtain v' where v': "tighten (PDict ps) = Inr v'" "map_of kvs' (PStr (str ''properties'')) = Some v'" by auto
  from tighten_dict_keys [OF v'(1) assms(3)] obtain ps' where "v' = PDict ps'" "map fst ps' = map fst ps"
    using tighten_items_keys by blast
  with v'(2) show ?thesis by (simp add: closed_object_def update_conv')
qed

lemma tighten_strict_aux:
  shows "schema_ok v \<Longrightarrow> \<exists>v'. tighten v = Inr v' \<and> strict_schema v'"
    and "list_all (\<lambda>(k, v). schema_ok v) kvs \<Longrightarrow>
      \<exists>kvs'. tighten_items kvs = Inr kvs' \<and> list_all (\<lambda>(k, v). strict_schema v) kvs'"
    and "list_all schema_ok xs \<Longrightarrow> \<exists>ys. tighten_list xs = Inr ys \<and> list_all strict_schema ys"
proof (induction v and kvs and xs rule: tighten_tighten_items_tighten_list.induct)
  case (1 kvs)
  show ?case
  proof (cases "is_object kvs")
    case True
    with "1.prems" obtain ps where ps: "map_of kvs (PStr (str ''properties'')) = Some (PDict ps)" "\<not> is_object ps"
      and keys: "list_all is_text (map fst ps)"
      by (auto simp: names_properties_def split: option.splits pyval.splits)
    let ?keys = "PList (map fst ps)"
    from True ps have "keys_of (if is_object kvs then the (map_of kvs (PStr (str ''properties''))) else PList []) = Inr (map fst ps)"
      by simp
    from "1.IH" [OF this] "1.prems" obtain kvs' where kvs': "tighten_items kvs = Inr kvs'"
      "list_all (\<lambda>(k, v). strict_schema v) kvs'" by auto
    have "strict_schema k" if "is_text k" for k using that by (cases k) simp_all
    with keys have "strict_schema (PList (map fst ps))" by (auto simp: list_all_iff)
    then have "list_all (\<lambda>(k, v). strict_schema v) (AList.update (PStr (str ''required'')) (PList (map fst ps))
        (AList.update (PStr (str ''additionalProperties'')) (PBool False) kvs'))"
      using kvs'(2) by (intro list_all_update) simp_all
    with True ps kvs'(1) tighten_closes [OF kvs'(1) ps] show ?thesis by simp
  next
    case False
    then have "keys_of (if is_object kvs then the (map_of kvs (PStr (str ''properties''))) else PList []) = Inr []" by simp
    from "1.IH" [OF this] "1.prems" obtain kvs' where kvs': "tighten_items kvs = Inr kvs'"
      "list_all (\<lambda>(k, v). strict_schema v) kvs'" by auto
    with False tighten_items_is_object [OF kvs'(1)] show ?thesis by simp
  qed
qed (auto split: sum.splits)

text \<open>
  The schema sent with a request is strict at every depth: rendering never fails, and each
  object in it, however deeply nested, forbids further properties and requires all of its own.
\<close>

theorem strict_schema_everywhere:
  assumes "schema_ok document"
  shows "\<exists>schema. strict_json_schema document = Inr schema \<and> strict_schema schema"
  unfolding strict_json_schema_def by (rule tighten_strict_aux(1) [OF assms])

text \<open>An object whose one property is an object of its own.\<close>

definition sample_schema :: pyval where
  "sample_schema =
     (let typed = (\<lambda>ps. PDict [(PStr (str ''type''), PStr (str ''object'')), (PStr (str ''properties''), PDict ps)])
      in typed [(PStr (str ''inner''), typed [(PStr (str ''x''), PDict [])])])"

lemma sample_schema_ok: "schema_ok sample_schema"
  by (simp add: sample_schema_def Let_def is_object_def names_properties_def)

lemma strict_schema_everywhere_witness:
  "\<exists>schema. strict_json_schema sample_schema = Inr schema \<and> strict_schema schema"
  using strict_schema_everywhere [OF sample_schema_ok] .

subsection \<open>Failures\<close>

lemma groq_error_simps [simp]:
  "llm_error (groq_error failure c) = issubclass failure LLMError"
  by (simp add: groq_error_def)

lemma llm_subclasses [simp]:
  "issubclass LLMError LLMError" "issubclass LLMTimeoutError LLMError" "issubclass LLMConfigurationError LLMError"
  "issubclass LLMRequestError LLMError" "issubclass LLMUnavailableError LLMError"
  "issubclass LLMInvalidOutputError LLMError" "issubclass LLMRateLimitError LLMError"
  by (simp_all add: issubclass_def LLMError_def LLMTimeoutError_def LLMConfigurationError_def LLMRequestError_def
      LLMUnavailableError_def LLMInvalidOutputError_def LLMRateLimitError_def AppError_def)

text \<open>
  What a client may learn of a provider failure: the class's own message, and as details the
  provider, the model and how long to wait.
\<close>

definition discreet :: "llm_config \<Rightarrow> exn \<Rightarrow> bool" where
  "discreet c e \<longleftrightarrow> llm_error e \<and> (\<exists>err. e = App err \<and> ae_message err = ec_message (ae_class err) \<and>
     ae_status err \<in> {429, 500, 502, 503, 504} \<and>
     (\<exists>rest. ae_details err = Some ([(str ''provider'', PStr PROVIDER_NAME), (str ''model'', PStr (lc_model c))] @ rest) \<and>
        fst ` set rest \<subseteq> {str ''retry_after_seconds''}))"

lemma discreet_error:
  "failure \<in> {LLMError, LLMTimeoutError, LLMConfigurationError, LLMRequestError, LLMUnavailableError, LLMInvalidOutputError} \<Longrightarrow>
   discreet c (groq_error failure c)"
  by (auto simp: discreet_def groq_error_def new_error_def ae_status_def LLMError_def LLMTimeoutError_def
      LLMConfigurationError_def LLMRequestError_def LLMUnavailableError_def LLMInvalidOutputError_def AppError_def
      issubclass_def)

lemma discreet_rate_limited: "discreet c (groq_rate_limited parse_float c raw)"
  by (auto simp: discreet_def groq_rate_limited_def llm_rate_limited_def new_error_def ae_status_def Let_def
      LLMRateLimitError_def LLMError_def AppError_def issubclass_def split: option.split)

lemma discreet_translation:
  assumes "\<And>e. x \<noteq> Sdk_Foreign e"
  shows "discreet c (translate_failure parse_float c x)" "discreet c (translate_stream_failure c x)"
  using assms by (cases x; simp add: discreet_error discreet_rate_limited)+

lemma discreet_llm_error: "discreet c e \<Longrightarrow> llm_error e"
  by (simp add: discreet_def)

lemma read_completion_discreet: "read_completion validate c latency response = Inl e \<Longrightarrow> discreet c e"
  by (auto simp: read_completion_def discreet_error split: option.splits)

lemma groq_complete_discreet:
  assumes "\<And>r w e w'. create r w \<noteq> (Inl (Sdk_Foreign e), w')" "schema_ok document"
    and "groq_complete create parse_float clock c name document validate p w = (Inl e, w')"
  shows "discreet c e"
proof -
  from tighten_strict_aux(1) [OF assms(2)] obtain schema where schema: "strict_json_schema document = Inr schema"
    unfolding strict_json_schema_def by blast
  obtain q w1 where q: "create (structured_request c p name schema) w = (q, w1)" by force
  show ?thesis
  proof (cases q)
    case (Inl x)
    with assms(1) q have "\<And>e. x \<noteq> Sdk_Foreign e" by blast
    from discreet_translation(1) [OF this] show ?thesis
      using assms(3) schema q Inl by (auto simp: groq_complete_def)
  next
    case (Inr response)
    with assms(3) schema q show ?thesis by (auto simp: groq_complete_def intro: read_completion_discreet)
  qed
qed

lemma groq_stream_discreet:
  assumes "\<And>r w chunks e w'. create r w \<noteq> ((chunks, Some (Sdk_Foreign e)), w')"
    and "groq_stream create c p w = ((pieces, Some e), w')"
  shows "discreet c e"
proof -
  obtain chunks ending w1 where s: "create (stream_request c p) w = ((chunks, ending), w1)" by (metis prod.collapse)
  with assms(2) obtain x where x: "ending = Some x" "e = translate_stream_failure c x" by (auto simp: groq_stream_def)
  with assms(1) s have "\<And>e. x \<noteq> Sdk_Foreign e" by blast
  from discreet_translation(2) [OF this] x show ?thesis by simp
qed

lemma delta_of_ne [simp]: "delta_of chunk \<noteq> Some []"
  by (auto simp: delta_of_def split: option.splits pyval.splits if_splits)

text \<open>The SDK's own exceptions all derive from the classes it documents, so both backends qualify.\<close>

lemma groq_llm_provider:
  assumes "\<And>r w e w'. create r w \<noteq> (Inl (Sdk_Foreign e), w')" "schema_ok document"
  shows "llm_provider (groq_complete create parse_float clock c name document validate)"
proof
  fix p w e w'
  assume "groq_complete create parse_float clock c name document validate p w = (Inl e, w')"
  from groq_complete_discreet [OF assms this] show "llm_error e" by (rule discreet_llm_error)
qed

lemma groq_streaming_provider:
  assumes "\<And>r w chunks e w'. create r w \<noteq> ((chunks, Some (Sdk_Foreign e)), w')"
  shows "streaming_provider (groq_stream create c)"
proof
  fix p w pieces e w'
  assume "groq_stream create c p w = ((pieces, Some e), w')"
  from groq_stream_discreet [OF assms this] show "llm_error e" by (rule discreet_llm_error)
next
  fix p w pieces ending w'
  assume "groq_stream create c p w = ((pieces, ending), w')"
  then show "[] \<notin> set pieces" by (auto simp: groq_stream_def List.map_filter_def split: prod.splits)
qed

lemma split_loop_pieces:
  "concat (split_loop s pieces current) = concat pieces @ current @ s"
  "[] \<notin> set pieces \<Longrightarrow> [] \<notin> set (split_loop s pieces current)"
  by (induction s arbitrary: pieces current) auto

lemma split_keeping_whitespace:
  "concat (split_keeping_whitespace text) = text" "[] \<notin> set (split_keeping_whitespace text)"
  by (simp_all add: split_keeping_whitespace_def split_loop_pieces)

interpretation static_text: streaming_provider "static_stream text"
  by unfold_locales (auto simp: static_stream_def split_keeping_whitespace)

interpretation static_llm: llm_provider "static_complete c canned schema_name"
  by unfold_locales (auto simp: static_complete_def raise_app_def split: option.splits)

lemma output_llm_provider: "llm_provider complete_structured \<Longrightarrow> llm_provider (output_of complete_structured)"
  unfolding llm_provider_def output_of_def by (fastforce split: prod.splits sum.splits)

interpretation static_decisions: decision_provider "output_of (static_complete c canned schema_name)"
  by (rule decision_provider.intro, rule output_llm_provider, rule static_llm.llm_provider_axioms)

lemma groq_decision_provider:
  assumes "\<And>r w e w'. create r w \<noteq> (Inl (Sdk_Foreign e), w')" "schema_ok document"
  shows "decision_provider (output_of (groq_complete create parse_float clock c name document validate))"
  by (rule decision_provider.intro, rule output_llm_provider, rule groq_llm_provider [OF assms])

text \<open>
  C25: An agent over Groq always returns. Whatever the SDK raises and whatever comes back from the
  model, a run of the agent ends with an outcome and not with an exception; when the very first call
  fails the outcome says the provider is unavailable and is not a completed answer.
\<close>

theorem agent_over_groq_returns:
  assumes "\<And>r w e w'. create r w \<noteq> (Inl (Sdk_Foreign e), w')" "schema_ok document"
    and "al_provider al = output_of (groq_complete create parse_float clock c name document validate)"
  shows "\<exists>out s w'. agent_run al run_id question w = ((Inr out, s), w') \<and>
    (\<forall>e w1. budget_exhausted (AgentState run_id question (al_budget al)) = None \<and>
       agent_decide al (AgentState run_id question (al_budget al)) w = (Inl e, w1) \<longrightarrow>
       \<not> ao_completed out \<and> ao_stop_reason out = str ''provider_unavailable'')"
proof -
  let ?s0 = "AgentState run_id question (al_budget al)"
  note provider = groq_decision_provider [OF assms(1,2), where parse_float = parse_float and clock = clock and c = c and
      name = name and validate = validate]
  have "\<exists>out. fst (fst (agent_run_loop al ?s0 w)) = Inr out"
    by (rule decision_provider.agent_returns [OF provider assms(3)])
  then obtain out s w' where run: "agent_run_loop al ?s0 w = ((Inr out, s), w')"
    by (cases "agent_run_loop al ?s0 w") (auto simp: prod_eq_iff)
  have first: "\<not> ao_completed out \<and> ao_stop_reason out = str ''provider_unavailable''"
    if idle: "budget_exhausted ?s0 = None" and d: "agent_decide al ?s0 w = (Inl e, w1)" for e w1
  proof -
    have "fst (agent_decide al ?s0 w) = Inl e" by (simp add: d)
    then have "llm_error e"
      unfolding agent_decide_def assms(3)
      by (rule llm_provider.fst_llm_error [OF decision_provider.axioms [OF provider]])
    with run show ?thesis by (auto simp: agent_run_loop.simps [of al ?s0] idle d agent_finish_def Let_def)
  qed
  have "agent_run al run_id question w = ((Inr out, s), w')" by (simp add: agent_run_def run)
  with first show ?thesis by blast
qed

text \<open>A client whose every attempt times out.\<close>

definition sample_llm_config :: llm_config where
  "sample_llm_config = \<lparr>lc_provider = str ''groq'', lc_model = str ''m'', lc_api_key = None, lc_timeout = 30,
     lc_max_retries = 1, lc_total_timeout = 90, lc_max_output_tokens = 4096, lc_temperature = None\<rparr>"

definition stalled_provider :: "llm_prompt \<Rightarrow> rat \<Rightarrow> agent_decision result \<times> rat" where
  "stalled_provider = output_of (groq_complete (\<lambda>_ w. (Inl Sdk_Timeout, w)) (\<lambda>_. None) (\<lambda>w. w) sample_llm_config
     (str ''AgentDecision'') (PDict []) (\<lambda>_. None))"

lemma agent_over_groq_returns_witness:
  "\<exists>out s w'. agent_run (sample_loop\<lparr>al_provider := stalled_provider\<rparr>) [] (str ''q'') 0 = ((Inr out, s), w') \<and>
     ao_stop_reason out = str ''provider_unavailable''"
proof -
  let ?al = "sample_loop\<lparr>al_provider := stalled_provider\<rparr>"
  let ?s0 = "AgentState [] (str ''q'') (al_budget ?al)"
  have idle: "budget_exhausted ?s0 = None"
    by (simp add: budget_exhausted_def AgentState_def sample_loop_def remaining_steps_def remaining_tool_calls_def
        step_count_def tool_calls_def)
  have "\<exists>e w1. agent_decide ?al ?s0 0 = (Inl e, w1)"
    by (simp add: agent_decide_def stalled_provider_def output_of_def groq_complete_def strict_json_schema_def is_object_def)
  then obtain e w1 where d: "agent_decide ?al ?s0 0 = (Inl e, w1)" by blast
  have al: "al_provider ?al = output_of (groq_complete (\<lambda>_ w. (Inl Sdk_Timeout, w)) (\<lambda>_. None) (\<lambda>w. w) sample_llm_config
      (str ''AgentDecision'') (PDict []) (\<lambda>_. None))"
    by (simp add: stalled_provider_def)
  have "schema_ok (PDict [])" by (simp add: is_object_def)
  from agent_over_groq_returns [OF _ this al, of "[]" "str ''q''" 0] idle d show ?thesis by auto
qed

text \<open>
  C26: No provider text reaches a client. Whatever the SDK raises, during a call or in the middle of a
  stream, and whatever it returns that cannot be used, the caller gets an error of the \<open>LLMError\<close>
  family with that class's own message and status, and with the provider, the model and the waiting
  time as its only details.
\<close>

theorem groq_failures_are_discreet:
  assumes "\<And>r w e w'. create r w \<noteq> (Inl (Sdk_Foreign e), w')" "schema_ok document"
    and "\<And>r w chunks e w'. open_stream r w \<noteq> ((chunks, Some (Sdk_Foreign e)), w')"
    and "fst (groq_complete create parse_float clock c name document validate p w) = Inl e \<or>
         snd (fst (groq_stream open_stream c p w)) = Some e"
  shows "discreet c e"
  using assms(4)
proof
  assume e: "fst (groq_complete create parse_float clock c name document validate p w) = Inl e"
  obtain w' where "groq_complete create parse_float clock c name document validate p w = (Inl e, w')"
    using e by (cases "groq_complete create parse_float clock c name document validate p w") simp
  from groq_complete_discreet [OF assms(1,2) this] show ?thesis .
next
  assume e: "snd (fst (groq_stream open_stream c p w)) = Some e"
  obtain pieces w' where "groq_stream open_stream c p w = ((pieces, Some e), w')"
    using e by (cases "groq_stream open_stream c p w") (auto simp: prod_eq_iff)
  from groq_stream_discreet [OF assms(3) this] show ?thesis .
qed

lemma groq_failures_are_discreet_witness:
  "discreet sample_llm_config (groq_error LLMUnavailableError sample_llm_config)"
proof -
  let ?create = "\<lambda>r w. (Inl (Sdk_Status Other_Status 503 None) :: sdk_exn + pyval, w :: nat)"
  have "fst (groq_complete ?create (\<lambda>_. None) (\<lambda>_. 0) sample_llm_config (str ''S'') (PDict []) (\<lambda>_. Some ()) \<lparr>lp_system = [], lp_user = []\<rparr> 0)
      = Inl (groq_error LLMUnavailableError sample_llm_config)"
    by (simp add: groq_complete_def strict_json_schema_def is_object_def)
  then show ?thesis
    using groq_failures_are_discreet [where create = ?create and open_stream = "\<lambda>r w. (([], None), w)" and document = "PDict []"
        and parse_float = "\<lambda>_. None" and clock = "\<lambda>_. 0" and c = sample_llm_config and name = "str ''S''"
        and validate = "\<lambda>_. Some ()" and p = "\<lparr>lp_system = [], lp_user = []\<rparr>" and w = 0]
    by (simp add: is_object_def)
qed

text \<open>
  What a client sees of a provider's rate limit: a 429, with the seconds to wait rounded up and
  never negative when the provider gave a number, without the header when it gave none or something
  unreadable. But \<open>float\<close> also reads \<open>nan\<close> and \<open>inf\<close>: then the header cannot be made, and
  the handler itself raises instead of answering.
\<close>

theorem provider_rate_limit_rendered:
  "\<exists>err. translate_failure parse_float c (Sdk_Status Rate_Limit code (Some raw)) = App err \<and>
     (case parse_float raw of
        None \<Rightarrow> \<exists>r. handle_app_error Http gone err = Rendered r \<and> hr_status r = 429 \<and> hr_headers r = None
      | Some (PFloat q) \<Rightarrow> \<exists>r. handle_app_error Http gone err = Rendered r \<and> hr_status r = 429 \<and>
          hr_headers r = Some [(str ''Retry-After'', show_int (max 0 \<lceil>q\<rceil>))]
      | Some PNan \<Rightarrow> handle_app_error Http gone err = Handler_Raised (ValueError (str ''cannot convert float NaN to integer''))
      | Some (PInf _) \<Rightarrow> handle_app_error Http gone err = Handler_Raised (OtherError (str ''OverflowError''))
      | Some _ \<Rightarrow> True)"
proof -
  define err where "err = llm_rate_limited (Some [(str ''provider'', PStr PROVIDER_NAME), (str ''model'', PStr (lc_model c))])
    (parse_float raw)"
  have cls: "ae_class err = LLMRateLimitError" "ae_retry_after err = parse_float raw" "ae_status err = 429"
    "\<not> issubclass LLMRateLimitError RateLimitExceededError" "issubclass LLMRateLimitError LLMRateLimitError"
    by (simp_all add: err_def llm_rate_limited_def Let_def new_error_def ae_status_def issubclass_def LLMRateLimitError_def
        LLMError_def AppError_def RateLimitExceededError_def)
  have "translate_failure parse_float c (Sdk_Status Rate_Limit code (Some raw)) = App err"
    by (simp add: groq_rate_limited_def retry_after_seconds_def err_def)
  with cls show ?thesis
    by (auto simp: handle_app_error_def ae_headers_def render_error_def retry_header_def split: option.split pyval.split)
qed

end
