(* ===== verification/Realtime.thy ===== *)
theory Realtime
  imports Auth Assistant Llm
begin

text \<open>
  \<open>realtime/\<close> and the socket endpoint of \<open>api/v1/realtime.py\<close>: the frames of \<open>envelope.py\<close>, the
  registry of \<open>connection.py\<close>, the streamer of \<open>answers.py\<close> with the recorder of
  \<open>conversations.py\<close> and the answerer of \<open>pipeline.py\<close>, and the loop that serves one connection.
  The client is the texts it will send and how many frames it takes before it is gone; decoding
  JSON and reading a UUID are arguments. A provider's stream is the deltas it yields and the
  exception it ends with, if any.
\<close>

subsection \<open>The wire contract\<close>

definition MAX_MESSAGE_BYTES :: nat where
  "MAX_MESSAGE_BYTES = 64 * 1024"

definition MAX_QUESTION_LENGTH :: nat where
  "MAX_QUESTION_LENGTH = 4000"

datatype client_frame = Ping | Ask pystr "pystr option"

record complete_frame =
  cf_text :: pystr
  cf_deltas :: nat
  cf_conversation :: "pystr option"
  cf_grounded :: bool
  cf_citations :: "citation list"
  cf_escalated :: bool

datatype server_frame =
    Ready pystr int
  | Pong
  | Delta pystr
  | Complete complete_frame
  | ErrorFrame pystr pystr "(pystr \<times> pyval) list option"

text \<open>\<open>extra="forbid"\<close>: every key of the frame that its class does not declare.\<close>

definition extra_keys :: "string \<Rightarrow> string list \<Rightarrow> (pyval \<times> pyval) list \<Rightarrow> (pystr list \<times> pystr) list" where
  "extra_keys tag known kvs =
     map (\<lambda>(k, _). ([str tag, case k of PStr n \<Rightarrow> n | _ \<Rightarrow> []], str ''Extra inputs are not permitted''))
       (filter (\<lambda>(k, _). k \<notin> (PStr \<circ> str) ` set known) kvs)"

definition read_question :: "(pyval \<times> pyval) list \<Rightarrow> (pystr list \<times> pystr) list + pystr" where
  "read_question kvs =
     (let bad = (\<lambda>why. Inl [([str ''ask'', str ''question''], str why)]) in
      case map_of kvs (PStr (str ''question'')) of
        None \<Rightarrow> bad ''Field required''
      | Some (PStr q) \<Rightarrow>
          if q = [] then bad ''String should have at least 1 character''
          else if MAX_QUESTION_LENGTH < length q then bad ''String should have at most 4000 characters''
          else Inr q
      | Some _ \<Rightarrow> bad ''Input should be a valid string'')"

definition read_conversation_id ::
  "(pystr \<Rightarrow> pystr option) \<Rightarrow> (pyval \<times> pyval) list \<Rightarrow> (pystr list \<times> pystr) list + pystr option" where
  "read_conversation_id uuid kvs =
     (let bad = Inl [([str ''ask'', str ''conversation_id''], str ''Input should be a valid UUID'')] in
      case map_of kvs (PStr (str ''conversation_id'')) of
        None \<Rightarrow> Inr None
      | Some PNone \<Rightarrow> Inr None
      | Some (PStr t) \<Rightarrow> (case uuid t of None \<Rightarrow> bad | Some i \<Rightarrow> Inr (Some i))
      | Some _ \<Rightarrow> bad)"

definition read_ask :: "(pystr \<Rightarrow> pystr option) \<Rightarrow> (pyval \<times> pyval) list \<Rightarrow> client_frame result" where
  "read_ask uuid kvs =
     (case (read_question kvs, read_conversation_id uuid kvs,
            extra_keys ''ask'' [''type'', ''question'', ''conversation_id''] kvs) of
        (Inr q, Inr c, []) \<Rightarrow> Inr (Ask q c)
      | (q, c, extra) \<Rightarrow>
          Inl (ValidationError ((case q of Inl e \<Rightarrow> e | _ \<Rightarrow> []) @ (case c of Inl e \<Rightarrow> e | _ \<Rightarrow> []) @ extra)))"

definition parse_client_message ::
  "(pystr \<Rightarrow> pyval option) \<Rightarrow> (pystr \<Rightarrow> pystr option) \<Rightarrow> pystr \<Rightarrow> client_frame result" where
  "parse_client_message json uuid raw =
     (case json raw of
        None \<Rightarrow> Inl (ValidationError [([], str ''Invalid JSON'')])
      | Some (PDict kvs) \<Rightarrow>
          (case map_of kvs (PStr (str ''type'')) of
             None \<Rightarrow> Inl (ValidationError [([], str ''Unable to extract tag using discriminator'')])
           | Some tag \<Rightarrow>
               if tag = PStr (str ''ping'') then
                 (case extra_keys ''ping'' [''type''] kvs of [] \<Rightarrow> Inr Ping | extra \<Rightarrow> Inl (ValidationError extra))
               else if tag = PStr (str ''ask'') then read_ask uuid kvs
               else Inl (ValidationError [([], str ''Input tag does not match any of the expected tags'')]))
      | Some _ \<Rightarrow> Inl (ValidationError [([], str ''Input should be a valid dictionary'')]))"

subsection \<open>A finished answer in pieces\<close>

text \<open>\<open>re.split(r"(\s+)", text)\<close>: words and the runs of white space between them, in turn.\<close>

function split_runs :: "pystr \<Rightarrow> pystr list" where
  "split_runs s =
     (let rest = dropWhile (\<lambda>c. \<not> isspace c) s in
      if rest = [] then [takeWhile (\<lambda>c. \<not> isspace c) s]
      else takeWhile (\<lambda>c. \<not> isspace c) s # takeWhile isspace rest # split_runs (dropWhile isspace rest))"
  by pat_completeness auto
termination
proof (relation "measure length")
  fix s rest :: pystr
  assume rest: "rest = dropWhile (\<lambda>c. \<not> isspace c) s" "rest \<noteq> []"
  then have "isspace (hd rest)" using hd_dropWhile by blast
  with rest(2) have "length (dropWhile isspace rest) < length rest"
    by (cases rest) (auto simp: length_dropWhile_le le_imp_less_Suc)
  also have "length rest \<le> length s" by (simp add: rest(1) length_dropWhile_le)
  finally show "(dropWhile isspace rest, s) \<in> measure length" by simp
qed simp

declare split_runs.simps [simp del]

definition all_space :: "pystr \<Rightarrow> bool" where
  "all_space s \<longleftrightarrow> s \<noteq> [] \<and> list_all isspace s"

fun chunk_loop :: "nat \<Rightarrow> pystr list \<Rightarrow> pystr \<Rightarrow> pystr list" where
  "chunk_loop width [] piece = (if piece = [] then [] else [piece])"
| "chunk_loop width (word # words) piece =
     (let piece' = piece @ word in
      if width \<le> length piece' \<and> \<not> all_space word then piece' # chunk_loop width words []
      else chunk_loop width words piece')"

definition chunk :: "pystr \<Rightarrow> nat \<Rightarrow> pystr list" where
  "chunk text width = (if text = [] then [] else chunk_loop width (split_runs text) [])"

subsection \<open>Live connections\<close>

record connection_registry =
  cr_max :: nat
  cr_connections :: "pystr list"

definition ConnectionRegistry :: "int \<Rightarrow> connection_registry result" where
  "ConnectionRegistry max_connections =
     (if max_connections < 1 then Inl (ValueError (str ''max_connections must be at least 1.''))
      else Inr \<lparr>cr_max = nat max_connections, cr_connections = []\<rparr>)"

definition registry_add :: "pystr \<Rightarrow> connection_registry \<Rightarrow> unit result \<times> connection_registry" where
  "registry_add i reg =
     (if cr_max reg \<le> length (cr_connections reg) then
        (raise_app RealtimeCapacityError None (Some [(str ''limit'', PInt (int (cr_max reg)))]), reg)
      else (Inr (), reg\<lparr>cr_connections := List.insert i (cr_connections reg)\<rparr>))"

definition registry_remove :: "pystr \<Rightarrow> connection_registry \<Rightarrow> connection_registry" where
  "registry_remove i reg = reg\<lparr>cr_connections := remove1 i (cr_connections reg)\<rparr>"

definition registry_get :: "pystr \<Rightarrow> connection_registry \<Rightarrow> pystr option" where
  "registry_get i reg = (if i \<in> set (cr_connections reg) then Some i else None)"

text \<open>
  One connection with its streamer: the frames the client took, how many more it will take
  (\<open>None\<close> for a client that stays), the texts it will send, the close frame the server sent, the
  busy flag of the streamer, and the rest of the world.
\<close>

record 'w live =
  lv_sent :: "server_frame list"
  lv_budget :: "nat option"
  lv_inbox :: "pystr list"
  lv_closed :: "(int \<times> pystr) option"
  lv_busy :: bool
  lv_world :: 'w

definition disconnect :: exn where
  "disconnect = OtherError (str ''WebSocketDisconnect'')"

definition send_frame :: "server_frame \<Rightarrow> 'w live \<Rightarrow> unit result \<times> 'w live" where
  "send_frame f s =
     (case lv_budget s of
        Some 0 \<Rightarrow> (Inl disconnect, s)
      | Some (Suc n) \<Rightarrow> (Inr (), s\<lparr>lv_sent := lv_sent s @ [f], lv_budget := Some n\<rparr>)
      | None \<Rightarrow> (Inr (), s\<lparr>lv_sent := lv_sent s @ [f]\<rparr>))"

fun send_all :: "server_frame list \<Rightarrow> 'w live \<Rightarrow> unit result \<times> 'w live" where
  "send_all [] s = (Inr (), s)"
| "send_all (f # fs) s =
     (case send_frame f s of (Inl e, s1) \<Rightarrow> (Inl e, s1) | (Inr _, s1) \<Rightarrow> send_all fs s1)"

subsection \<open>Streaming one answer\<close>

definition BUSY_CODE :: pystr where "BUSY_CODE = str ''realtime_busy''"
definition BUSY_MESSAGE :: pystr where
  "BUSY_MESSAGE = str ''A question is already being answered on this connection.''"
definition STREAM_FAILED_MESSAGE :: pystr where
  "STREAM_FAILED_MESSAGE = str ''The answer could not be completed.''"
definition NO_RECORDER_CODE :: pystr where "NO_RECORDER_CODE = str ''realtime_conversations_unavailable''"
definition NO_RECORDER_MESSAGE :: pystr where
  "NO_RECORDER_MESSAGE = str ''This connection cannot record conversations.''"
definition PIPELINE_FAILED_CODE :: pystr where "PIPELINE_FAILED_CODE = str ''realtime_answer_failed''"
definition RECORD_FAILED_CODE :: pystr where "RECORD_FAILED_CODE = str ''realtime_turn_not_recorded''"
definition RECORD_FAILED_MESSAGE :: pystr where
  "RECORD_FAILED_MESSAGE = str ''The exchange could not be recorded.''"

type_synonym 'w turn_recorder = "pystr \<Rightarrow> message_role \<Rightarrow> pystr \<Rightarrow> 'w \<Rightarrow> unit result \<times> 'w"

record 'w answerer =
  aw_available :: bool
  aw_answer :: "pystr \<Rightarrow> pystr option \<Rightarrow> 'w \<Rightarrow> assistant_reply result \<times> 'w"

record 'w streamer =
  sr_stream :: "llm_prompt \<Rightarrow> 'w \<Rightarrow> (pystr list \<times> exn option) \<times> 'w"
  sr_recorder :: "'w turn_recorder option"
  sr_answerer :: "'w answerer option"

text \<open>The recorder and the answerer over a database session, bound to the connection's scope.\<close>

definition session_recorder :: "pystr option \<Rightarrow> (conversation_db \<times> 'w) turn_recorder" where
  "session_recorder scope i role content world =
     (case world of (db, w) \<Rightarrow>
        (case append_turn i role content [] scope db of
           (Inl e, db1) \<Rightarrow> (Inl e, db1, w)
         | (Inr _, db1) \<Rightarrow> (Inr (), db1, w)))"

definition session_answerer :: "bool \<Rightarrow> 'w assistant \<Rightarrow> pystr option \<Rightarrow> (conversation_db \<times> 'w) answerer" where
  "session_answerer database_configured sv scope =
     \<lparr>aw_available = database_configured,
      aw_answer = (\<lambda>question conversation_id. respond sv question conversation_id scope)\<rparr>"

definition record_turn ::
  "'w streamer \<Rightarrow> pystr \<Rightarrow> message_role \<Rightarrow> pystr \<Rightarrow> 'w live \<Rightarrow> bool result \<times> 'w live" where
  "record_turn sr i role content s =
     (let report = (\<lambda>code msg s.
        case send_frame (ErrorFrame code msg None) s of (Inl e, s1) \<Rightarrow> (Inl e, s1) | (Inr _, s1) \<Rightarrow> (Inr False, s1)) in
      case sr_recorder sr of
        None \<Rightarrow> report NO_RECORDER_CODE NO_RECORDER_MESSAGE s
      | Some recorder \<Rightarrow>
          (case recorder i role content (lv_world s) of
             (Inr _, w) \<Rightarrow> (Inr True, s\<lparr>lv_world := w\<rparr>)
           | (Inl (App e), w) \<Rightarrow> report (ae_code e) (ae_message e) (s\<lparr>lv_world := w\<rparr>)
           | (Inl _, w) \<Rightarrow> report RECORD_FAILED_CODE RECORD_FAILED_MESSAGE (s\<lparr>lv_world := w\<rparr>)))"

definition answer_grounded ::
  "'w answerer \<Rightarrow> pystr \<Rightarrow> pystr option \<Rightarrow> 'w live \<Rightarrow> unit result \<times> 'w live" where
  "answer_grounded aw question conversation_id s =
     (case aw_answer aw question conversation_id (lv_world s) of
        (Inl (App e), w) \<Rightarrow> send_frame (ErrorFrame (ae_code e) (ae_message e) None) (s\<lparr>lv_world := w\<rparr>)
      | (Inl _, w) \<Rightarrow> send_frame (ErrorFrame PIPELINE_FAILED_CODE STREAM_FAILED_MESSAGE None) (s\<lparr>lv_world := w\<rparr>)
      | (Inr reply, w) \<Rightarrow>
          (let pieces = chunk (ar_reply reply) 24 in
           case send_all (map Delta pieces) (s\<lparr>lv_world := w\<rparr>) of
             (Inl e, s1) \<Rightarrow> (Inl e, s1)
           | (Inr _, s1) \<Rightarrow>
               send_frame (Complete \<lparr>cf_text = ar_reply reply, cf_deltas = length pieces,
                 cf_conversation = conversation_id, cf_grounded = True, cf_citations = ar_citations reply,
                 cf_escalated = ar_escalated reply\<rparr>) s1))"

text \<open>After the first turn is recorded: stream, record the answer, complete.\<close>

definition finish_prose ::
  "'w streamer \<Rightarrow> pystr list \<Rightarrow> pystr option \<Rightarrow> 'w live \<Rightarrow> unit result \<times> 'w live" where
  "finish_prose sr pieces conversation_id s =
     (let complete = Complete \<lparr>cf_text = concat pieces, cf_deltas = length pieces,
            cf_conversation = conversation_id, cf_grounded = False, cf_citations = [], cf_escalated = False\<rparr> in
      case conversation_id of
        None \<Rightarrow> send_frame complete s
      | Some i \<Rightarrow>
          (case record_turn sr i ASSISTANT (concat pieces) s of
             (Inl e, s1) \<Rightarrow> (Inl e, s1)
           | (Inr _, s1) \<Rightarrow> send_frame complete s1))"

definition run_stream ::
  "pystr \<Rightarrow> 'w streamer \<Rightarrow> pystr \<Rightarrow> pystr option \<Rightarrow> 'w live \<Rightarrow> unit result \<times> 'w live" where
  "run_stream system sr question conversation_id s =
     (case sr_stream sr \<lparr>lp_system = system, lp_user = question\<rparr> (lv_world s) of
        ((pieces, ending), w) \<Rightarrow>
          (case send_all (map Delta pieces) (s\<lparr>lv_world := w\<rparr>) of
             (Inl e, s1) \<Rightarrow> (Inl e, s1)
           | (Inr _, s1) \<Rightarrow>
               (case ending of
                  None \<Rightarrow> finish_prose sr pieces conversation_id s1
                | Some (App e) \<Rightarrow>
                    if issubclass (ae_class e) LLMError then
                      send_frame (ErrorFrame (ae_code e) STREAM_FAILED_MESSAGE None) s1
                    else (Inl (App e), s1)
                | Some e \<Rightarrow> (Inl e, s1))))"

definition stream_prose ::
  "pystr \<Rightarrow> 'w streamer \<Rightarrow> pystr \<Rightarrow> pystr option \<Rightarrow> 'w live \<Rightarrow> unit result \<times> 'w live" where
  "stream_prose system sr question conversation_id s =
     (case conversation_id of
        None \<Rightarrow> run_stream system sr question conversation_id s
      | Some i \<Rightarrow>
          (case record_turn sr i CUSTOMER question s of
             (Inl e, s1) \<Rightarrow> (Inl e, s1)
           | (Inr False, s1) \<Rightarrow> (Inr (), s1)
           | (Inr True, s1) \<Rightarrow> run_stream system sr question conversation_id s1))"

definition stream_answer ::
  "pystr \<Rightarrow> 'w streamer \<Rightarrow> pystr \<Rightarrow> pystr option \<Rightarrow> 'w live \<Rightarrow> unit result \<times> 'w live" where
  "stream_answer system sr question conversation_id s =
     (if lv_busy s then send_frame (ErrorFrame BUSY_CODE BUSY_MESSAGE None) s
      else
        (let (r, s1) = (case sr_answerer sr of
           Some aw \<Rightarrow>
             if aw_available aw then answer_grounded aw question conversation_id (s\<lparr>lv_busy := True\<rparr>)
             else stream_prose system sr question conversation_id (s\<lparr>lv_busy := True\<rparr>)
         | None \<Rightarrow> stream_prose system sr question conversation_id (s\<lparr>lv_busy := True\<rparr>))
         in (r, s1\<lparr>lv_busy := False\<rparr>)))"

subsection \<open>Serving a connection\<close>

definition utf8_width :: "nat \<Rightarrow> nat" where
  "utf8_width c = (if c < 128 then 1 else if c < 2048 then 2 else if c < 65536 then 3 else 4)"

definition utf8_length :: "pystr \<Rightarrow> nat" where
  "utf8_length s = sum_list (map utf8_width s)"

definition CLOSE_AT_CAPACITY :: int where "CLOSE_AT_CAPACITY = 1008"
definition CLOSE_TOO_LARGE :: int where "CLOSE_TOO_LARGE = 1009"
definition CLOSE_UNAUTHENTICATED :: int where "CLOSE_UNAUTHENTICATED = 1008"

definition handle_frame :: "pystr \<Rightarrow> 'w streamer \<Rightarrow> client_frame \<Rightarrow> 'w live \<Rightarrow> unit result \<times> 'w live" where
  "handle_frame system sr frame s =
     (case frame of
        Ask question conversation_id \<Rightarrow> stream_answer system sr question conversation_id s
      | Ping \<Rightarrow> send_frame Pong s)"

definition protocol_error :: server_frame where
  "protocol_error = ErrorFrame (ec_code RealtimeProtocolError) (ec_message RealtimeProtocolError) None"

definition handle_raw ::
  "pystr \<Rightarrow> 'w streamer \<Rightarrow> (pystr \<Rightarrow> client_frame result) \<Rightarrow> pystr \<Rightarrow> 'w live \<Rightarrow> unit result \<times> 'w live" where
  "handle_raw system sr parse raw s =
     (case parse raw of
        Inl (ValidationError _) \<Rightarrow> send_frame protocol_error s
      | Inl e \<Rightarrow> (Inl e, s)
      | Inr frame \<Rightarrow> handle_frame system sr frame s)"

text \<open>\<open>receive_text\<close> takes the next text of the client; with none left the client is gone.\<close>

fun serve_loop ::
  "pystr \<Rightarrow> 'w streamer \<Rightarrow> (pystr \<Rightarrow> client_frame result) \<Rightarrow> nat \<Rightarrow> pystr list \<Rightarrow> 'w live \<Rightarrow> unit result \<times> 'w live" where
  "serve_loop system sr parse limit [] s = (Inl disconnect, s\<lparr>lv_inbox := []\<rparr>)"
| "serve_loop system sr parse limit (raw # rest) s =
     (if limit < utf8_length raw then
        (Inr (), s\<lparr>lv_inbox := rest, lv_closed := Some (CLOSE_TOO_LARGE, str ''message too large'')\<rparr>)
      else
        (case handle_raw system sr parse raw (s\<lparr>lv_inbox := rest\<rparr>) of
           (Inl e, s1) \<Rightarrow> (Inl e, s1)
         | (Inr _, s1) \<Rightarrow> serve_loop system sr parse limit rest s1))"

definition serve ::
  "pystr \<Rightarrow> 'w streamer \<Rightarrow> (pystr \<Rightarrow> client_frame result) \<Rightarrow> nat \<Rightarrow> 'w live \<Rightarrow> unit result \<times> 'w live" where
  "serve system sr parse limit s = serve_loop system sr parse limit (lv_inbox s) s"

text \<open>The \<open>finally\<close> of the endpoint: the slot is given back, and a socket still open is closed.\<close>

definition end_connection :: "pystr \<Rightarrow> connection_registry \<Rightarrow> 'w live \<Rightarrow> connection_registry \<times> 'w live" where
  "end_connection i reg s =
     (registry_remove i reg, if lv_closed s = None then s\<lparr>lv_closed := Some (1000, [])\<rparr> else s)"

definition greet_and_serve ::
  "pystr \<Rightarrow> 'w streamer \<Rightarrow> (pystr \<Rightarrow> client_frame result) \<Rightarrow> nat \<Rightarrow> pystr \<Rightarrow> 'w live \<Rightarrow> unit result \<times> 'w live" where
  "greet_and_serve system sr parse limit i s =
     (case send_frame (Ready i 1) s of
        (Inl e, s1) \<Rightarrow> (Inl e, s1)
      | (Inr _, s1) \<Rightarrow> serve system sr parse limit s1)"

text \<open>
  \<open>meanwhile\<close> is what the other connections did to the registry while this one was served.
\<close>

definition realtime ::
  "(pystr \<Rightarrow> 'w \<Rightarrow> pystr option \<times> 'w) \<Rightarrow> bool \<Rightarrow> authorizer \<Rightarrow> (pystr option \<Rightarrow> 'w streamer) \<Rightarrow>
   pystr \<Rightarrow> (pystr \<Rightarrow> client_frame result) \<Rightarrow> nat \<Rightarrow> pystr option \<Rightarrow> pystr \<Rightarrow>
   (connection_registry \<Rightarrow> connection_registry) \<Rightarrow> connection_registry \<Rightarrow> 'w live \<Rightarrow>
   unit result \<times> connection_registry \<times> 'w live" where
  "realtime redeem protects authz streamer_for system parse limit ticket i meanwhile reg s =
     (case authenticate_socket redeem protects ticket (lv_world s) of
        (Inl e, w) \<Rightarrow> (Inl e, reg, s\<lparr>lv_world := w\<rparr>)
      | (Inr None, w) \<Rightarrow>
          (Inr (), reg, s\<lparr>lv_world := w, lv_closed := Some (CLOSE_UNAUTHENTICATED, str ''a valid ticket is required'')\<rparr>)
      | (Inr (Some who), w) \<Rightarrow>
          (case registry_add i reg of
             (Inl _, reg1) \<Rightarrow>
               (Inr (), reg1, s\<lparr>lv_world := w, lv_closed := Some (CLOSE_AT_CAPACITY, str ''at capacity'')\<rparr>)
           | (Inr _, reg1) \<Rightarrow>
               (let (r, s1) = greet_and_serve system (streamer_for (az_scope_for authz who)) parse limit i
                                (s\<lparr>lv_world := w\<rparr>);
                    (reg2, s2) = end_connection i (meanwhile reg1) s1 in
                (if r = Inl disconnect then Inr () else r, reg2, s2))))"

subsection \<open>Pieces of an answer\<close>

lemma concat_split_runs [simp]: "concat (split_runs s) = s"
proof (induction s rule: split_runs.induct)
  case (1 s)
  define rest where "rest = dropWhile (\<lambda>c. \<not> isspace c) s"
  have s: "takeWhile (\<lambda>c. \<not> isspace c) s @ rest = s" by (simp add: rest_def)
  show ?case
  proof (cases "rest = []")
    case True
    with s show ?thesis by (subst split_runs.simps) (simp add: Let_def rest_def [symmetric])
  next
    case False
    from 1 [OF rest_def False] have "takeWhile isspace rest @ concat (split_runs (dropWhile isspace rest)) = rest" by simp
    with s False show ?thesis by (subst split_runs.simps) (simp add: Let_def rest_def [symmetric])
  qed
qed

lemma concat_chunk_loop: "concat (chunk_loop width ws piece) = piece @ concat ws"
  by (induction width ws piece rule: chunk_loop.induct) (auto simp: Let_def)

lemma chunk_loop_ne: "0 < width \<Longrightarrow> [] \<notin> set (chunk_loop width ws piece)"
  by (induction width ws piece rule: chunk_loop.induct) (auto simp: Let_def)

lemma chunk_loop_width: "p \<in> set (butlast (chunk_loop width ws piece)) \<Longrightarrow> width \<le> length p"
  by (induction width ws piece rule: chunk_loop.induct) (auto simp: Let_def split: if_splits)

lemma split_ws_before_space:
  assumes "b \<noteq> []" "isspace (hd b)"
  shows "split_ws (a @ b @ t) = split_ws a @ split_ws (b @ t)"
proof -
  from assms obtain c b' where b: "b = c # b'" "isspace c" by (cases b) auto
  have "split_ws (c # b' @ t) = split_ws (b' @ t)" using split_ws_spaces [of "[c]" "b' @ t"] b by simp
  with b show ?thesis by (simp add: split_ws_space_between)
qed

lemma chunk_loop_words:
  "concat (map split_ws (chunk_loop width (split_runs s) piece)) = split_ws (piece @ s)"
proof (induction s arbitrary: piece rule: split_runs.induct)
  case (1 s)
  define word rest where "word = takeWhile (\<lambda>c. \<not> isspace c) s" and "rest = dropWhile (\<lambda>c. \<not> isspace c) s"
  have s: "s = word @ rest" by (simp add: word_def rest_def)
  show ?case
  proof (cases "rest = []")
    case True
    then have "split_runs s = [word]" by (subst split_runs.simps) (simp add: Let_def rest_def [symmetric] word_def)
    with True s show ?thesis by (simp add: Let_def)
  next
    case False
    define gap where "gap = takeWhile isspace rest"
    have hd: "isspace (hd rest)" using False hd_dropWhile unfolding rest_def by blast
    then have gap: "all_space gap" "gap \<noteq> []" "isspace (hd gap)"
      using False by (cases rest; auto simp: gap_def all_space_def list_all_iff dest: set_takeWhileD)+
    have runs: "split_runs s = word # gap # split_runs (dropWhile isspace rest)"
      using False by (subst split_runs.simps) (simp add: Let_def rest_def [symmetric] word_def gap_def)
    have rest: "rest = gap @ dropWhile isspace rest" by (simp add: gap_def)
    note IH = "1.IH" [OF rest_def False]
    have "concat (map split_ws (chunk_loop width (split_runs s) piece)) = split_ws (piece @ word) @ split_ws rest"
      unfolding runs using IH [of gap] IH [of "piece @ word @ gap"] rest gap(1)
        split_ws_before_space [OF gap(2,3), of "piece @ word" "dropWhile isspace rest"]
      by (simp add: Let_def)
    also have "\<dots> = split_ws (piece @ s)"
      using split_ws_before_space [OF gap(2,3), of "piece @ word" "dropWhile isspace rest"] rest s by simp
    finally show ?thesis .
  qed
qed

text \<open>
  Presenting a finished answer loses nothing. The pieces joined are the answer; no piece is
  empty and only the last is shorter than the width; a word is never split across two pieces.
\<close>

theorem chunk_reassembles:
  assumes "0 < width"
  shows "concat (chunk text width) = text \<and> concat (map split_ws (chunk text width)) = split_ws text \<and>
    [] \<notin> set (chunk text width) \<and> (\<forall>p \<in> set (butlast (chunk text width)). width \<le> length p)"
  using assms chunk_loop_width [of _ width "split_runs text" "[]"]
  by (auto simp: chunk_def concat_chunk_loop chunk_loop_words chunk_loop_ne)

lemma chunk_reassembles_witness:
  "concat (chunk (str ''Hello  big world'') 6) = str ''Hello  big world'' \<and>
   [] \<notin> set (chunk (str ''Hello  big world'') 6)"
  using chunk_reassembles [of 6 "str ''Hello  big world''"] by simp

subsection \<open>What a connection sees\<close>

definition kept :: "'w live \<Rightarrow> 'w live \<Rightarrow> bool" where
  "kept s s' \<longleftrightarrow> lv_busy s' = lv_busy s \<and> lv_inbox s' = lv_inbox s \<and> lv_closed s' = lv_closed s \<and>
     (lv_budget s = None \<longrightarrow> lv_budget s' = None)"

fun is_complete :: "server_frame \<Rightarrow> bool" where
  "is_complete (Complete _) = True"
| "is_complete _ = False"

text \<open>The frames of one answered question: deltas, then an error, or a completion that agrees with them.\<close>

definition completes :: "pystr option \<Rightarrow> pystr list \<Rightarrow> complete_frame \<Rightarrow> bool" where
  "completes conversation_id pieces cf \<longleftrightarrow>
     cf_text cf = concat pieces \<and> cf_deltas cf = length pieces \<and> cf_conversation cf = conversation_id"

definition answered :: "pystr option \<Rightarrow> server_frame list \<Rightarrow> bool" where
  "answered conversation_id frames \<longleftrightarrow>
     (\<exists>pieces. (\<exists>code msg. frames = map Delta pieces @ [ErrorFrame code msg None]) \<or>
        (\<exists>cf. completes conversation_id pieces cf \<and>
           (frames = map Delta pieces @ [Complete cf] \<or>
            conversation_id \<noteq> None \<and> \<not> cf_grounded cf \<and>
            (\<exists>code msg. frames = map Delta pieces @ [ErrorFrame code msg None, Complete cf]))))"

text \<open>
  A step that sends: with a result it has sent frames as \<open>P\<close> says; it ends with an exception only
  when the client is gone or for the reason \<open>Q\<close>, and then no completion was sent.
\<close>

definition sends :: "(server_frame list \<Rightarrow> bool) \<Rightarrow> (exn \<Rightarrow> bool) \<Rightarrow> 'w live \<Rightarrow> 'a result \<Rightarrow> 'w live \<Rightarrow> bool" where
  "sends P Q s r s' \<longleftrightarrow> kept s s' \<and>
     (\<exists>frames. lv_sent s' = lv_sent s @ frames \<and>
        (case r of Inr _ \<Rightarrow> P frames
         | Inl e \<Rightarrow> (e = disconnect \<and> lv_budget s' = Some 0 \<or> Q e) \<and> \<not> list_ex is_complete frames))"

lemma kept_refl [simp]: "kept s s" "kept s (s\<lparr>lv_world := w\<rparr>)"
  by (simp_all add: kept_def)

lemma kept_trans: "kept s s1 \<Longrightarrow> kept s1 s2 \<Longrightarrow> kept s s2"
  by (simp add: kept_def)

lemma sends_world [simp]: "sends P Q (s\<lparr>lv_world := w\<rparr>) r s' = sends P Q s r s'"
  by (simp add: sends_def kept_def)

lemma sends_frame:
  assumes "send_frame f s = (r, s')"
  shows "sends (\<lambda>fs. fs = [f]) (\<lambda>_. False) s r s'"
  using assms by (auto simp: send_frame_def sends_def kept_def split: option.splits nat.splits)

lemma sends_mono:
  assumes "sends P Q s r s'" "\<And>fs. P fs \<Longrightarrow> P' fs" "\<And>e. Q e \<Longrightarrow> Q' e"
  shows "sends P' Q' s r s'"
  using assms unfolding sends_def by (cases r) (simp_all, blast+)

lemma sends_fail:
  assumes "sends P Q s (Inl e) s'" "\<And>e. Q e \<Longrightarrow> Q' e"
  shows "sends P' Q' s (Inl e) s'"
  using assms unfolding sends_def by auto

lemma sends_then:
  assumes "sends P Q s (Inr x) s1" "sends P2 Q s1 r s2"
    and "\<And>fs. P fs \<Longrightarrow> \<not> list_ex is_complete fs"
  shows "sends (\<lambda>fs. \<exists>a b. fs = a @ b \<and> P a \<and> P2 b) Q s r s2"
proof -
  from assms(1) obtain a where a: "lv_sent s1 = lv_sent s @ a" "P a" "kept s s1" by (auto simp: sends_def)
  from assms(2) obtain b where b: "lv_sent s2 = lv_sent s1 @ b" "kept s1 s2"
    "case r of Inr _ \<Rightarrow> P2 b
     | Inl e \<Rightarrow> (e = disconnect \<and> lv_budget s2 = Some 0 \<or> Q e) \<and> \<not> list_ex is_complete b"
    unfolding sends_def by blast
  from kept_trans [OF a(3) b(2)] show ?thesis
    unfolding sends_def using a b assms(3)
    by (intro conjI exI [of _ "a @ b"]) (auto split: sum.splits)
qed

lemma sends_all:
  assumes "send_all fs s = (r, s')" "\<not> list_ex is_complete fs"
  shows "sends (\<lambda>gs. gs = fs) (\<lambda>_. False) s r s'"
  using assms
proof (induction fs arbitrary: s)
  case Nil
  then show ?case by (auto simp: sends_def)
next
  case (Cons f fs)
  obtain r1 s1 where f: "send_frame f s = (r1, s1)" by force
  note one = sends_frame [OF f]
  show ?case
  proof (cases r1)
    case (Inl e)
    with Cons.prems f one show ?thesis by (auto intro: sends_fail)
  next
    case (Inr u)
    with Cons.prems f have "send_all fs s1 = (r, s')" by simp
    from Cons.IH [OF this] Cons.prems(2) have "sends (\<lambda>gs. gs = fs) (\<lambda>_. False) s1 r s'" by simp
    from sends_then [OF one [unfolded Inr] this] Cons.prems(2) show ?thesis
      by (auto intro: sends_mono)
  qed
qed

lemma no_complete_deltas [simp]: "\<not> list_ex is_complete (map Delta pieces)"
  by (induction pieces) auto

lemma sends_record:
  assumes "record_turn sr i role content s = (r, s')"
  shows "sends (\<lambda>fs. if r = Inr True then fs = [] else \<exists>code msg. fs = [ErrorFrame code msg None]) (\<lambda>_. False) s r s'"
proof -
  have report: "sends (\<lambda>fs. if r = Inr True then fs = [] else \<exists>code msg. fs = [ErrorFrame code msg None]) (\<lambda>_. False) s r s'"
    if "(case send_frame (ErrorFrame code msg None) (s\<lparr>lv_world := w\<rparr>) of
           (Inl e, s1) \<Rightarrow> (Inl e, s1) | (Inr _, s1) \<Rightarrow> (Inr False, s1)) = (r, s')" for code msg w
  proof -
    obtain r1 s1 where f: "send_frame (ErrorFrame code msg None) (s\<lparr>lv_world := w\<rparr>) = (r1, s1)" by force
    from sends_frame [OF f, unfolded sends_world] that show ?thesis by (cases r1) (auto simp: f sends_def)
  qed
  have same: "s\<lparr>lv_world := lv_world s\<rparr> = s" by simp
  show ?thesis
  proof (cases "sr_recorder sr")
    case None
    with assms report [of NO_RECORDER_CODE NO_RECORDER_MESSAGE "lv_world s"] show ?thesis
      by (simp add: record_turn_def)
  next
    case (Some recorder)
    obtain q w where q: "recorder i role content (lv_world s) = (q, w)" by force
    show ?thesis
    proof (cases q)
      case (Inr u)
      with assms Some q have "r = Inr True" "s' = s\<lparr>lv_world := w\<rparr>" by (simp_all add: record_turn_def)
      then show ?thesis by (simp add: sends_def)
    next
      case (Inl e)
      with assms Some q report show ?thesis by (cases e) (simp_all add: record_turn_def Let_def)
    qed
  qed
qed

lemma answered_error: "answered c (map Delta pieces @ [ErrorFrame code msg None])"
  unfolding answered_def by blast

lemma sends_grounded:
  assumes "answer_grounded aw q c s = (r, s')"
  shows "sends (answered c) (\<lambda>_. False) s r s'"
proof -
  obtain p w where p: "aw_answer aw q c (lv_world s) = (p, w)" by force
  have err: "sends (answered c) (\<lambda>_. False) s r s'"
    if "send_frame (ErrorFrame code msg None) (s\<lparr>lv_world := w\<rparr>) = (r, s')" for code msg
    using sends_frame [OF that] answered_error [of c "[]"] by (auto elim!: sends_mono)
  show ?thesis
  proof (cases p)
    case (Inl e)
    with assms p err show ?thesis by (cases e) (simp_all add: answer_grounded_def)
  next
    case (Inr reply)
    let ?pieces = "chunk (ar_reply reply) 24"
    define cf where "cf = \<lparr>cf_text = ar_reply reply, cf_deltas = length ?pieces,
      cf_conversation = c, cf_grounded = True, cf_citations = ar_citations reply, cf_escalated = ar_escalated reply\<rparr>"
    have "concat ?pieces = ar_reply reply" by (simp add: chunk_def concat_chunk_loop)
    then have cf: "completes c ?pieces cf" by (simp add: completes_def cf_def)
    obtain r1 s1 where d: "send_all (map Delta ?pieces) (s\<lparr>lv_world := w\<rparr>) = (r1, s1)" by force
    note first = sends_all [OF d no_complete_deltas, unfolded sends_world]
    show ?thesis
    proof (cases r1)
      case (Inl e)
      with assms p Inr d first show ?thesis by (auto simp: answer_grounded_def Let_def intro: sends_fail)
    next
      case (Inr u)
      with assms p \<open>p = Inr reply\<close> d have "send_frame (Complete cf) s1 = (r, s')"
        by (simp add: answer_grounded_def Let_def cf_def)
      from sends_then [OF first [unfolded Inr] sends_frame [OF this]] show ?thesis
        by (rule sends_mono) (use cf in \<open>auto simp: answered_def\<close>)
    qed
  qed
qed

lemma no_completion_on_error:
  "sends P Q s (Inl e) s' \<Longrightarrow> Complete cf \<notin> set (drop (length (lv_sent s)) (lv_sent s'))"
  by (auto simp: sends_def list_ex_iff dest: bspec [where x = "Complete cf"])

text \<open>A completion on the grounded path carries the reply of the pipeline, word for word.\<close>

lemma grounded_completion:
  assumes "answer_grounded aw q c s = (r, s')" "Complete cf \<in> set (drop (length (lv_sent s)) (lv_sent s'))"
  shows "\<exists>reply w. aw_answer aw q c (lv_world s) = (Inr reply, w) \<and> cf_text cf = ar_reply reply \<and> cf_grounded cf \<and>
    cf_escalated cf = ar_escalated reply \<and> cf_citations cf = ar_citations reply \<and>
    drop (length (lv_sent s)) (lv_sent s') = map Delta (chunk (ar_reply reply) 24) @ [Complete cf]"
proof -
  obtain p w where p: "aw_answer aw q c (lv_world s) = (p, w)" by force
  have none: False if "send_frame (ErrorFrame code msg None) (s\<lparr>lv_world := w\<rparr>) = (r, s')" for code msg
    using sends_frame [OF that, unfolded sends_world] assms(2) by (cases r) (auto simp: sends_def list_ex_iff dest: bspec [where x = "Complete cf"])
  show ?thesis
  proof (cases p)
    case (Inl e)
    with assms p none show ?thesis by (cases e) (simp_all add: answer_grounded_def)
  next
    case (Inr reply)
    let ?pieces = "chunk (ar_reply reply) 24"
    define last where "last = \<lparr>cf_text = ar_reply reply, cf_deltas = length ?pieces,
      cf_conversation = c, cf_grounded = True, cf_citations = ar_citations reply, cf_escalated = ar_escalated reply\<rparr>"
    obtain r1 s1 where d: "send_all (map Delta ?pieces) (s\<lparr>lv_world := w\<rparr>) = (r1, s1)" by force
    note first = sends_all [OF d no_complete_deltas, unfolded sends_world]
    show ?thesis
    proof (cases r1)
      case (Inl e)
      with assms(1) p \<open>p = Inr reply\<close> d have "s' = s1" by (simp add: answer_grounded_def Let_def)
      with assms(2) no_completion_on_error [OF first [unfolded Inl]] show ?thesis by blast
    next
      case (Inr u)
      with assms(1) p \<open>p = Inr reply\<close> d have fin: "send_frame (Complete last) s1 = (r, s')"
        by (simp add: answer_grounded_def Let_def last_def)
      have s1: "lv_sent s1 = lv_sent s @ map Delta ?pieces" using first Inr by (simp add: sends_def)
      have "lv_sent s' = lv_sent s1 @ [Complete last] \<or> lv_sent s' = lv_sent s1"
        using fin by (auto simp: send_frame_def split: option.splits nat.splits)
      with assms(2) s1 have "lv_sent s' = lv_sent s @ map Delta ?pieces @ [Complete last]" "cf = last" by auto
      with p \<open>p = Inr reply\<close> show ?thesis by (simp add: last_def)
    qed
  qed
qed

definition escapes :: "'w streamer \<Rightarrow> exn \<Rightarrow> bool" where
  "escapes sr e \<longleftrightarrow> \<not> llm_error e \<and> (\<exists>p w pieces w'. sr_stream sr p w = ((pieces, Some e), w'))"

context streaming_provider
begin

lemma stream_never_escapes: "sr_stream sr = stream_text \<Longrightarrow> \<not> escapes sr e"
  using stream_llm_errors by (auto simp: escapes_def)

end

lemma sends_finish:
  assumes "finish_prose sr pieces c s = (r, s')"
  shows "sends (\<lambda>fs. answered c (map Delta pieces @ fs)) Q s r s'"
proof -
  define cf where "cf = \<lparr>cf_text = concat pieces, cf_deltas = length pieces, cf_conversation = c,
    cf_grounded = False, cf_citations = [], cf_escalated = False\<rparr>"
  have cf: "completes c pieces cf" "\<not> cf_grounded cf" by (simp_all add: completes_def cf_def)
  show ?thesis
  proof (cases c)
    case None
    with assms have "send_frame (Complete cf) s = (r, s')" by (simp add: finish_prose_def cf_def)
    from sends_frame [OF this] show ?thesis by (rule sends_mono) (use cf in \<open>auto simp: answered_def\<close>)
  next
    case (Some i)
    obtain r1 s1 where rec: "record_turn sr i ASSISTANT (concat pieces) s = (r1, s1)" by force
    note first = sends_record [OF rec]
    show ?thesis
    proof (cases r1)
      case (Inl e)
      with assms Some rec have "r = Inl e" "s' = s1" by (simp_all add: finish_prose_def Let_def)
      with first Inl show ?thesis by (auto intro: sends_fail)
    next
      case (Inr b)
      with assms Some rec have "send_frame (Complete cf) s1 = (r, s')" by (simp add: finish_prose_def Let_def cf_def)
      from sends_then [OF first [unfolded Inr] sends_frame [OF this]]
      have "sends (\<lambda>fs. \<exists>a. (a = [] \<or> (\<exists>code msg. a = [ErrorFrame code msg None])) \<and> fs = a @ [Complete cf]) (\<lambda>_. False) s r s'"
        by (rule sends_mono) (auto split: if_splits)
      then show ?thesis
      proof (rule sends_mono)
        fix fs assume "\<exists>a. (a = [] \<or> (\<exists>code msg. a = [ErrorFrame code msg None])) \<and> fs = a @ [Complete cf]"
        then show "answered c (map Delta pieces @ fs)"
          unfolding answered_def by (intro exI [of _ pieces] disjI2 exI [of _ cf]) (use cf Some in auto)
      qed simp
    qed
  qed
qed

lemma sends_stream:
  assumes "run_stream system sr q c s = (r, s')"
  shows "sends (answered c) (escapes sr) s r s'"
proof -
  obtain pieces ending w where st: "sr_stream sr \<lparr>lp_system = system, lp_user = q\<rparr> (lv_world s) = ((pieces, ending), w)"
    by (metis prod.collapse)
  obtain r1 s1 where d: "send_all (map Delta pieces) (s\<lparr>lv_world := w\<rparr>) = (r1, s1)" by force
  note first = sends_all [OF d no_complete_deltas, unfolded sends_world]
  have esc: "escapes sr e" if "ending = Some e" "\<not> llm_error e" for e
    using st that unfolding escapes_def by blast
  show ?thesis
  proof (cases r1)
    case (Inl e)
    with assms st d first show ?thesis by (auto simp: run_stream_def intro: sends_fail)
  next
    case (Inr u)
    note first = first [unfolded Inr]
    have leave: "sends (answered c) (escapes sr) s r s'" if "r = Inl e" "s' = s1" "escapes sr e" for e
      using first that unfolding sends_def by auto
    show ?thesis
    proof (cases ending)
      case None
      with assms st d Inr have "finish_prose sr pieces c s1 = (r, s')" by (simp add: run_stream_def)
      from sends_then [OF first sends_finish [OF this]] show ?thesis by (rule sends_mono) auto
    next
      case (Some e)
      show ?thesis
      proof (cases "llm_error e")
        case True
        then obtain a where a: "e = App a" by (cases e) auto
        with assms st d Inr Some True have "send_frame (ErrorFrame (ae_code a) STREAM_FAILED_MESSAGE None) s1 = (r, s')"
          by (simp add: run_stream_def)
        from sends_then [OF first sends_frame [OF this]] show ?thesis
          by (rule sends_mono) (auto simp: answered_error)
      next
        case False
        with assms st d Inr Some have "r = Inl e" "s' = s1" by (cases e; simp add: run_stream_def)+
        with leave esc [OF Some False] show ?thesis by blast
      qed
    qed
  qed
qed

lemma sends_prose:
  assumes "stream_prose system sr q c s = (r, s')"
  shows "sends (answered c) (escapes sr) s r s'"
proof (cases c)
  case None
  with assms show ?thesis by (simp add: stream_prose_def sends_stream)
next
  case (Some i)
  obtain r1 s1 where rec: "record_turn sr i CUSTOMER q s = (r1, s1)" by force
  note first = sends_record [OF rec]
  show ?thesis
  proof (cases r1)
    case (Inl e)
    with assms Some rec first show ?thesis by (auto simp: stream_prose_def intro: sends_fail)
  next
    case (Inr recorded)
    show ?thesis
    proof (cases recorded)
      case True
      with assms Some rec Inr have "run_stream system sr q c s1 = (r, s')" by (simp add: stream_prose_def)
      from sends_then [OF sends_mono [OF first [unfolded Inr], where P' = "\<lambda>fs. fs = []" and Q' = "escapes sr"] sends_stream [OF this]] True
      show ?thesis by (auto elim: sends_mono)
    next
      case False
      with assms Some rec Inr have "r = Inr ()" "s' = s1" by (simp_all add: stream_prose_def)
      with first Inr False answered_error [of c "[]"] show ?thesis by (auto simp: sends_def)
    qed
  qed
qed

lemma stream_answer_sends:
  assumes "stream_answer system sr q c s = (r, s')" "\<not> lv_busy s"
  shows "sends (answered c) (escapes sr) s r s'"
proof -
  let ?s = "s\<lparr>lv_busy := True\<rparr>"
  obtain s1 where run: "s' = s1\<lparr>lv_busy := False\<rparr>" and
    "(\<exists>aw. answer_grounded aw q c ?s = (r, s1)) \<or> stream_prose system sr q c ?s = (r, s1)"
    using assms by (auto simp: stream_answer_def Let_def split: option.splits if_splits prod.splits)
  then have "sends (answered c) (escapes sr) ?s r s1"
    using sends_grounded sends_prose by (blast intro: sends_mono)
  with assms(2) show ?thesis by (cases r) (auto simp: run sends_def kept_def)
qed

text \<open>A provider that streams two deltas, for a client that stays.\<close>

definition sample_streamer :: "nat streamer" where
  "sample_streamer = \<lparr>sr_stream = (\<lambda>_ w. (([str ''a '', str ''b''], None), w)), sr_recorder = None, sr_answerer = None\<rparr>"

definition sample_live :: "nat live" where
  "sample_live = \<lparr>lv_sent = [], lv_budget = None, lv_inbox = [], lv_closed = None, lv_busy = False, lv_world = 0\<rparr>"

text \<open>
  C14: A question gets one verdict. Unless the streamer was busy, which answers with the busy error
  alone, it is free again afterwards, whatever happened. When it returns, the frames sent are deltas
  followed by an error, or by exactly one completion whose text is the deltas joined, whose count is
  theirs and whose conversation is the one asked about. It raises only because the client is gone or
  the provider ends its stream with something that is not a model error, and then without a completion.
\<close>

theorem answer_ends_with_one_verdict:
  assumes "stream_answer system sr question conversation_id s = (r, s')" "\<not> lv_busy s"
  shows "\<not> lv_busy s' \<and> lv_inbox s' = lv_inbox s \<and> lv_closed s' = lv_closed s \<and>
    (\<exists>frames. lv_sent s' = lv_sent s @ frames \<and>
      (case r of Inr _ \<Rightarrow> answered conversation_id frames
       | Inl e \<Rightarrow> (e = disconnect \<and> lv_budget s' = Some 0 \<or> escapes sr e) \<and> \<not> list_ex is_complete frames))"
  using stream_answer_sends [OF assms] assms(2) by (simp add: sends_def kept_def)

lemma answer_ends_with_one_verdict_witness:
  "\<exists>frames. lv_sent (snd (stream_answer [] sample_streamer (str ''q'') None sample_live)) = frames \<and>
     answered None frames \<and> length frames = 3"
proof -
  have run: "stream_answer [] sample_streamer (str ''q'') None sample_live =
      (Inr (), sample_live\<lparr>lv_sent := [Delta (str ''a ''), Delta (str ''b''), Complete \<lparr>cf_text = str ''a '' @ str ''b'',
         cf_deltas = 2, cf_conversation = None, cf_grounded = False, cf_citations = [], cf_escalated = False\<rparr>]\<rparr>)"
    by (simp add: stream_answer_def stream_prose_def run_stream_def finish_prose_def send_frame_def
        sample_streamer_def sample_live_def)
  have "\<not> lv_busy sample_live" by (simp add: sample_live_def)
  from answer_ends_with_one_verdict [OF run this] run show ?thesis by (auto simp: sample_live_def)
qed

subsection \<open>Serving every frame\<close>

lemma parse_client_message_error:
  "parse_client_message json uuid raw = Inl e \<Longrightarrow> \<exists>m. e = ValidationError m"
  by (auto simp: parse_client_message_def read_ask_def split: option.splits pyval.splits if_splits list.splits sum.splits)

definition replied ::
  "(pystr \<Rightarrow> pyval option) \<Rightarrow> (pystr \<Rightarrow> pystr option) \<Rightarrow> pystr \<Rightarrow> server_frame list \<Rightarrow> bool" where
  "replied json uuid raw frames \<longleftrightarrow>
     (case parse_client_message json uuid raw of
        Inl _ \<Rightarrow> frames = [protocol_error]
      | Inr Ping \<Rightarrow> frames = [Pong]
      | Inr (Ask question conversation_id) \<Rightarrow> answered conversation_id frames)"

lemma handle_raw_sends:
  assumes "handle_raw system sr (parse_client_message json uuid) raw s = (r, s')" "\<not> lv_busy s"
  shows "sends (replied json uuid raw) (escapes sr) s r s'"
proof (cases "parse_client_message json uuid raw")
  case (Inl e)
  with parse_client_message_error obtain m where e: "e = ValidationError m" by blast
  with Inl assms have "send_frame protocol_error s = (r, s')" by (simp add: handle_raw_def)
  from sends_frame [OF this] show ?thesis by (rule sends_mono) (simp_all add: replied_def Inl)
next
  case (Inr frame)
  show ?thesis
  proof (cases frame)
    case Ping
    with Inr assms have "send_frame Pong s = (r, s')" by (simp add: handle_raw_def handle_frame_def)
    from sends_frame [OF this] show ?thesis by (rule sends_mono) (simp_all add: replied_def Inr Ping)
  next
    case (Ask q c)
    with Inr assms have "stream_answer system sr q c s = (r, s')" by (simp add: handle_raw_def handle_frame_def)
    from stream_answer_sends [OF this assms(2)] show ?thesis by (rule sends_mono) (simp_all add: replied_def Inr Ask)
  qed
qed

lemma serve_loop_replies:
  assumes "lv_budget s = None" "\<not> lv_busy s" "\<And>e. \<not> escapes sr e"
    and "serve_loop system sr (parse_client_message json uuid) limit inbox s = (r, s')"
  shows "\<exists>groups. list_all2 (replied json uuid) (takeWhile (\<lambda>raw. utf8_length raw \<le> limit) inbox) groups \<and>
    lv_sent s' = lv_sent s @ concat groups \<and>
    (if \<forall>raw \<in> set inbox. utf8_length raw \<le> limit then r = Inl disconnect \<and> lv_closed s' = lv_closed s
     else r = Inr () \<and> lv_closed s' = Some (CLOSE_TOO_LARGE, str ''message too large''))"
  using assms(1,2,4)
proof (induction inbox arbitrary: s)
  case Nil
  then show ?case by auto
next
  case (Cons raw rest)
  show ?case
  proof (cases "limit < utf8_length raw")
    case True
    with Cons.prems(3) show ?thesis by auto
  next
    case False
    let ?s = "s\<lparr>lv_inbox := rest\<rparr>"
    obtain r1 s1 where h: "handle_raw system sr (parse_client_message json uuid) raw ?s = (r1, s1)" by force
    have "sends (replied json uuid raw) (escapes sr) ?s r1 s1"
      using handle_raw_sends [OF h] Cons.prems(2) by simp
    then obtain frames where frames: "lv_sent s1 = lv_sent s @ frames" "kept ?s s1"
      "case r1 of Inr _ \<Rightarrow> replied json uuid raw frames
       | Inl e \<Rightarrow> e = disconnect \<and> lv_budget s1 = Some 0 \<or> escapes sr e"
      unfolding sends_def by (cases r1) auto
    with Cons.prems(1) assms(3) have ok: "r1 = Inr ()" "replied json uuid raw frames"
      by (cases r1; auto simp: kept_def)+
    have s1: "lv_budget s1 = None" "\<not> lv_busy s1" "lv_closed s1 = lv_closed s"
      using frames(2) Cons.prems by (simp_all add: kept_def)
    have "serve_loop system sr (parse_client_message json uuid) limit rest s1 = (r, s')"
      using Cons.prems(3) False h ok by simp
    from Cons.IH [OF s1(1,2) this] obtain groups where
      "list_all2 (replied json uuid) (takeWhile (\<lambda>raw. utf8_length raw \<le> limit) rest) groups"
      "lv_sent s' = lv_sent s1 @ concat groups"
      "if \<forall>raw \<in> set rest. utf8_length raw \<le> limit then r = Inl disconnect \<and> lv_closed s' = lv_closed s1
       else r = Inr () \<and> lv_closed s' = Some (CLOSE_TOO_LARGE, str ''message too large'')" by blast
    with False ok frames(1) s1(3) show ?thesis
      by (intro exI [of _ "frames # groups"]) (auto split: if_splits)
  qed
qed

text \<open>
  C13: Every frame gets its reply. For a client that stays, with a provider that only fails with
  model errors, each text the client sends is answered in turn by its own group of frames: a ping by
  one pong, a malformed text by one protocol error after which serving goes on, a question by an
  answer with its verdict. Serving ends only when the client leaves or at its first oversized text,
  which is not read any further than its size and closes the connection with 1009.
\<close>

theorem serve_answers_every_frame:
  assumes "lv_budget s = None" "\<not> lv_busy s" "\<And>e. \<not> escapes sr e"
    and "serve system sr (parse_client_message json uuid) limit s = (r, s')"
  shows "\<exists>groups.
    list_all2 (replied json uuid) (takeWhile (\<lambda>raw. utf8_length raw \<le> limit) (lv_inbox s)) groups \<and>
    lv_sent s' = lv_sent s @ concat groups \<and>
    (if \<forall>raw \<in> set (lv_inbox s). utf8_length raw \<le> limit then r = Inl disconnect \<and> lv_closed s' = lv_closed s
     else r = Inr () \<and> lv_closed s' = Some (CLOSE_TOO_LARGE, str ''message too large''))"
  using serve_loop_replies [OF assms(1-3)] assms(4) unfolding serve_def by blast

definition chatty_live :: "nat live" where
  "chatty_live = sample_live\<lparr>lv_inbox := [str ''p'', str ''x'', str ''too long'']\<rparr>"

definition sample_json :: "pystr \<Rightarrow> pyval option" where
  "sample_json raw = (if raw = str ''p'' then Some (PDict [(PStr (str ''type''), PStr (str ''ping''))]) else None)"

lemma serve_answers_every_frame_witness:
  "\<exists>groups. list_all2 (replied sample_json Some) [str ''p'', str ''x''] groups \<and>
     lv_sent (snd (serve [] sample_streamer (parse_client_message sample_json Some) 3 chatty_live)) = concat groups"
proof -
  have live: "lv_budget chatty_live = None" "\<not> lv_busy chatty_live" "\<not> escapes sample_streamer e" for e
    by (auto simp: chatty_live_def sample_live_def escapes_def sample_streamer_def)
  have "takeWhile (\<lambda>raw. utf8_length raw \<le> 3) (lv_inbox chatty_live) = [str ''p'', str ''x'']"
    by (simp add: chatty_live_def utf8_length_def utf8_width_def str_def)
  moreover have "lv_sent chatty_live = []" by (simp add: chatty_live_def sample_live_def)
  ultimately show ?thesis
    using serve_answers_every_frame [OF live, of "[]" sample_json Some 3
        "fst (serve [] sample_streamer (parse_client_message sample_json Some) 3 chatty_live)"
        "snd (serve [] sample_streamer (parse_client_message sample_json Some) 3 chatty_live)"]
    by auto
qed

subsection \<open>Slots\<close>

text \<open>
  Endpoints run concurrently: between any two steps of one connection others are admitted, refused
  or ended. The second component is the connections being served; ids are fresh UUIDs.
\<close>

inductive slot_step :: "connection_registry \<times> pystr list \<Rightarrow> connection_registry \<times> pystr list \<Rightarrow> bool" where
  admitted: "registry_add i reg = (Inr (), reg') \<Longrightarrow> i \<notin> set (cr_connections reg) \<Longrightarrow>
    slot_step (reg, serving) (reg', i # serving)"
| refused: "registry_add i reg = (Inl e, reg') \<Longrightarrow> slot_step (reg, serving) (reg', serving)"
| ended: "i \<in> set serving \<Longrightarrow> slot_step (reg, serving) (registry_remove i reg, remove1 i serving)"
| removed_twice: "i \<notin> set serving \<Longrightarrow> slot_step (reg, serving) (registry_remove i reg, serving)"

definition slots_ok :: "nat \<Rightarrow> connection_registry \<times> pystr list \<Rightarrow> bool" where
  "slots_ok n st \<longleftrightarrow> (case st of (reg, serving) \<Rightarrow>
     cr_max reg = n \<and> distinct (cr_connections reg) \<and> distinct serving \<and>
     set (cr_connections reg) = set serving \<and> length (cr_connections reg) \<le> n)"

lemma slots_admit:
  assumes "slots_ok n (reg, serving)" "registry_add i reg = (Inr (), reg')" "i \<notin> set (cr_connections reg)"
  shows "slots_ok n (reg', i # serving)"
proof -
  from assms(2) have "reg' = reg\<lparr>cr_connections := List.insert i (cr_connections reg)\<rparr>"
    "\<not> cr_max reg \<le> length (cr_connections reg)"
    by (simp_all add: registry_add_def raise_app_def split: if_splits)
  with assms(1,3) show ?thesis by (simp add: slots_ok_def)
qed

lemma slots_refuse: "registry_add i reg = (Inl e, reg') \<Longrightarrow> reg' = reg"
  by (auto simp: registry_add_def raise_app_def split: if_splits)

lemma slots_end:
  assumes "slots_ok n (reg, serving)"
  shows "slots_ok n (registry_remove i reg, remove1 i serving)"
proof -
  have "length (remove1 i xs) \<le> length xs" for xs :: "pystr list" by (simp add: length_remove1)
  with assms show ?thesis
    by (simp add: slots_ok_def registry_remove_def) (meson le_trans)
qed

lemma slots_step_ok [invs]: "slot_step st st' \<Longrightarrow> slots_ok n st \<Longrightarrow> slots_ok n st'"
proof (induction rule: slot_step.induct)
  case (admitted i reg reg' serving)
  then show ?case by (blast intro: slots_admit)
next
  case (refused i reg e reg' serving)
  then show ?case using slots_refuse by blast
next
  case (ended i serving reg)
  then show ?case by (blast intro: slots_end)
next
  case (removed_twice i serving reg)
  then show ?case using slots_end [of n reg serving i] by (simp add: remove1_idem)
qed



subsection \<open>Admission\<close>

lemma greet_keeps_slot: "cr_connections (fst (end_connection i reg s)) = remove1 i (cr_connections reg)"
  by (simp add: end_connection_def registry_remove_def)

lemma end_connection_closed [simp]: "lv_closed (snd (end_connection i reg s)) \<noteq> None"
  by (simp add: end_connection_def)

lemma end_connection_sent [simp]: "lv_sent (snd (end_connection i reg s)) = lv_sent s"
  by (simp add: end_connection_def)

text \<open>
  Only an admitted client is served. A frame is sent or a text is read only after the handshake
  named an identity, which a protected deployment grants only for a ticket just redeemed, and a slot
  was free; otherwise the socket is closed with 1008, nothing is read or sent, the registry is as it
  was and the world has seen the redemption alone. A served connection gives its slot back, however
  it ended, and its socket is closed.
\<close>

theorem only_admitted_clients_are_served:
  assumes "realtime redeem protects authz streamer_for system parse limit ticket i (\<lambda>reg. reg) reg s = (r, reg', s')"
    and "authenticate_socket redeem protects ticket (lv_world s) = (Inr who, w)" "i \<notin> set (cr_connections reg)"
  shows "reg' = reg \<and> lv_closed s' \<noteq> None \<and>
    (if who = None \<or> cr_max reg \<le> length (cr_connections reg) then
       r = Inr () \<and> lv_world s' = w \<and> lv_sent s' = lv_sent s \<and> lv_inbox s' = lv_inbox s \<and>
       map_option fst (lv_closed s') = Some 1008
     else \<exists>r1 s1. greet_and_serve system (streamer_for (az_scope_for authz (the who))) parse limit i
                (s\<lparr>lv_world := w\<rparr>) = (r1, s1) \<and> lv_sent s' = lv_sent s1 \<and> r1 \<in> {r, Inl disconnect}) \<and>
    (protects \<and> who \<noteq> None \<longrightarrow> (\<exists>t. ticket = Some t \<and> t \<noteq> [] \<and> redeem t (lv_world s) = (Some (id_subject (the who)), w)))"
proof -
  have ticket: "\<exists>t. ticket = Some t \<and> t \<noteq> [] \<and> redeem t (lv_world s) = (Some (id_subject (the who)), w)"
    if "protects" "who \<noteq> None"
    using assms(2) that by (auto simp: authenticate_socket_def api_key_identity_def
        split: option.splits list.splits prod.splits if_splits)
  show ?thesis
  proof (cases "who = None \<or> cr_max reg \<le> length (cr_connections reg)")
    case True
    with assms(1,2) ticket show ?thesis
      by (auto simp: realtime_def registry_add_def raise_app_def CLOSE_UNAUTHENTICATED_def CLOSE_AT_CAPACITY_def
          split: option.splits)
  next
    case False
    then obtain me where me: "who = Some me" by auto
    obtain r1 s1 where g: "greet_and_serve system (streamer_for (az_scope_for authz me)) parse limit i
        (s\<lparr>lv_world := w\<rparr>) = (r1, s1)" by force
    define reg1 where "reg1 = reg\<lparr>cr_connections := List.insert i (cr_connections reg)\<rparr>"
    have "registry_remove i reg1 = reg" using assms(3) by (simp add: registry_remove_def reg1_def)
    then have "reg' = reg" "s' = snd (end_connection i reg1 s1)" "r = (if r1 = Inl disconnect then Inr () else r1)"
      using assms(1,2) False me g
      by (simp_all add: realtime_def registry_add_def reg1_def [symmetric] Let_def end_connection_def)
    with False me g ticket show ?thesis by auto
  qed
qed

lemma only_admitted_clients_are_served_witness:
  "\<exists>r reg' s'. realtime (\<lambda>_ w. (None, w)) True open_authorizer (\<lambda>_. sample_streamer) [] (\<lambda>_. Inr Ping) 3
      (Some (str ''spent'')) (str ''c'') (\<lambda>reg. reg) \<lparr>cr_max = 1, cr_connections = []\<rparr> chatty_live = (r, reg', s') \<and>
     lv_sent s' = [] \<and> map_option fst (lv_closed s') = Some 1008"
proof -
  obtain r reg' s' where run: "realtime (\<lambda>_ w. (None, w)) True open_authorizer (\<lambda>_. sample_streamer) [] (\<lambda>_. Inr Ping) 3
      (Some (str ''spent'')) (str ''c'') (\<lambda>reg. reg) \<lparr>cr_max = 1, cr_connections = []\<rparr> chatty_live = (r, reg', s')"
    by (metis prod.collapse)
  have auth: "authenticate_socket (\<lambda>_ w. (None, w)) True (Some (str ''spent'')) (lv_world chatty_live) = (Inr None, lv_world chatty_live)"
    by (simp add: authenticate_socket_def split: list.split)
  have "lv_sent chatty_live = []" by (simp add: chatty_live_def sample_live_def)
  with only_admitted_clients_are_served [OF run auth] run show ?thesis by auto
qed

end
