(* ===== verification/Evaluation.thy ===== *)
theory Evaluation
  imports Routing
begin

text \<open>
  \<open>evaluation/\<close>: cases and suites of \<open>cases.py\<close>, the checks of \<open>checks.py\<close>, the reports of
  \<open>results.py\<close>, the harness and the comparison of runs of \<open>runner.py\<close>. Python's \<open>repr\<close> and \<open>str\<close> of a
  value and the formatting of a number are arguments.
\<close>

subsection \<open>Python values in a check\<close>

fun truthy :: "pyval \<Rightarrow> bool" where
  "truthy PNone \<longleftrightarrow> False"
| "truthy (PBool b) \<longleftrightarrow> b"
| "truthy (PInt n) \<longleftrightarrow> n \<noteq> 0"
| "truthy (PFloat r) \<longleftrightarrow> r \<noteq> 0"
| "truthy (PStr s) \<longleftrightarrow> s \<noteq> []"
| "truthy (PList xs) \<longleftrightarrow> xs \<noteq> []"
| "truthy (PTuple xs) \<longleftrightarrow> xs \<noteq> []"
| "truthy (PDict kvs) \<longleftrightarrow> kvs \<noteq> []"
| "truthy _ \<longleftrightarrow> True"

text \<open>\<open>==\<close>: booleans, integers and floats are one number line; a dictionary ignores its order.\<close>

fun number_of :: "pyval \<Rightarrow> rat option" where
  "number_of (PBool b) = Some (if b then 1 else 0)"
| "number_of (PInt n) = Some (of_int n)"
| "number_of (PFloat r) = Some r"
| "number_of _ = None"

fun py_eq :: "pyval \<Rightarrow> pyval \<Rightarrow> bool"
  and py_eq_list :: "pyval list \<Rightarrow> pyval list \<Rightarrow> bool"
  and py_eq_items :: "(pyval \<times> pyval) list \<Rightarrow> (pyval \<times> pyval) list \<Rightarrow> bool" where
  "py_eq (PList xs) v = (case v of PList ys \<Rightarrow> py_eq_list xs ys | _ \<Rightarrow> False)"
| "py_eq (PTuple xs) v = (case v of PTuple ys \<Rightarrow> py_eq_list xs ys | _ \<Rightarrow> False)"
| "py_eq (PDict a) v = (case v of PDict b \<Rightarrow> length a = length b \<and> py_eq_items a b | _ \<Rightarrow> False)"
| "py_eq PNan v = False"
| "py_eq u v = (case (number_of u, number_of v) of (Some m, Some n) \<Rightarrow> m = n | (None, None) \<Rightarrow> u = v | _ \<Rightarrow> False)"
| "py_eq_list [] ys = (ys = [])"
| "py_eq_list (x # xs) ys = (case ys of [] \<Rightarrow> False | y # ys' \<Rightarrow> py_eq x y \<and> py_eq_list xs ys')"
| "py_eq_items [] b = True"
| "py_eq_items ((k, v) # a) b = (case map_of b k of None \<Rightarrow> False | Some w \<Rightarrow> py_eq v w \<and> py_eq_items a b)"

subsection \<open>Cases and suites\<close>

record eval_case =
  ec_id :: pystr
  ec_inputs :: "(pystr \<times> pyval) list"
  ec_expectations :: "(pystr \<times> pyval) list"
  ec_tags :: "pystr list"

definition EvalCase :: "eval_case \<Rightarrow> eval_case result" where
  "EvalCase c = (if ec_id c = [] then Inl (too_short ''id'') else Inr c)"

record eval_suite =
  es_name :: pystr
  es_cases :: "eval_case list"

text \<open>The comprehension of \<open>model_post_init\<close>: the ids met a second time, sorted.\<close>

fun repeated :: "pystr list \<Rightarrow> pystr list \<Rightarrow> pystr list" where
  "repeated seen [] = []"
| "repeated seen (i # ids) = (if i \<in> set seen then i # repeated seen ids else repeated (i # seen) ids)"

definition EvalSuite :: "pystr \<Rightarrow> eval_case list \<Rightarrow> eval_suite result" where
  "EvalSuite name cases =
     (let duplicates = sort (remdups (repeated [] (map ec_id cases))) in
      if name = [] then Inl (too_short ''name'')
      else if duplicates \<noteq> [] then
        raise_app EvaluationDefinitionError (Some (str ''Case ids must be unique within a suite.''))
          (Some [(str ''suite'', PStr name), (str ''duplicates'', PList (map PStr duplicates))])
      else if cases = [] then
        raise_app EvaluationDefinitionError (Some (str ''A suite must contain at least one case.''))
          (Some [(str ''suite'', PStr name)])
      else Inr \<lparr>es_name = name, es_cases = cases\<rparr>)"

definition tagged :: "pystr \<Rightarrow> eval_suite \<Rightarrow> eval_case list" where
  "tagged tag suite = filter (\<lambda>c. tag \<in> set (ec_tags c)) (es_cases suite)"

fun build_cases :: "eval_case list \<Rightarrow> eval_case list result" where
  "build_cases [] = Inr []"
| "build_cases (c # cs) =
     (case EvalCase c of Inl e \<Rightarrow> Inl e
      | Inr c' \<Rightarrow> (case build_cases cs of Inl e \<Rightarrow> Inl e | Inr cs' \<Rightarrow> Inr (c' # cs')))"

definition build_suite :: "pystr \<Rightarrow> eval_case list \<Rightarrow> eval_suite result" where
  "build_suite name cases =
     (case build_cases cases of Inl e \<Rightarrow> Inl e | Inr cs \<Rightarrow> EvalSuite name cs)"

subsection \<open>Results\<close>

datatype check_outcome = PASSED | FAILED_CHECK | ERRORED

record check_result =
  cr_check :: pystr
  cr_outcome :: check_outcome
  cr_detail :: "pystr option"

definition check_ok :: "check_result \<Rightarrow> bool" where
  "check_ok r \<longleftrightarrow> cr_outcome r = PASSED"

record case_result =
  cs_id :: pystr
  cs_checks :: "check_result list"
  cs_error :: "pystr option"
  cs_duration :: rat

definition case_passed :: "case_result \<Rightarrow> bool" where
  "case_passed r \<longleftrightarrow> cs_error r = None \<and> cs_checks r \<noteq> [] \<and> list_all check_ok (cs_checks r)"

definition case_failures :: "case_result \<Rightarrow> check_result list" where
  "case_failures r = filter (\<lambda>c. \<not> check_ok c) (cs_checks r)"

record eval_report =
  ep_suite :: pystr
  ep_results :: "case_result list"

definition report_total :: "eval_report \<Rightarrow> nat" where
  "report_total r = length (ep_results r)"

definition report_passed :: "eval_report \<Rightarrow> nat" where
  "report_passed r = sum_list (map (\<lambda>c. if case_passed c then 1 else 0) (ep_results r))"

definition report_failed :: "eval_report \<Rightarrow> int" where
  "report_failed r = int (report_total r) - int (report_passed r)"

definition pass_rate :: "eval_report \<Rightarrow> rat" where
  "pass_rate r = (if report_total r = 0 then 1 else of_nat (report_passed r) / of_nat (report_total r))"

definition failing :: "eval_report \<Rightarrow> case_result list" where
  "failing r = filter (\<lambda>c. \<not> case_passed c) (ep_results r)"

definition report_summary :: "(rat \<Rightarrow> pystr) \<Rightarrow> eval_report \<Rightarrow> pystr" where
  "report_summary two_places r =
     str ''suite='' @ ep_suite r @ str '' total='' @ show_nat (report_total r) @
     str '' passed='' @ show_nat (report_passed r) @ str '' failed='' @ show_int (report_failed r) @
     str '' pass_rate='' @ two_places (pass_rate r)"

text \<open>8212 is the dash between a check and its detail; an empty detail is left out.\<close>

definition describe_check :: "pystr \<Rightarrow> check_result \<Rightarrow> pystr" where
  "describe_check i c = i @ str '': '' @ cr_check c @
     (case cr_detail c of None \<Rightarrow> [] | Some [] \<Rightarrow> [] | Some d \<Rightarrow> [32, 8212, 32] @ d)"

definition describe_failures :: "eval_report \<Rightarrow> pystr list" where
  "describe_failures r = concat (map (\<lambda>c.
     case cs_error c of
       Some e \<Rightarrow> [cs_id c @ str '': '' @ e]
     | None \<Rightarrow> map (describe_check (cs_id c)) (case_failures c)) (failing r))"

subsection \<open>Checks\<close>

text \<open>An output is a mapping or an object; either is read by name.\<close>

datatype eval_output = Mapping_Output "(pystr \<times> pyval) list" | Object_Output "(pystr \<times> pyval) list"

fun read_field :: "eval_output \<Rightarrow> pystr \<Rightarrow> pyval" where
  "read_field (Mapping_Output kvs) field = (case map_of kvs field of None \<Rightarrow> PNone | Some v \<Rightarrow> v)"
| "read_field (Object_Output attrs) field = (case map_of attrs field of None \<Rightarrow> PNone | Some v \<Rightarrow> v)"

record check =
  ck_name :: pystr
  ck_evaluate :: "eval_case \<Rightarrow> eval_output \<Rightarrow> check_result result"

definition passed_check :: "pystr \<Rightarrow> check_result result" where
  "passed_check name = Inr \<lparr>cr_check = name, cr_outcome = PASSED, cr_detail = None\<rparr>"

definition failed_check :: "pystr \<Rightarrow> pystr \<Rightarrow> check_result result" where
  "failed_check name detail = Inr \<lparr>cr_check = name, cr_outcome = FAILED_CHECK, cr_detail = Some detail\<rparr>"

definition FieldEquals :: "(pyval \<Rightarrow> pystr) \<Rightarrow> pystr \<Rightarrow> pystr option \<Rightarrow> check result" where
  "FieldEquals repr field expectation =
     (let key = (case expectation of None \<Rightarrow> field | Some [] \<Rightarrow> field | Some e \<Rightarrow> e);
          name = str ''field_equals:'' @ field in
      if field = [] then raise_app EvaluationDefinitionError (Some (str ''A field name is required.'')) None
      else Inr \<lparr>ck_name = name, ck_evaluate = (\<lambda>c output.
        case map_of (ec_expectations c) key of
          None \<Rightarrow> failed_check name (str ''case declares no '' @ repr_str key)
        | Some expected \<Rightarrow>
            let actual = read_field output field in
            if py_eq actual expected then passed_check name
            else failed_check name (str ''expected '' @ repr expected @ str '', got '' @ repr actual))\<rparr>)"

definition FieldIn :: "(pyval \<Rightarrow> pystr) \<Rightarrow> pystr \<Rightarrow> pyval list \<Rightarrow> check result" where
  "FieldIn repr field allowed =
     (let name = str ''field_in:'' @ field in
      if allowed = [] then raise_app EvaluationDefinitionError (Some (str ''An allowed set may not be empty.'')) None
      else Inr \<lparr>ck_name = name, ck_evaluate = (\<lambda>c output.
        let actual = read_field output field in
        if list_ex (py_eq actual) allowed then passed_check name
        else failed_check name (repr actual @ str '' not in '' @ repr (PList allowed)))\<rparr>)"

text \<open>Iterating over the expectation and calling \<open>lower\<close> on each term, which only a text has.\<close>

fun terms_of :: "pyval \<Rightarrow> pyval list result" where
  "terms_of (PList xs) = Inr xs"
| "terms_of (PTuple xs) = Inr xs"
| "terms_of (PStr s) = Inr (map (\<lambda>c. PStr [c]) s)"
| "terms_of (PDict kvs) = Inr (map fst kvs)"
| "terms_of _ = Inl (TypeError (str ''object is not iterable''))"

fun texts_of :: "pyval list \<Rightarrow> pystr list result" where
  "texts_of [] = Inr []"
| "texts_of (v # vs) =
     (case v of
        PStr s \<Rightarrow> (case texts_of vs of Inl e \<Rightarrow> Inl e | Inr ss \<Rightarrow> Inr (s # ss))
      | _ \<Rightarrow> Inl (OtherError (str ''AttributeError'')))"

definition expected_texts :: "string \<Rightarrow> eval_case \<Rightarrow> pystr list result" where
  "expected_texts key c =
     (case terms_of (case map_of (ec_expectations c) (str key) of None \<Rightarrow> PTuple [] | Some v \<Rightarrow> v) of
        Inl e \<Rightarrow> Inl e
      | Inr vs \<Rightarrow> texts_of vs)"

definition text_of :: "(pyval \<Rightarrow> pystr) \<Rightarrow> pyval \<Rightarrow> pystr" where
  "text_of to_str v = (if \<not> truthy v then [] else case v of PStr s \<Rightarrow> s | _ \<Rightarrow> to_str v)"

definition TextContainsAll :: "(pyval \<Rightarrow> pystr) \<Rightarrow> (pyval \<Rightarrow> pystr) \<Rightarrow> pystr \<Rightarrow> check" where
  "TextContainsAll repr to_str field =
     (let name = str ''contains_all:'' @ field in
      \<lparr>ck_name = name, ck_evaluate = (\<lambda>c output.
        let text = lower (text_of to_str (read_field output field)) in
        case expected_texts ''contains'' c of
          Inl e \<Rightarrow> Inl e
        | Inr required \<Rightarrow>
            let missing = filter (\<lambda>term. \<not> contains (lower term) text) required in
            if missing = [] then passed_check name
            else failed_check name (str ''missing '' @ repr (PList (map PStr missing))))\<rparr>)"

definition TextContainsNone :: "(pyval \<Rightarrow> pystr) \<Rightarrow> (pyval \<Rightarrow> pystr) \<Rightarrow> pystr \<Rightarrow> check" where
  "TextContainsNone repr to_str field =
     (let name = str ''contains_none:'' @ field in
      \<lparr>ck_name = name, ck_evaluate = (\<lambda>c output.
        let text = lower (text_of to_str (read_field output field)) in
        case expected_texts ''forbidden'' c of
          Inl e \<Rightarrow> Inl e
        | Inr forbidden \<Rightarrow>
            let present = filter (\<lambda>term. contains (lower term) text) forbidden in
            if present = [] then passed_check name
            else failed_check name (str ''contained '' @ repr (PList (map PStr present))))\<rparr>)"

text \<open>\<open>hasattr(value, "__len__") and len(value) == 0\<close>\<close>

fun has_no_items :: "pyval \<Rightarrow> bool" where
  "has_no_items (PStr s) \<longleftrightarrow> s = []"
| "has_no_items (PList xs) \<longleftrightarrow> xs = []"
| "has_no_items (PTuple xs) \<longleftrightarrow> xs = []"
| "has_no_items (PDict kvs) \<longleftrightarrow> kvs = []"
| "has_no_items _ \<longleftrightarrow> False"

definition FieldIsNotEmpty :: "pystr \<Rightarrow> check" where
  "FieldIsNotEmpty field =
     (let name = str ''not_empty:'' @ field in
      \<lparr>ck_name = name, ck_evaluate = (\<lambda>c output.
        let v = read_field output field in
        if v = PNone \<or> has_no_items v then failed_check name (str ''field was empty'') else passed_check name)\<rparr>)"

subsection \<open>The harness\<close>

definition DEFAULT_CASE_TIMEOUT_SECONDS :: rat where
  "DEFAULT_CASE_TIMEOUT_SECONDS = 30"

definition TARGET_FAILED :: pystr where
  "TARGET_FAILED = str ''The target failed to produce an output.''"

definition CHECK_ERRORED :: pystr where
  "CHECK_ERRORED = str ''The check itself raised.''"

text \<open>A target that does not finish in time raises \<open>TimeoutError\<close>.\<close>

record 'w eval_target =
  et_name :: pystr
  et_run :: "(pystr \<times> pyval) list \<Rightarrow> 'w \<Rightarrow> eval_output result \<times> 'w"

record 'w evaluation_runner =
  ew_target :: "'w eval_target"
  ew_checks :: "check list"
  ew_timeout :: rat
  ew_clock :: "'w \<Rightarrow> rat"
  ew_general :: "rat \<Rightarrow> pystr"

definition EvaluationRunner ::
  "'w eval_target \<Rightarrow> check list \<Rightarrow> rat \<Rightarrow> ('w \<Rightarrow> rat) \<Rightarrow> (rat \<Rightarrow> pystr) \<Rightarrow> 'w evaluation_runner result" where
  "EvaluationRunner target checks timeout clock general =
     (if checks = [] then
        raise_app EvaluationDefinitionError (Some (str ''At least one check is required.''))
          (Some [(str ''target'', PStr (et_name target))])
      else Inr \<lparr>ew_target = target, ew_checks = checks, ew_timeout = timeout, ew_clock = clock, ew_general = general\<rparr>)"

definition run_check :: "check \<Rightarrow> eval_case \<Rightarrow> eval_output \<Rightarrow> check_result" where
  "run_check k c output =
     (case ck_evaluate k c output of
        Inl _ \<Rightarrow> \<lparr>cr_check = ck_name k, cr_outcome = ERRORED, cr_detail = Some CHECK_ERRORED\<rparr>
      | Inr r \<Rightarrow> r)"

definition errored_case :: "eval_case \<Rightarrow> pystr \<Rightarrow> rat \<Rightarrow> case_result" where
  "errored_case c error duration = \<lparr>cs_id = ec_id c, cs_checks = [], cs_error = Some error, cs_duration = duration\<rparr>"

definition run_case :: "'w evaluation_runner \<Rightarrow> eval_case \<Rightarrow> 'w \<Rightarrow> case_result \<times> 'w" where
  "run_case ew c w =
     (case et_run (ew_target ew) (ec_inputs c) w of
        (out, w1) \<Rightarrow>
          let elapsed = (ew_clock ew w1 - ew_clock ew w) * 1000 in
          ((case out of
              Inl TimeoutError \<Rightarrow> errored_case c
                (str ''The target did not finish within '' @ ew_general ew (ew_timeout ew) @ str ''s.'') elapsed
            | Inl _ \<Rightarrow> errored_case c TARGET_FAILED elapsed
            | Inr output \<Rightarrow>
                \<lparr>cs_id = ec_id c, cs_checks = map (\<lambda>k. run_check k c output) (ew_checks ew),
                 cs_error = None, cs_duration = elapsed\<rparr>), w1))"

fun run_cases :: "'w evaluation_runner \<Rightarrow> eval_case list \<Rightarrow> 'w \<Rightarrow> case_result list \<times> 'w" where
  "run_cases ew [] w = ([], w)"
| "run_cases ew (c # cs) w =
     (let (r, w1) = run_case ew c w; (rs, w2) = run_cases ew cs w1 in (r # rs, w2))"

definition run_suite :: "'w evaluation_runner \<Rightarrow> eval_suite \<Rightarrow> 'w \<Rightarrow> eval_report \<times> 'w" where
  "run_suite ew suite w =
     (case run_cases ew (es_cases suite) w of (rs, w1) \<Rightarrow> (\<lparr>ep_suite = es_name suite, ep_results = rs\<rparr>, w1))"

subsection \<open>Comparing runs\<close>

record regression_summary =
  rg_baseline :: eval_report
  rg_current :: eval_report
  rg_regressed :: "pystr list"
  rg_fixed :: "pystr list"
  rg_added :: "pystr list"
  rg_removed :: "pystr list"

definition ids_of :: "case_result list \<Rightarrow> pystr list" where
  "ids_of rs = map cs_id rs"

text \<open>\<open>tuple(sorted(a - b))\<close> of two sets of ids\<close>

definition ids_minus :: "pystr list \<Rightarrow> pystr list \<Rightarrow> pystr list" where
  "ids_minus a b = sort (remdups (filter (\<lambda>i. i \<notin> set b) a))"

definition RegressionSummary :: "eval_report \<Rightarrow> eval_report \<Rightarrow> regression_summary" where
  "RegressionSummary baseline current =
     (let base_pass = ids_of (filter case_passed (ep_results baseline));
          now_pass = ids_of (filter case_passed (ep_results current));
          base_ids = ids_of (ep_results baseline);
          now_ids = ids_of (ep_results current)
      in \<lparr>rg_baseline = baseline, rg_current = current, rg_regressed = ids_minus base_pass now_pass,
          rg_fixed = ids_minus now_pass base_pass, rg_added = ids_minus now_ids base_ids,
          rg_removed = ids_minus base_ids now_ids\<rparr>)"

definition regression_clean :: "regression_summary \<Rightarrow> bool" where
  "regression_clean s \<longleftrightarrow> rg_regressed s = [] \<and> rg_removed s = []"

definition regression_line :: "regression_summary \<Rightarrow> pystr" where
  "regression_line s =
     str ''suite='' @ ep_suite (rg_current s) @ str '' regressed='' @ show_nat (length (rg_regressed s)) @
     str '' fixed='' @ show_nat (length (rg_fixed s)) @ str '' added='' @ show_nat (length (rg_added s)) @
     str '' removed='' @ show_nat (length (rg_removed s))"

definition compare_reports :: "eval_report \<Rightarrow> eval_report \<Rightarrow> regression_summary result" where
  "compare_reports baseline current =
     (if ep_suite baseline \<noteq> ep_suite current then
        raise_app EvaluationDefinitionError (Some (str ''Reports from different suites are not comparable.''))
          (Some [(str ''baseline'', PStr (ep_suite baseline)), (str ''current'', PStr (ep_suite current))])
      else Inr (RegressionSummary baseline current))"

subsection \<open>Reports\<close>

text \<open>
  What one result says of its case: the target was run on the case's inputs; when that failed the
  result carries the error and no check; otherwise every check was applied, in order, to the output.
\<close>

definition judged :: "'w eval_target \<Rightarrow> check list \<Rightarrow> eval_case \<Rightarrow> 'w \<Rightarrow> case_result \<Rightarrow> bool" where
  "judged target checks c w res \<longleftrightarrow> cs_id res = ec_id c \<and>
     (case fst (et_run target (ec_inputs c) w) of
        Inl e \<Rightarrow> cs_checks res = [] \<and> cs_error res \<noteq> None \<and> (e \<noteq> TimeoutError \<longrightarrow> cs_error res = Some TARGET_FAILED)
      | Inr output \<Rightarrow> cs_error res = None \<and>
          list_all2 (\<lambda>k v. case ck_evaluate k c output of Inl _ \<Rightarrow> cr_outcome v = ERRORED | Inr v' \<Rightarrow> v = v') checks (cs_checks res))"

definition passes :: "'w eval_target \<Rightarrow> check list \<Rightarrow> eval_case \<Rightarrow> 'w \<Rightarrow> bool" where
  "passes target checks c w \<longleftrightarrow>
     (\<exists>output. fst (et_run target (ec_inputs c) w) = Inr output \<and>
        (\<forall>k \<in> set checks. \<exists>v. ck_evaluate k c output = Inr v \<and> check_ok v))"

lemma run_case_judged: "judged (ew_target ew) (ew_checks ew) c w (fst (run_case ew c w))"
proof -
  obtain out w1 where out: "et_run (ew_target ew) (ec_inputs c) w = (out, w1)" by force
  show ?thesis
  proof (cases out)
    case (Inl e)
    with out show ?thesis by (cases e) (simp_all add: judged_def run_case_def errored_case_def Let_def)
  next
    case (Inr got)
    with out show ?thesis
      by (simp add: judged_def run_case_def Let_def list_all2_map2 run_check_def list_all2_same split: sum.split)
  qed
qed

lemma run_case_passed:
  assumes "ew_checks ew \<noteq> []"
  shows "case_passed (fst (run_case ew c w)) \<longleftrightarrow> passes (ew_target ew) (ew_checks ew) c w"
proof -
  obtain out w1 where out: "et_run (ew_target ew) (ec_inputs c) w = (out, w1)" by force
  have check: "check_ok (run_check k c got) \<longleftrightarrow> (\<exists>v. ck_evaluate k c got = Inr v \<and> check_ok v)" for k got
    by (simp add: run_check_def check_ok_def split: sum.split)
  show ?thesis
  proof (cases out)
    case (Inl e)
    with out show ?thesis by (cases e) (simp_all add: passes_def run_case_def errored_case_def Let_def case_passed_def)
  next
    case (Inr got)
    with out assms show ?thesis
      by (simp add: passes_def run_case_def Let_def case_passed_def list_all_iff check)
  qed
qed

lemma run_cases_judged:
  assumes "run_cases ew cs w = (rs, w')" "ew_checks ew \<noteq> []"
  shows "list_all2 (\<lambda>c res. \<exists>w1. judged (ew_target ew) (ew_checks ew) c w1 res \<and>
    (case_passed res \<longleftrightarrow> passes (ew_target ew) (ew_checks ew) c w1)) cs rs"
  using assms(1)
proof (induction cs arbitrary: w rs w')
  case (Cons c cs)
  obtain r w1 where r: "run_case ew c w = (r, w1)" by force
  obtain rest w2 where rest: "run_cases ew cs w1 = (rest, w2)" by force
  from Cons.prems r rest have "rs = r # rest" by (simp add: Let_def)
  moreover have "judged (ew_target ew) (ew_checks ew) c w r \<and> (case_passed r \<longleftrightarrow> passes (ew_target ew) (ew_checks ew) c w)"
    using run_case_judged [of ew c w] run_case_passed [OF assms(2), of c w] r by simp
  ultimately show ?case using Cons.IH [OF rest] by auto
qed simp

text \<open>
  A run is always a report on every case. Whatever the target and the checks do, running a suite
  yields one result per case, in order and under the case's id; a target that failed, a check that
  raised and a check that said no stay three different outcomes; and a case counts as passed exactly
  when its target produced an output and every check accepted it.
\<close>

theorem evaluation_reports_every_case:
  assumes "EvaluationRunner target checks timeout clock general = Inr ew" "run_suite ew suite w = (r, w')"
  shows "ep_suite r = es_name suite \<and> report_total r = length (es_cases suite) \<and>
    list_all2 (\<lambda>c res. \<exists>w1. judged target checks c w1 res \<and> (case_passed res \<longleftrightarrow> passes target checks c w1))
      (es_cases suite) (ep_results r)"
proof -
  from assms(1) have ew: "ew_target ew = target" "ew_checks ew = checks" "ew_checks ew \<noteq> []"
    by (auto simp: EvaluationRunner_def raise_app_def split: if_splits)
  from assms(2) obtain rs where rs: "run_cases ew (es_cases suite) w = (rs, w')"
    "r = \<lparr>ep_suite = es_name suite, ep_results = rs\<rparr>"
    by (auto simp: run_suite_def split: prod.splits)
  from run_cases_judged [OF rs(1) ew(3)] ew show ?thesis
    by (simp add: rs(2) report_total_def list_all2_lengthD)
qed

definition broken_target :: "nat eval_target" where
  "broken_target = \<lparr>et_name = str ''t'', et_run = (\<lambda>_ w. (Inl (OtherError (str ''KeyError'')), w + 1))\<rparr>"

definition named_case :: "string \<Rightarrow> eval_case" where
  "named_case i = \<lparr>ec_id = str i, ec_inputs = [], ec_expectations = [], ec_tags = []\<rparr>"

lemma evaluation_reports_every_case_witness:
  "\<exists>ew r w'. EvaluationRunner broken_target [FieldIsNotEmpty (str ''x'')] 30 of_nat (\<lambda>_. []) = Inr ew \<and>
     run_suite ew \<lparr>es_name = str ''s'', es_cases = [named_case ''a'', named_case ''b'']\<rparr> 0 = (r, w') \<and> report_total r = 2"
proof -
  obtain ew where ew: "EvaluationRunner broken_target [FieldIsNotEmpty (str ''x'')] 30 of_nat (\<lambda>_. []) = Inr ew"
    by (simp add: EvaluationRunner_def)
  obtain r w' where r: "run_suite ew \<lparr>es_name = str ''s'', es_cases = [named_case ''a'', named_case ''b'']\<rparr> 0 = (r, w')" by force
  from evaluation_reports_every_case [OF ew r] ew r show ?thesis by auto
qed

subsection \<open>Comparing two runs\<close>

lemma set_ids_minus [simp]: "set (ids_minus a b) = set a - set b"
  by (auto simp: ids_minus_def)

lemma ids_minus_Nil: "ids_minus a b = [] \<longleftrightarrow> set a \<subseteq> set b"
  by (metis Diff_eq_empty_iff set_empty set_ids_minus)

text \<open>
  A comparison is clean exactly when nothing was lost: every case of the baseline is in the current
  run, and every case that passed then passes now. Two runs of different suites are refused.
\<close>

theorem comparison_is_clean_iff_nothing_lost:
  "(case compare_reports baseline current of
      Inl e \<Rightarrow> ep_suite baseline \<noteq> ep_suite current
    | Inr s \<Rightarrow> ep_suite baseline = ep_suite current \<and>
        (regression_clean s \<longleftrightarrow>
           (\<forall>b \<in> set (ep_results baseline). \<exists>n \<in> set (ep_results current).
              cs_id n = cs_id b \<and> (case_passed b \<longrightarrow> case_passed n))))"
proof (cases "ep_suite baseline = ep_suite current")
  case True
  let ?clean = "regression_clean (RegressionSummary baseline current)"
  have "?clean \<longleftrightarrow>
      cs_id ` {b \<in> set (ep_results baseline). case_passed b} \<subseteq> cs_id ` {n \<in> set (ep_results current). case_passed n} \<and>
      cs_id ` set (ep_results baseline) \<subseteq> cs_id ` set (ep_results current)"
    by (simp add: regression_clean_def RegressionSummary_def Let_def ids_minus_Nil ids_of_def)
  also have "\<dots> \<longleftrightarrow> (\<forall>b \<in> set (ep_results baseline). \<exists>n \<in> set (ep_results current).
      cs_id n = cs_id b \<and> (case_passed b \<longrightarrow> case_passed n))"
    unfolding image_subset_iff by (auto simp: image_iff) metis+
  finally show ?thesis using True by (simp add: compare_reports_def)
qed (simp add: compare_reports_def raise_app_def)

lemma comparison_is_clean_iff_nothing_lost_witness:
  "\<exists>s. compare_reports \<lparr>ep_suite = [], ep_results = []\<rparr> \<lparr>ep_suite = [], ep_results = []\<rparr> = Inr s \<and> regression_clean s"
  using comparison_is_clean_iff_nothing_lost [of "\<lparr>ep_suite = [], ep_results = []\<rparr>" "\<lparr>ep_suite = [], ep_results = []\<rparr>"]
  by (auto split: sum.splits simp: compare_reports_def)

end
