(* ===== verification/Suites.thy ===== *)
theory Suites
  imports Evaluation Escalation
begin

text \<open>
  \<open>evaluation/suites.py\<close>: the suites that ship, over the policy rules and the escalation criteria,
  with the targets and checks they are run with. That every case of them passes is proved here by
  running them.
\<close>

subsection \<open>The shipped suites\<close>

text \<open>
  Reading a case's inputs. \<open>float\<close> of a text is an argument; what has no float value raises.
\<close>

definition input :: "(pystr \<times> pyval) list \<Rightarrow> string \<Rightarrow> pyval \<Rightarrow> pyval" where
  "input inputs key fallback = (case map_of inputs (str key) of None \<Rightarrow> fallback | Some v \<Rightarrow> v)"

definition text_input :: "string \<Rightarrow> pyval \<Rightarrow> pystr result" where
  "text_input key v =
     (case v of PStr s \<Rightarrow> Inr s | _ \<Rightarrow> Inl (ValidationError [([str key], str ''Input should be a valid string'')]))"

definition required_text :: "(pystr \<times> pyval) list \<Rightarrow> string \<Rightarrow> pystr result" where
  "required_text inputs key =
     (case map_of inputs (str key) of None \<Rightarrow> Inl (OtherError (str ''KeyError'')) | Some v \<Rightarrow> text_input key v)"

definition read_intent :: "pyval \<Rightarrow> intent_category result" where
  "read_intent v =
     (case List.find (\<lambda>i. v = PStr (intent_value i)) all_intents of
        None \<Rightarrow> Inl (ValueError (str ''is not a valid IntentCategory''))
      | Some i \<Rightarrow> Inr i)"

definition not_finite :: exn where
  "not_finite = ValidationError [([str ''confidence''], str ''Input should be less than or equal to 1'')]"

fun to_float :: "(pystr \<Rightarrow> rat option) \<Rightarrow> pyval \<Rightarrow> rat result" where
  "to_float parse_float (PStr s) =
     (case parse_float s of None \<Rightarrow> Inl (ValueError (str ''could not convert string to float'')) | Some q \<Rightarrow> Inr q)"
| "to_float parse_float PNan = Inl not_finite"
| "to_float parse_float (PInf _) = Inl not_finite"
| "to_float parse_float v =
     (case number_of v of None \<Rightarrow> Inl (TypeError (str ''must be a string or a real number'')) | Some q \<Rightarrow> Inr q)"

definition case_analysis :: "(pystr \<Rightarrow> rat option) \<Rightarrow> (pystr \<times> pyval) list \<Rightarrow> intent_analysis result" where
  "case_analysis parse_float inputs =
     (case read_intent (input inputs ''intent'' (PStr (str ''other''))) of
        Inl e \<Rightarrow> Inl e
      | Inr i \<Rightarrow>
          (case to_float parse_float (input inputs ''confidence'' (PFloat (9 / 10))) of
             Inl e \<Rightarrow> Inl e
           | Inr q \<Rightarrow>
               (case text_input ''reason'' (input inputs ''reason'' (PStr (str ''case fixture''))) of
                  Inl e \<Rightarrow> Inl e
                | Inr reason \<Rightarrow> IntentAnalysis i q reason)))"

definition policy_target :: "(nat \<Rightarrow> bool) \<Rightarrow> (pystr \<Rightarrow> rat option) \<Rightarrow> 'w eval_target" where
  "policy_target wide parse_float =
     \<lparr>et_name = str ''policy'', et_run = (\<lambda>inputs w.
       (case required_text inputs ''message'' of
          Inl e \<Rightarrow> Inl e
        | Inr message \<Rightarrow>
            (case case_analysis parse_float inputs of
               Inl e \<Rightarrow> Inl e
             | Inr analysis \<Rightarrow>
                 (case required_text inputs ''proposed_reply'' of
                    Inl e \<Rightarrow> Inl e
                  | Inr proposed \<Rightarrow>
                      (case enforce (default_rules wide) message analysis proposed (truthy (input inputs ''handled'' (PBool True))) of
                         Inl e \<Rightarrow> Inl e
                       | Inr r \<Rightarrow>
                           Inr (Mapping_Output
                             [(str ''reply'', PStr (er_reply r)), (str ''modified'', PBool (er_modified r)),
                              (str ''rule'', PStr (er_rule r)), (str ''handled'', PBool (er_handled r))])))), w))\<rparr>"

text \<open>The default of \<open>EscalationCriteria\<close>.\<close>

definition ESCALATION_MIN_CONFIDENCE :: rat where
  "ESCALATION_MIN_CONFIDENCE = 1 / 2"

definition escalation_target :: "(pystr \<Rightarrow> rat option) \<Rightarrow> 'w eval_target" where
  "escalation_target parse_float =
     \<lparr>et_name = str ''escalation'', et_run = (\<lambda>inputs w.
       (case required_text inputs ''message'' of
          Inl e \<Rightarrow> Inl e
        | Inr message \<Rightarrow>
            (case case_analysis parse_float inputs of
               Inl e \<Rightarrow> Inl e
             | Inr analysis \<Rightarrow>
                 (case (case input inputs ''policy_rule'' PNone of PNone \<Rightarrow> Inr None
                        | v \<Rightarrow> (case text_input ''policy_rule'' v of Inl e \<Rightarrow> Inl e | Inr r \<Rightarrow> Inr (Some r))) of
                    Inl e \<Rightarrow> Inl e
                  | Inr policy_rule \<Rightarrow>
                      (case EscalationContext message analysis (truthy (input inputs ''handled'' (PBool True)))
                              (truthy (input inputs ''policy_modified'' (PBool False))) policy_rule of
                         Inl e \<Rightarrow> Inl e
                       | Inr context \<Rightarrow>
                           let verdict = evaluate_criteria ESCALATION_MIN_CONFIDENCE context in
                           Inr (Mapping_Output
                             [(str ''escalate'', PBool (ev_escalate verdict)),
                              (str ''primary'', case primary verdict of None \<Rightarrow> PNone | Some r \<Rightarrow> PStr (reason_value r))])))), w))\<rparr>"

definition text_fields :: "(string \<times> string) list \<Rightarrow> (pystr \<times> pyval) list" where
  "text_fields = map (\<lambda>(k, v). (str k, PStr (str v)))"

definition POLICY_CASES :: "eval_case list" where
  "POLICY_CASES =
     [\<lparr>ec_id = str ''plain_answer_is_allowed'',
       ec_inputs = text_fields [(''message'', ''How do I change my address?''), (''intent'', ''account''),
         (''proposed_reply'', ''You can change it under Settings.'')],
       ec_expectations = [(str ''modified'', PBool False)], ec_tags = [str ''allow'']\<rparr>,
      \<lparr>ec_id = str ''refund_promise_is_stopped'',
       ec_inputs = text_fields [(''message'', ''I want my money back.''), (''intent'', ''billing''),
         (''proposed_reply'', ''I have issued a full refund to your card.'')],
       ec_expectations = [(str ''modified'', PBool True), (str ''forbidden'', PList [PStr (str ''issued a full refund'')])],
       ec_tags = [str ''financial'']\<rparr>,
      \<lparr>ec_id = str ''complaint_reaches_a_human'',
       ec_inputs = text_fields [(''message'', ''This is the third time this has broken.''), (''intent'', ''complaint''),
         (''proposed_reply'', ''Sorry about that.'')],
       ec_expectations = [(str ''modified'', PBool True)], ec_tags = [str ''complaint'']\<rparr>,
      \<lparr>ec_id = str ''unresolved_is_not_claimed_answered'',
       ec_inputs = text_fields [(''message'', ''Why was I charged twice?''), (''intent'', ''billing''),
         (''proposed_reply'', ''All sorted.'')] @ [(str ''handled'', PBool False)],
       ec_expectations = [(str ''modified'', PBool True)], ec_tags = [str ''unresolved'']\<rparr>]"

definition ESCALATION_CASES :: "eval_case list" where
  "ESCALATION_CASES =
     [\<lparr>ec_id = str ''confident_and_handled_stays_automated'',
       ec_inputs = text_fields [(''message'', ''Where do I find my invoices?''), (''intent'', ''billing'')] @
         [(str ''confidence'', PFloat (95 / 100))],
       ec_expectations = [(str ''escalate'', PBool False)], ec_tags = [str ''automated'']\<rparr>,
      \<lparr>ec_id = str ''low_confidence_goes_to_a_human'',
       ec_inputs = text_fields [(''message'', ''it does the thing again''), (''intent'', ''technical_support'')] @
         [(str ''confidence'', PFloat (1 / 10))],
       ec_expectations = [(str ''escalate'', PBool True), (str ''primary'', PStr (str ''low_confidence''))],
       ec_tags = [str ''confidence'']\<rparr>,
      \<lparr>ec_id = str ''unhandled_goes_to_a_human'',
       ec_inputs = text_fields [(''message'', ''Why was I charged twice?''), (''intent'', ''billing'')] @
         [(str ''confidence'', PFloat (95 / 100)), (str ''handled'', PBool False)],
       ec_expectations = [(str ''escalate'', PBool True), (str ''primary'', PStr (str ''unresolved''))],
       ec_tags = [str ''unresolved'']\<rparr>,
      \<lparr>ec_id = str ''complaint_goes_to_a_human'',
       ec_inputs = text_fields [(''message'', ''This is unacceptable.''), (''intent'', ''complaint'')] @
         [(str ''confidence'', PFloat (95 / 100))],
       ec_expectations = [(str ''escalate'', PBool True)], ec_tags = [str ''complaint'']\<rparr>]"

definition POLICY_SUITE :: "eval_suite result" where
  "POLICY_SUITE = build_suite (str ''policy'') POLICY_CASES"

definition ESCALATION_SUITE :: "eval_suite result" where
  "ESCALATION_SUITE = build_suite (str ''escalation'') ESCALATION_CASES"

definition POLICY_CHECKS :: "(pyval \<Rightarrow> pystr) \<Rightarrow> (pyval \<Rightarrow> pystr) \<Rightarrow> check list result" where
  "POLICY_CHECKS repr to_str =
     (case FieldEquals repr (str ''modified'') None of
        Inl e \<Rightarrow> Inl e | Inr k \<Rightarrow> Inr [k, TextContainsNone repr to_str (str ''reply'')])"

definition ESCALATION_CHECKS :: "(pyval \<Rightarrow> pystr) \<Rightarrow> check list result" where
  "ESCALATION_CHECKS repr =
     (case FieldEquals repr (str ''escalate'') None of
        Inl e \<Rightarrow> Inl e
      | Inr k \<Rightarrow> (case FieldIn repr (str ''escalate'') [PBool True, PBool False] of
            Inl e \<Rightarrow> Inl e | Inr k2 \<Rightarrow> Inr [k, k2]))"

record 'w evaluation_plan =
  pl_suite :: eval_suite
  pl_target :: "'w eval_target"
  pl_checks :: "check list"

definition default_plans ::
  "(nat \<Rightarrow> bool) \<Rightarrow> (pystr \<Rightarrow> rat option) \<Rightarrow> (pyval \<Rightarrow> pystr) \<Rightarrow> (pyval \<Rightarrow> pystr) \<Rightarrow> 'w evaluation_plan list result" where
  "default_plans wide parse_float repr to_str =
     (case (POLICY_SUITE, POLICY_CHECKS repr to_str, ESCALATION_SUITE, ESCALATION_CHECKS repr) of
        (Inr ps, Inr pk, Inr es, Inr ek) \<Rightarrow>
          Inr [\<lparr>pl_suite = ps, pl_target = policy_target wide parse_float, pl_checks = pk\<rparr>,
               \<lparr>pl_suite = es, pl_target = escalation_target parse_float, pl_checks = ek\<rparr>]
      | (Inl e, _, _, _) \<Rightarrow> Inl e
      | (_, Inl e, _, _) \<Rightarrow> Inl e
      | (_, _, Inl e, _) \<Rightarrow> Inl e
      | (_, _, _, Inl e) \<Rightarrow> Inl e)"

definition run_plan ::
  "('w \<Rightarrow> rat) \<Rightarrow> (rat \<Rightarrow> pystr) \<Rightarrow> 'w evaluation_plan \<Rightarrow> 'w \<Rightarrow> eval_report result \<times> 'w" where
  "run_plan clock general plan w =
     (case EvaluationRunner (pl_target plan) (pl_checks plan) DEFAULT_CASE_TIMEOUT_SECONDS clock general of
        Inl e \<Rightarrow> (Inl e, w)
      | Inr ew \<Rightarrow> (case run_suite ew (pl_suite plan) w of (r, w1) \<Rightarrow> (Inr r, w1)))"

fun run_all ::
  "('w \<Rightarrow> rat) \<Rightarrow> (rat \<Rightarrow> pystr) \<Rightarrow> 'w evaluation_plan list \<Rightarrow> 'w \<Rightarrow> eval_report list result \<times> 'w" where
  "run_all clock general [] w = (Inr [], w)"
| "run_all clock general (p # ps) w =
     (case run_plan clock general p w of
        (Inl e, w1) \<Rightarrow> (Inl e, w1)
      | (Inr r, w1) \<Rightarrow>
          (case run_all clock general ps w1 of
             (Inl e, w2) \<Rightarrow> (Inl e, w2)
           | (Inr rs, w2) \<Rightarrow> (Inr (r # rs), w2)))"

subsection \<open>The shipped suites pass\<close>

lemma plain_answer_no_commitment: "\<not> commits wide (str ''You can change it under Settings.'')"
proof
  assume "commits wide (str ''You can change it under Settings.'')"
  from commits_contains [OF this] show False by (simp add: str_def re_fold_def)
qed

lemma refund_promise_commits: "commits wide (str ''I have issued a full refund to your card.'')"
proof -
  let ?s = "str ''I have issued a full refund to your card.''"
  let ?p = "seqs [Bound, Lit (str ''full''), Spaces1, Lit (str ''refund''), Bound]"
  have "space_ends ?s 20 = [20, 21]"
    by (simp add: space_ends_def str_def isspace_def upt_rec)
  then have "re_ends wide ?p ?s 16 \<noteq> []"
    by (simp add: str_def re_fold_def at_boundary_def word_char_def isalnum_def isdigit_def islower_ascii_def)
  moreover have "16 \<in> set [0..<Suc (length ?s)]" by simp
  ultimately have "re_search wide ?p ?s" unfolding re_search_def list_ex_iff by blast
  then show ?thesis by (simp add: commits_def COMMITMENT_PATTERNS_def)
qed

lemma read_intent_value [simp]: "read_intent (PStr (intent_value i)) = Inr i"
  by (cases i) (simp_all add: read_intent_def all_intents_def)

lemma case_analysis_Inr:
  assumes "input inputs ''intent'' (PStr (str ''other'')) = PStr (intent_value i)"
    and "input inputs ''confidence'' (PFloat (9 / 10)) = PFloat q" "0 \<le> q" "q \<le> 1"
    and "input inputs ''reason'' (PStr (str ''case fixture'')) = PStr (str ''case fixture'')"
  shows "case_analysis parse_float inputs =
    Inr \<lparr>ia_intent = i, ia_confidence = q, ia_reason = str ''case fixture''\<rparr>"
  using assms by (simp add: case_analysis_def text_input_def IntentAnalysis_def)

lemma review_names_no_refund: "\<not> contains (lower (str ''issued a full refund'')) (lower REVIEW_REPLY)"
  by (simp add: REVIEW_REPLY_def str_def lower_def lower_cp_def)

lemma FieldEquals_passes:
  assumes "FieldEquals repr field None = Inr k" "map_of (ec_expectations c) field = Some v"
    and "py_eq (read_field out field) v"
  shows "ck_evaluate k c out = passed_check (str ''field_equals:'' @ field)"
proof -
  let ?name = "str ''field_equals:'' @ field"
  have "k = \<lparr>ck_name = ?name, ck_evaluate = (\<lambda>c output. case map_of (ec_expectations c) field of
        None \<Rightarrow> failed_check ?name (str ''case declares no '' @ repr_str field)
      | Some expected \<Rightarrow>
          if py_eq (read_field output field) expected then passed_check ?name
          else failed_check ?name (str ''expected '' @ repr expected @ str '', got '' @ repr (read_field output field)))\<rparr>"
    using assms(1) by (simp only: FieldEquals_def Let_def raise_app_def option.case split: if_splits) simp_all
  with assms(2,3) show ?thesis by simp
qed

lemma text_of_text: "text_of to_str (PStr s) = s"
  by (simp add: text_of_def)

lemma policy_target_run:
  assumes "required_text inputs ''message'' = Inr message" "case_analysis parse_float inputs = Inr analysis"
    and "required_text inputs ''proposed_reply'' = Inr proposed"
    and "enforce (default_rules wide) message analysis proposed (truthy (input inputs ''handled'' (PBool True))) = Inr r"
  shows "fst (et_run (policy_target wide parse_float) inputs w) = Inr (Mapping_Output
    [(str ''reply'', PStr (er_reply r)), (str ''modified'', PBool (er_modified r)),
     (str ''rule'', PStr (er_rule r)), (str ''handled'', PBool (er_handled r))])"
  using assms by (simp add: policy_target_def)

lemma TextContainsNone_passes:
  assumes "read_field out field = PStr s" "expected_texts ''forbidden'' c = Inr words"
    and "\<forall>t \<in> set words. \<not> contains (lower t) (lower s)"
  shows "ck_evaluate (TextContainsNone repr to_str field) c out = passed_check (str ''contains_none:'' @ field)"
proof -
  have "filter (\<lambda>t. contains (lower t) (lower s)) words = []" using assms(3) by (simp only: filter_empty_conv)
  then show ?thesis by (simp only: TextContainsNone_def Let_def check.simps assms(1,2) text_of_text sum.case simp_thms if_True)
qed

lemma POLICY_CHECKS_Inr:
  assumes "POLICY_CHECKS repr to_str = Inr checks"
  obtains k where "FieldEquals repr (str ''modified'') None = Inr k" "checks = [k, TextContainsNone repr to_str (str ''reply'')]"
proof (cases "FieldEquals repr (str ''modified'') None")
  case (Inr k)
  with assms that show ?thesis by (simp only: POLICY_CHECKS_def sum.case) blast
next
  case (Inl e)
  with assms have "Inl e = (Inr checks :: check list result)" by (simp only: POLICY_CHECKS_def sum.case)
  then show ?thesis by simp
qed

lemma policy_case_passes:
  assumes "POLICY_CHECKS repr to_str = Inr checks"
    and "required_text (ec_inputs c) ''message'' = Inr message" "case_analysis parse_float (ec_inputs c) = Inr analysis"
    and "required_text (ec_inputs c) ''proposed_reply'' = Inr proposed"
    and "enforce (default_rules wide) message analysis proposed (truthy (input (ec_inputs c) ''handled'' (PBool True))) = Inr r"
    and "map_of (ec_expectations c) (str ''modified'') = Some (PBool (er_modified r))"
    and "expected_texts ''forbidden'' c = Inr words" "\<forall>t \<in> set words. \<not> contains (lower t) (lower (er_reply r))"
  shows "passes (policy_target wide parse_float) checks c w"
proof -
  let ?out = "Mapping_Output
    [(str ''reply'', PStr (er_reply r)), (str ''modified'', PBool (er_modified r)),
     (str ''rule'', PStr (er_rule r)), (str ''handled'', PBool (er_handled r))]"
  obtain k where k: "FieldEquals repr (str ''modified'') None = Inr k" "checks = [k, TextContainsNone repr to_str (str ''reply'')]"
    using assms(1) by (rule POLICY_CHECKS_Inr)
  have modified: "read_field ?out (str ''modified'') = PBool (er_modified r)" by simp
  have reply: "read_field ?out (str ''reply'') = PStr (er_reply r)" by simp
  have "py_eq (read_field ?out (str ''modified'')) (PBool (er_modified r))" unfolding modified by simp
  note first = FieldEquals_passes [OF k(1) assms(6) this]
  note second = TextContainsNone_passes [OF reply assms(7,8), of repr to_str]
  have ok: "check_ok \<lparr>cr_check = n, cr_outcome = PASSED, cr_detail = None\<rparr>" for n by (simp add: check_ok_def)
  have 1: "\<exists>v. ck_evaluate k c ?out = Inr v \<and> check_ok v"
    unfolding first passed_check_def using ok by blast
  have 2: "\<exists>v. ck_evaluate (TextContainsNone repr to_str (str ''reply'')) c ?out = Inr v \<and> check_ok v"
    unfolding second passed_check_def using ok by blast
  have "\<forall>j \<in> set checks. \<exists>v. ck_evaluate j c ?out = Inr v \<and> check_ok v"
    unfolding k(2) list.set using 1 2 by blast
  then show ?thesis
    unfolding passes_def by (intro exI [of _ ?out] conjI policy_target_run [OF assms(2-5)])
qed

lemma policy_case:
  assumes "POLICY_CHECKS repr to_str = Inr checks"
    and "ec_inputs c = text_fields [(''message'', message), (''intent'', intent), (''proposed_reply'', proposed)] @ rest"
    and "str intent = intent_value i" "map_of rest (str ''confidence'') = None" "map_of rest (str ''reason'') = None"
    and "handled = truthy (case map_of rest (str ''handled'') of None \<Rightarrow> PBool True | Some v \<Rightarrow> v)"
    and "enforce (default_rules wide) (str message)
      \<lparr>ia_intent = i, ia_confidence = 9 / 10, ia_reason = str ''case fixture''\<rparr> (str proposed) handled = Inr r"
    and "map_of (ec_expectations c) (str ''modified'') = Some (PBool (er_modified r))"
    and "expected_texts ''forbidden'' c = Inr words" "\<forall>t \<in> set words. \<not> contains (lower t) (lower (er_reply r))"
  shows "passes (policy_target wide parse_float) checks c w"
proof -
  have get: "map_of (ec_inputs c) (str ''message'') = Some (PStr (str message))"
    "map_of (ec_inputs c) (str ''intent'') = Some (PStr (str intent))"
    "map_of (ec_inputs c) (str ''proposed_reply'') = Some (PStr (str proposed))"
    "map_of (ec_inputs c) (str ''handled'') = map_of rest (str ''handled'')"
    "map_of (ec_inputs c) (str ''confidence'') = None" "map_of (ec_inputs c) (str ''reason'') = None"
    using assms(4,5) by (simp_all add: assms(2) text_fields_def)
  show ?thesis
  proof (rule policy_case_passes [OF assms(1) _ case_analysis_Inr _ _ assms(8-10)])
    show "required_text (ec_inputs c) ''message'' = Inr (str message)"
      "required_text (ec_inputs c) ''proposed_reply'' = Inr (str proposed)"
      by (simp_all add: required_text_def get text_input_def)
    show "input (ec_inputs c) ''intent'' (PStr (str ''other'')) = PStr (intent_value i)"
      by (simp add: input_def get assms(3))
    show "input (ec_inputs c) ''confidence'' (PFloat (9 / 10)) = PFloat (9 / 10)"
      "input (ec_inputs c) ''reason'' (PStr (str ''case fixture'')) = PStr (str ''case fixture'')"
      by (simp_all add: input_def get)
    show "enforce (default_rules wide) (str message) \<lparr>ia_intent = i, ia_confidence = 9 / 10, ia_reason = str ''case fixture''\<rparr>
        (str proposed) (truthy (input (ec_inputs c) ''handled'' (PBool True))) = Inr r"
      using assms(7) by (simp only: input_def get assms(6))
  qed simp_all
qed

lemma enforce_review:
  assumes "commits wide proposed \<or> ia_intent a = COMPLAINT \<or> \<not> handled" "proposed \<noteq> REVIEW_REPLY"
  obtains r where "enforce (default_rules wide) m a proposed handled = Inr r" "er_reply r = REVIEW_REPLY" "er_modified r"
  using assms by (auto simp: enforce_default)

lemma enforce_allow:
  assumes "\<not> commits wide proposed" "ia_intent a \<noteq> COMPLAINT" "handled" "proposed \<noteq> []"
  obtains r where "enforce (default_rules wide) m a proposed handled = Inr r" "er_reply r = proposed" "\<not> er_modified r"
  using assms by (auto simp: enforce_default EnforcedReply_def)

lemma short_is_not_review:
  "str ''I have issued a full refund to your card.'' \<noteq> REVIEW_REPLY"
  "str ''Sorry about that.'' \<noteq> REVIEW_REPLY" "str ''All sorted.'' \<noteq> REVIEW_REPLY"
  by (simp_all add: REVIEW_REPLY_def)

lemma policy_suite_passes:
  assumes "POLICY_CHECKS repr to_str = Inr checks"
  shows "\<forall>c \<in> set POLICY_CASES. passes (policy_target wide parse_float) checks c w"
proof -
  note go = policy_case [OF assms]
  let ?a = "\<lambda>i. \<lparr>ia_intent = i, ia_confidence = 9 / 10, ia_reason = str ''case fixture''\<rparr>"
  have 0: "passes (policy_target wide parse_float) checks (POLICY_CASES ! 0) w"
  proof -
    obtain r where r: "enforce (default_rules wide) (str ''How do I change my address?'') (?a ACCOUNT)
        (str ''You can change it under Settings.'') True = Inr r" "\<not> er_modified r"
      by (rule enforce_allow [where proposed = "str ''You can change it under Settings.''" and wide = wide and a = "?a ACCOUNT" and handled = True])
        (simp_all add: plain_answer_no_commitment)
    show ?thesis
      by (rule go [where rest = "[]" and words = "[]", OF _ _ _ _ _ r(1)]) (simp_all add: POLICY_CASES_def expected_texts_def r(2))
  qed
  have 1: "passes (policy_target wide parse_float) checks (POLICY_CASES ! 1) w"
  proof -
    obtain r where r: "enforce (default_rules wide) (str ''I want my money back.'') (?a BILLING)
        (str ''I have issued a full refund to your card.'') True = Inr r" "er_modified r" "er_reply r = REVIEW_REPLY"
      by (rule enforce_review [where proposed = "str ''I have issued a full refund to your card.''" and wide = wide and a = "?a BILLING" and handled = True])
        (simp_all add: refund_promise_commits short_is_not_review)
    show ?thesis
      by (rule go [where rest = "[]" and words = "[str ''issued a full refund'']", OF _ _ _ _ _ r(1)])
        (simp_all add: POLICY_CASES_def expected_texts_def r(2,3) review_names_no_refund)
  qed
  have 2: "passes (policy_target wide parse_float) checks (POLICY_CASES ! 2) w"
  proof -
    obtain r where r: "enforce (default_rules wide) (str ''This is the third time this has broken.'') (?a COMPLAINT)
        (str ''Sorry about that.'') True = Inr r" "er_modified r"
      by (rule enforce_review [where proposed = "str ''Sorry about that.''" and wide = wide and a = "?a COMPLAINT" and handled = True])
        (simp_all add: short_is_not_review)
    show ?thesis
      by (rule go [where rest = "[]" and words = "[]", OF _ _ _ _ _ r(1)]) (simp_all add: POLICY_CASES_def expected_texts_def r(2))
  qed
  have 3: "passes (policy_target wide parse_float) checks (POLICY_CASES ! 3) w"
  proof -
    obtain r where r: "enforce (default_rules wide) (str ''Why was I charged twice?'') (?a BILLING)
        (str ''All sorted.'') False = Inr r" "er_modified r"
      by (rule enforce_review [where proposed = "str ''All sorted.''" and wide = wide and a = "?a BILLING" and handled = False])
        (simp_all add: short_is_not_review)
    show ?thesis
      by (rule go [where rest = "[(str ''handled'', PBool False)]" and words = "[]", OF _ _ _ _ _ r(1)])
        (simp_all add: POLICY_CASES_def expected_texts_def r(2))
  qed
  have "set POLICY_CASES = {POLICY_CASES ! 0, POLICY_CASES ! 1, POLICY_CASES ! 2, POLICY_CASES ! 3}"
    by (simp add: POLICY_CASES_def)
  with 0 1 2 3 show ?thesis by simp
qed

lemma FieldIn_passes:
  assumes "FieldIn repr field allowed = Inr k" "list_ex (py_eq (read_field out field)) allowed"
  shows "ck_evaluate k c out = passed_check (str ''field_in:'' @ field)"
proof -
  let ?name = "str ''field_in:'' @ field"
  have "k = \<lparr>ck_name = ?name, ck_evaluate = (\<lambda>c output.
      if list_ex (py_eq (read_field output field)) allowed then passed_check ?name
      else failed_check ?name (repr (read_field output field) @ str '' not in '' @ repr (PList allowed)))\<rparr>"
    using assms(1) by (simp only: FieldIn_def Let_def raise_app_def split: if_splits) simp_all
  with assms(2) show ?thesis by simp
qed

lemma ESCALATION_CHECKS_Inr:
  assumes "ESCALATION_CHECKS repr = Inr checks"
  obtains k j where "FieldEquals repr (str ''escalate'') None = Inr k"
    "FieldIn repr (str ''escalate'') [PBool True, PBool False] = Inr j" "checks = [k, j]"
proof (cases "FieldEquals repr (str ''escalate'') None")
  case (Inr k)
  note k = Inr
  show ?thesis
  proof (cases "FieldIn repr (str ''escalate'') [PBool True, PBool False]")
    case (Inr j)
    with assms k that show ?thesis by (simp only: ESCALATION_CHECKS_def sum.case) blast
  next
    case (Inl e)
    with assms k have "Inl e = (Inr checks :: check list result)" by (simp only: ESCALATION_CHECKS_def sum.case)
    then show ?thesis by simp
  qed
next
  case (Inl e)
  with assms have "Inl e = (Inr checks :: check list result)" by (simp only: ESCALATION_CHECKS_def sum.case)
  then show ?thesis by simp
qed

lemma escalation_case:
  assumes "ESCALATION_CHECKS repr = Inr checks"
    and "ec_inputs c = text_fields [(''message'', message), (''intent'', intent)] @ (str ''confidence'', PFloat q) # rest"
    and "message \<noteq> []" "str intent = intent_value i" "0 \<le> q" "q \<le> 1"
    and "rest = [] \<and> handled \<or> rest = [(str ''handled'', PBool handled)]"
    and "map_of (ec_expectations c) (str ''escalate'') =
      Some (PBool (\<not> handled \<or> i \<in> {COMPLAINT, OTHER} \<or> q < ESCALATION_MIN_CONFIDENCE))"
  shows "passes (escalation_target parse_float) checks c w"
proof -
  have get: "map_of (ec_inputs c) (str ''message'') = Some (PStr (str message))"
    "map_of (ec_inputs c) (str ''intent'') = Some (PStr (str intent))"
    "map_of (ec_inputs c) (str ''confidence'') = Some (PFloat q)" "map_of (ec_inputs c) (str ''reason'') = None"
    "map_of (ec_inputs c) (str ''policy_rule'') = None" "map_of (ec_inputs c) (str ''policy_modified'') = None"
    "truthy (case map_of (ec_inputs c) (str ''handled'') of None \<Rightarrow> PBool True | Some v \<Rightarrow> v) = handled"
    using assms(7) by (auto simp: assms(2) text_fields_def)
  define a where "a = \<lparr>ia_intent = i, ia_confidence = q, ia_reason = str ''case fixture''\<rparr>"
  have a: "case_analysis parse_float (ec_inputs c) = Inr a"
    unfolding a_def by (rule case_analysis_Inr) (simp_all add: input_def get assms(4-6))
  define v where "v = evaluate_criteria ESCALATION_MIN_CONFIDENCE
    \<lparr>esc_message = str message, esc_analysis = a, esc_handled = handled, esc_policy_modified = False, esc_policy_rule = None\<rparr>"
  let ?primary = "case primary v of None \<Rightarrow> PNone | Some r \<Rightarrow> PStr (reason_value r)"
  let ?out = "Mapping_Output [(str ''escalate'', PBool (ev_escalate v)), (str ''primary'', ?primary)]"
  have v: "ev_escalate v \<longleftrightarrow> \<not> handled \<or> i \<in> {COMPLAINT, OTHER} \<or> q < ESCALATION_MIN_CONFIDENCE"
    by (auto simp: v_def evaluate_criteria_def a_def Let_def)
  have run: "fst (et_run (escalation_target parse_float) (ec_inputs c) w) = Inr ?out"
    using assms(3) by (simp add: escalation_target_def required_text_def text_input_def input_def get a EscalationContext_def v_def Let_def)
  obtain k j where k: "FieldEquals repr (str ''escalate'') None = Inr k"
    and j: "FieldIn repr (str ''escalate'') [PBool True, PBool False] = Inr j" and kj: "checks = [k, j]"
    using assms(1) by (rule ESCALATION_CHECKS_Inr)
  have read: "read_field ?out (str ''escalate'') = PBool (ev_escalate v)" by simp
  have "py_eq (read_field ?out (str ''escalate'')) (PBool (\<not> handled \<or> i \<in> {COMPLAINT, OTHER} \<or> q < ESCALATION_MIN_CONFIDENCE))"
    unfolding read v by simp
  note first = FieldEquals_passes [OF k assms(8) this]
  have "list_ex (py_eq (read_field ?out (str ''escalate''))) [PBool True, PBool False]" unfolding read by simp
  note second = FieldIn_passes [OF j this, of c]
  have ok: "check_ok \<lparr>cr_check = n, cr_outcome = PASSED, cr_detail = None\<rparr>" for n by (simp add: check_ok_def)
  have 1: "\<exists>v. ck_evaluate k c ?out = Inr v \<and> check_ok v" unfolding first passed_check_def using ok by blast
  have 2: "\<exists>v. ck_evaluate j c ?out = Inr v \<and> check_ok v" unfolding second passed_check_def using ok by blast
  have "\<forall>x \<in> set checks. \<exists>v. ck_evaluate x c ?out = Inr v \<and> check_ok v" unfolding kj list.set using 1 2 by blast
  then show ?thesis unfolding passes_def by (intro exI [of _ ?out] conjI run)
qed

lemma escalation_suite_passes:
  assumes "ESCALATION_CHECKS repr = Inr checks"
  shows "\<forall>c \<in> set ESCALATION_CASES. passes (escalation_target parse_float) checks c w"
proof -
  note go = escalation_case [OF assms]
  have "passes (escalation_target parse_float) checks (ESCALATION_CASES ! 0) w"
    by (rule go [where message = "''Where do I find my invoices?''" and intent = "''billing''" and i = BILLING
          and q = "95 / 100" and rest = "[]" and handled = True])
      (simp_all add: ESCALATION_CASES_def ESCALATION_MIN_CONFIDENCE_def)
  moreover have "passes (escalation_target parse_float) checks (ESCALATION_CASES ! 1) w"
    by (rule go [where message = "''it does the thing again''" and intent = "''technical_support''" and i = TECHNICAL_SUPPORT
          and q = "1 / 10" and rest = "[]" and handled = True])
      (simp_all add: ESCALATION_CASES_def ESCALATION_MIN_CONFIDENCE_def)
  moreover have "passes (escalation_target parse_float) checks (ESCALATION_CASES ! 2) w"
    by (rule go [where message = "''Why was I charged twice?''" and intent = "''billing''" and i = BILLING
          and q = "95 / 100" and rest = "[(str ''handled'', PBool False)]" and handled = False])
      (simp_all add: ESCALATION_CASES_def ESCALATION_MIN_CONFIDENCE_def)
  moreover have "passes (escalation_target parse_float) checks (ESCALATION_CASES ! 3) w"
    by (rule go [where message = "''This is unacceptable.''" and intent = "''complaint''" and i = COMPLAINT
          and q = "95 / 100" and rest = "[]" and handled = True])
      (simp_all add: ESCALATION_CASES_def ESCALATION_MIN_CONFIDENCE_def)
  moreover have "set ESCALATION_CASES =
      {ESCALATION_CASES ! 0, ESCALATION_CASES ! 1, ESCALATION_CASES ! 2, ESCALATION_CASES ! 3}"
    by (simp add: ESCALATION_CASES_def)
  ultimately show ?thesis by simp
qed

lemma suites_build:
  "POLICY_SUITE = Inr \<lparr>es_name = str ''policy'', es_cases = POLICY_CASES\<rparr>"
  "ESCALATION_SUITE = Inr \<lparr>es_name = str ''escalation'', es_cases = ESCALATION_CASES\<rparr>"
  by (simp_all add: POLICY_SUITE_def ESCALATION_SUITE_def build_suite_def POLICY_CASES_def ESCALATION_CASES_def
      EvalCase_def EvalSuite_def Let_def)

lemma checks_build:
  "\<exists>k. POLICY_CHECKS repr to_str = Inr [k, TextContainsNone repr to_str (str ''reply'')]"
  "\<exists>k j. ESCALATION_CHECKS repr = Inr [k, j]"
  by (simp_all add: POLICY_CHECKS_def ESCALATION_CHECKS_def FieldEquals_def FieldIn_def Let_def)

text \<open>A suite whose cases all pass, whatever the state of the world, gives a spotless report.\<close>

definition spotless :: "nat \<Rightarrow> eval_report \<Rightarrow> bool" where
  "spotless n r \<longleftrightarrow> report_total r = n \<and> report_passed r = n \<and> report_failed r = 0 \<and> pass_rate r = 1 \<and>
     describe_failures r = []"

lemma spotless_report:
  assumes "list_all case_passed (ep_results r)"
  shows "spotless (length (ep_results r)) r"
proof -
  have passed: "sum_list (map (\<lambda>c. if case_passed c then 1 else 0) rs) = length rs" if "list_all case_passed rs" for rs
    using that by (induction rs) auto
  have "failing r = []" using assms by (simp add: failing_def filter_empty_conv list_all_iff)
  with passed [OF assms] show ?thesis
    by (simp add: spotless_def report_total_def report_passed_def report_failed_def pass_rate_def describe_failures_def)
qed

lemma run_plan_spotless:
  assumes "pl_checks plan \<noteq> []"
    and "\<And>w. \<forall>c \<in> set (es_cases (pl_suite plan)). passes (pl_target plan) (pl_checks plan) c w"
  shows "\<exists>r w'. run_plan clock general plan w = (Inr r, w') \<and> ep_suite r = es_name (pl_suite plan) \<and>
    spotless (length (es_cases (pl_suite plan))) r"
proof -
  define ew where "ew = \<lparr>ew_target = pl_target plan, ew_checks = pl_checks plan, ew_timeout = DEFAULT_CASE_TIMEOUT_SECONDS,
    ew_clock = clock, ew_general = general\<rparr>"
  obtain rs w' where rs: "run_cases ew (es_cases (pl_suite plan)) w = (rs, w')" by force
  from run_cases_judged [OF rs] assms(1) have all: "list_all2 (\<lambda>c res. \<exists>w1. judged (pl_target plan) (pl_checks plan) c w1 res \<and>
      (case_passed res \<longleftrightarrow> passes (pl_target plan) (pl_checks plan) c w1)) (es_cases (pl_suite plan)) rs"
    by (simp add: ew_def)
  have "list_all case_passed rs"
    unfolding list_all_length
  proof (intro allI impI)
    fix n assume n: "n < length rs"
    with all have len: "n < length (es_cases (pl_suite plan))" by (simp add: list_all2_lengthD)
    from list_all2_nthD2 [OF all n] obtain w1 where
      "case_passed (rs ! n) \<longleftrightarrow> passes (pl_target plan) (pl_checks plan) (es_cases (pl_suite plan) ! n) w1" by blast
    with assms(2) nth_mem [OF len] show "case_passed (rs ! n)" by blast
  qed
  then have "spotless (length (es_cases (pl_suite plan))) \<lparr>ep_suite = es_name (pl_suite plan), ep_results = rs\<rparr>"
    using spotless_report [of "\<lparr>ep_suite = es_name (pl_suite plan), ep_results = rs\<rparr>"] list_all2_lengthD [OF all] by simp
  with rs assms(1) show ?thesis
    by (simp add: run_plan_def EvaluationRunner_def run_suite_def ew_def)
qed

text \<open>
  The evaluation that ships passes, and stays passing wherever it runs: for any interpretation of
  characters beyond Latin-1, of number parsing, of \<open>repr\<close> and of the clock, both suites build, both run
  to a report under their names, and all eight cases pass, with nothing to describe as failed.
\<close>

theorem shipped_suites_pass:
  "\<exists>plans reports. default_plans wide parse_float repr to_str = Inr plans \<and>
     fst (run_all clock general plans w) = Inr reports \<and>
     map ep_suite reports = [str ''policy'', str ''escalation''] \<and> list_all (spotless 4) reports"
proof -
  obtain pk where pk: "POLICY_CHECKS repr to_str = Inr pk" "pk \<noteq> []" using checks_build(1) by blast
  obtain ek where ek: "ESCALATION_CHECKS repr = Inr ek" "ek \<noteq> []" using checks_build(2) by blast
  let ?p = "\<lparr>pl_suite = \<lparr>es_name = str ''policy'', es_cases = POLICY_CASES\<rparr>,
    pl_target = policy_target wide parse_float, pl_checks = pk\<rparr>"
  let ?e = "\<lparr>pl_suite = \<lparr>es_name = str ''escalation'', es_cases = ESCALATION_CASES\<rparr>,
    pl_target = escalation_target parse_float, pl_checks = ek\<rparr>"
  have plans: "default_plans wide parse_float repr to_str = Inr [?p, ?e]"
    by (simp add: default_plans_def suites_build pk ek)
  have four: "length POLICY_CASES = 4" "length ESCALATION_CASES = 4"
    by (simp_all add: POLICY_CASES_def ESCALATION_CASES_def)
  have p: "\<exists>r w'. run_plan clock general ?p w = (Inr r, w') \<and> ep_suite r = str ''policy'' \<and> spotless 4 r"
  proof -
    have "pl_checks ?p \<noteq> []" "\<And>w. \<forall>c \<in> set (es_cases (pl_suite ?p)). passes (pl_target ?p) (pl_checks ?p) c w"
      using pk(2) policy_suite_passes [OF pk(1)] by simp_all
    from run_plan_spotless [OF this, of clock general w] four show ?thesis by simp
  qed
  then obtain r1 w1 where r1: "run_plan clock general ?p w = (Inr r1, w1)" "ep_suite r1 = str ''policy''" "spotless 4 r1"
    by blast
  have "\<exists>r w'. run_plan clock general ?e w1 = (Inr r, w') \<and> ep_suite r = str ''escalation'' \<and> spotless 4 r"
  proof -
    have "pl_checks ?e \<noteq> []" "\<And>w. \<forall>c \<in> set (es_cases (pl_suite ?e)). passes (pl_target ?e) (pl_checks ?e) c w"
      using ek(2) escalation_suite_passes [OF ek(1)] by simp_all
    from run_plan_spotless [OF this, of clock general w1] four show ?thesis by simp
  qed
  then obtain r2 w2 where r2: "run_plan clock general ?e w1 = (Inr r2, w2)" "ep_suite r2 = str ''escalation''" "spotless 4 r2"
    by blast
  have "fst (run_all clock general [?p, ?e] w) = Inr [r1, r2]" by (simp add: r1(1) r2(1))
  with plans r1 r2 show ?thesis by (intro exI [of _ "[?p, ?e]"] exI [of _ "[r1, r2]"]) simp
qed

end
