(* ===== verification/Redaction.thy ===== *)
theory Redaction
  imports Auth Policy
begin

text \<open>
  \<open>core/logging.py\<close>: the filter that redacts credentials from log records, with its four
  regular expressions written out as matchers, the level and the trace id of a record, and
  the line the console handler emits; and the secrets \<open>main.py\<close> registers at startup. \<open>wide\<close> is
  the interpreter's \<open>str.isalnum\<close> above 255, on which \<open>\b\<close> depends. Formatting the time and the
  arguments of a record is the standard library's.
\<close>

subsection \<open>Substitution\<close>

definition REDACTED :: pystr where
  "REDACTED = str ''***REDACTED***''"

text \<open>
  A matcher is given the character before the position and the text from it, and answers the
  replacement and how many characters it consumes. Each of the patterns determines its match
  at a position without backtracking: neighbouring repetitions have disjoint classes.
  \<open>sub_all\<close> is \<open>Pattern.sub\<close>; \<open>skip\<close> counts the characters of a match still to be passed.
\<close>

type_synonym matcher = "nat option \<Rightarrow> pystr \<Rightarrow> (pystr \<times> nat) option"

fun sub_all :: "matcher \<Rightarrow> nat option \<Rightarrow> nat \<Rightarrow> pystr \<Rightarrow> pystr" where
  "sub_all m prev skip [] = []"
| "sub_all m prev (Suc k) (c # s) = sub_all m (Some c) k s"
| "sub_all m prev 0 (c # s) =
     (case m prev (c # s) of
        None \<Rightarrow> c # sub_all m (Some c) 0 s
      | Some (replacement, n) \<Rightarrow> replacement @ sub_all m (Some c) (n - 1) s)"

text \<open>\<open>text.replace(literal, REDACTED)\<close> for a literal that is not empty\<close>

definition literal_match :: "pystr \<Rightarrow> matcher" where
  "literal_match literal prev s = (if prefix literal s then Some (REDACTED, length literal) else None)"

subsection \<open>The patterns\<close>

definition letter :: "nat \<Rightarrow> bool" where
  "letter c \<longleftrightarrow> (65 \<le> c \<and> c \<le> 90) \<or> (97 \<le> c \<and> c \<le> 122)"

text \<open>\<open>[A-Za-z]\<close> under \<open>(?i)\<close> also matches the four characters that fold to a letter.\<close>

definition letter_ci :: "nat \<Rightarrow> bool" where
  "letter_ci c \<longleftrightarrow> letter (re_fold c)"

definition word_ci :: "pystr \<Rightarrow> pystr \<Rightarrow> bool" where
  "word_ci p s \<longleftrightarrow> map re_fold s = p"

text \<open>\<open>gsk_[A-Za-z0-9_\-]{8,}\<close>\<close>

definition key_char :: "nat \<Rightarrow> bool" where
  "key_char c \<longleftrightarrow> letter c \<or> isdigit c \<or> c = 95 \<or> c = 45"

definition groq_match :: matcher where
  "groq_match prev s =
     (let run = takeWhile key_char (drop 4 s) in
      if take 4 s = str ''gsk_'' \<and> 8 \<le> length run then Some (REDACTED, 4 + length run) else None)"

text \<open>\<open>(?i)\bbearer\s+[A-Za-z0-9._\-]{8,}\<close>\<close>

definition token_char :: "nat \<Rightarrow> bool" where
  "token_char c \<longleftrightarrow> letter_ci c \<or> isdigit c \<or> c \<in> {46, 95, 45}"

definition boundary_before :: "(nat \<Rightarrow> bool) \<Rightarrow> nat option \<Rightarrow> pystr \<Rightarrow> bool" where
  "boundary_before wide prev s \<longleftrightarrow>
     (case prev of None \<Rightarrow> False | Some p \<Rightarrow> word_char wide p) \<noteq>
     (case s of [] \<Rightarrow> False | c # _ \<Rightarrow> word_char wide c)"

definition bearer_match :: "(nat \<Rightarrow> bool) \<Rightarrow> matcher" where
  "bearer_match wide prev s =
     (let spaces = takeWhile isspace (drop 6 s);
          token = takeWhile token_char (drop (6 + length spaces) s)
      in if boundary_before wide prev s \<and> word_ci (str ''bearer'') (take 6 s) \<and> spaces \<noteq> [] \<and> 8 \<le> length token
         then Some (str ''Bearer '' @ REDACTED, 6 + length spaces + length token) else None)"

text \<open>\<open>(?i)\b([a-z][a-z0-9+.\-]*://[^\s:/@]+):([^\s@/]+)@\<close>\<close>

definition scheme_char :: "nat \<Rightarrow> bool" where
  "scheme_char c \<longleftrightarrow> letter_ci c \<or> isdigit c \<or> c \<in> {43, 46, 45}"

definition user_char :: "nat \<Rightarrow> bool" where
  "user_char c \<longleftrightarrow> \<not> isspace c \<and> c \<notin> {58, 47, 64}"

definition password_char :: "nat \<Rightarrow> bool" where
  "password_char c \<longleftrightarrow> \<not> isspace c \<and> c \<notin> {64, 47}"

definition url_match :: "(nat \<Rightarrow> bool) \<Rightarrow> matcher" where
  "url_match wide prev s =
     (let scheme = takeWhile scheme_char s;
          user_at = length scheme + 3;
          user = takeWhile user_char (drop user_at s);
          password_at = user_at + length user + 1;
          password = takeWhile password_char (drop password_at s);
          end_at = password_at + length password
      in if boundary_before wide prev s \<and> scheme \<noteq> [] \<and> letter_ci (hd scheme) \<and>
            take 3 (drop (length scheme) s) = str ''://'' \<and> user \<noteq> [] \<and>
            take 1 (drop (user_at + length user) s) = [58] \<and> password \<noteq> [] \<and> take 1 (drop end_at s) = [64]
         then Some (take password_at s @ REDACTED @ [64], end_at + 1) else None)"

text \<open>
  \<open>(?i)([A-Za-z0-9_-]*(?:authorization|api[_-]?key))(\s*[:=]\s*)\S+\<close>: neither a space nor a separator
  is a character of the name, so the keyword ends where the name does.
\<close>

definition header_char :: "nat \<Rightarrow> bool" where
  "header_char c \<longleftrightarrow> letter_ci c \<or> isdigit c \<or> c \<in> {95, 45}"

definition credential_names :: "pystr list" where
  "credential_names = [str ''authorization'', str ''apikey'', str ''api_key'', str ''api-key'']"

definition names_credential :: "pystr \<Rightarrow> bool" where
  "names_credential name \<longleftrightarrow> list_ex (\<lambda>k. suffix k (map re_fold name)) credential_names"

definition assignment_match :: matcher where
  "assignment_match prev s =
     (let name = takeWhile header_char s;
          separator_at = length name + length (takeWhile isspace (drop (length name) s));
          separator = take 1 (drop separator_at s);
          value_at = separator_at + 1 + length (takeWhile isspace (drop (separator_at + 1) s));
          credential = takeWhile (\<lambda>c. \<not> isspace c) (drop value_at s)
      in if names_credential name \<and> (separator = [58] \<or> separator = [61]) \<and> credential \<noteq> []
         then Some (take value_at s @ REDACTED, value_at + length credential) else None)"

definition secret_patterns :: "(nat \<Rightarrow> bool) \<Rightarrow> matcher list" where
  "secret_patterns wide = [groq_match, bearer_match wide, url_match wide, assignment_match]"

subsection \<open>The filter\<close>

text \<open>\<open>SecretRedactingFilter\<close> keeps the secrets that are not empty.\<close>

definition redaction_literals :: "pystr list \<Rightarrow> pystr list" where
  "redaction_literals secrets = filter (\<lambda>s. s \<noteq> []) secrets"

definition redact :: "(nat \<Rightarrow> bool) \<Rightarrow> pystr list \<Rightarrow> pystr \<Rightarrow> pystr" where
  "redact wide literals text =
     fold (\<lambda>m t. sub_all m None 0 t) (map literal_match literals @ secret_patterns wide) text"

text \<open>
  A record as the handler gets it: its formatted message, or \<open>None\<close> when the arguments do not
  fit the template and \<open>getMessage\<close> raises; the trace id a caller may have set; and the
  rendered traceback when it was logged with one.
\<close>

record log_record =
  lg_message :: "pystr option"
  lg_trace_id :: "pystr option"
  lg_traceback :: "pystr option"

definition filter_record :: "(nat \<Rightarrow> bool) \<Rightarrow> pystr list \<Rightarrow> log_record \<Rightarrow> log_record" where
  "filter_record wide literals r =
     (case lg_message r of
        None \<Rightarrow> r
      | Some message \<Rightarrow>
          (let redacted = redact wide literals message in
           if redacted \<noteq> message then r\<lparr>lg_message := Some redacted\<rparr> else r))"

definition stamp_trace_id :: "pystr option \<Rightarrow> log_record \<Rightarrow> log_record" where
  "stamp_trace_id current r =
     (case lg_trace_id r of
        Some _ \<Rightarrow> r
      | None \<Rightarrow> r\<lparr>lg_trace_id := Some (case current of None \<Rightarrow> str ''-'' | Some i \<Rightarrow> if i = [] then str ''-'' else i)\<rparr>)"

text \<open>
  The console handler: its filters in order, then \<open>Formatter.format\<close>, which appends the
  traceback on lines of its own. Without a message the handler reports the error and emits
  nothing.
\<close>

definition emit_line ::
  "(nat \<Rightarrow> bool) \<Rightarrow> pystr list \<Rightarrow> pystr option \<Rightarrow> pystr \<Rightarrow> pystr \<Rightarrow> pystr \<Rightarrow> log_record \<Rightarrow> pystr option" where
  "emit_line wide literals current asctime levelname name r =
     (let r1 = filter_record wide literals (stamp_trace_id current r) in
      case lg_message r1 of
        None \<Rightarrow> None
      | Some message \<Rightarrow>
          Some (asctime @ [32] @ levelname @ replicate (8 - length levelname) 32 @ str '' ['' @
                the (lg_trace_id r1) @ str ''] '' @ name @ str '': '' @ message @
                (case lg_traceback r1 of None \<Rightarrow> [] | Some t \<Rightarrow> [10] @ t)))"

definition level_names :: "pystr list" where
  "level_names = map str [''CRITICAL'', ''FATAL'', ''ERROR'', ''WARN'', ''WARNING'', ''INFO'', ''DEBUG'', ''NOTSET'']"

text \<open>\<open>upper\<close> is \<open>str.upper\<close>.\<close>

definition resolve_level :: "(pystr \<Rightarrow> pystr) \<Rightarrow> pystr \<Rightarrow> pystr" where
  "resolve_level upper level =
     (let candidate = upper (strip level) in if candidate \<in> set level_names then candidate else str ''INFO'')"

subsection \<open>The secrets registered at startup\<close>

text \<open>\<open>entry.partition(":")[2].strip()\<close>\<close>

definition entry_secret :: "pystr \<Rightarrow> pystr" where
  "entry_secret entry = strip (drop 1 (dropWhile (\<lambda>c. c \<noteq> 58) entry))"

definition startup_secrets :: "pystr option \<Rightarrow> pystr option \<Rightarrow> pystr option \<Rightarrow> pystr list \<Rightarrow> pystr list" where
  "startup_secrets llm_api_key database_url redis_url auth_api_keys =
     List.map_filter (\<lambda>x. x) [llm_api_key, database_url, redis_url] @
     map entry_secret (filter (\<lambda>e. 58 \<in> set e \<and> entry_secret e \<noteq> []) auth_api_keys)"


subsection \<open>Lemmas on occurrences\<close>

lemma contains_sublist: "contains w s \<longleftrightarrow> sublist w s"
  by (induction w s rule: contains.induct) (auto simp: sublist_Cons_right)

lemma sublist_separated:
  assumes "c \<notin> set w"
  shows "sublist w (x @ c # y) \<longleftrightarrow> sublist w x \<or> sublist w y"
proof
  assume "sublist w (x @ c # y)"
  then consider (left) "sublist w x" | (right) "sublist w (c # y)"
    | (across) w1 w2 where "w = w1 @ w2" "suffix w1 x" "prefix w2 (c # y)"
    by (auto simp: sublist_append)
  then show "sublist w x \<or> sublist w y"
  proof cases
    case left
    then show ?thesis ..
  next
    case right
    with assms show ?thesis by (auto simp: sublist_Cons_right prefix_Cons)
  next
    case across
    with assms have "w2 = []" by (auto simp: prefix_Cons)
    with across show ?thesis by (auto dest: suffix_imp_sublist)
  qed
qed (auto simp: sublist_append sublist_Cons_right)

lemma sublist_dropI: "sublist w (drop e s) \<Longrightarrow> sublist w s"
  by (meson sublist_drop sublist_order.order_trans)

lemma sublist_takeI: "sublist w (take e s) \<Longrightarrow> sublist w s"
  by (meson sublist_take sublist_order.order_trans)

text \<open>
  A secret that redaction can promise to remove: it has no \<open>*\<close>, no \<open>B\<close>, and is not part of the
  words the replacements insert.
\<close>

definition redactable :: "pystr \<Rightarrow> bool" where
  "redactable w \<longleftrightarrow> w \<noteq> [] \<and> 42 \<notin> set w \<and> 66 \<notin> set w \<and> \<not> contains w (str ''REDACTED'') \<and> \<not> contains w (str ''earer '')"

lemma redacted_shape: "REDACTED = str ''***'' @ str ''REDACTED'' @ str ''***''"
  by (simp add: REDACTED_def str_def)

lemma redacted_split:
  assumes "42 \<notin> set w" "\<not> sublist w (str ''REDACTED'')" "w \<noteq> []"
  shows "sublist w (x @ REDACTED @ y) \<longleftrightarrow> sublist w x \<or> sublist w y"
proof -
  have stars: "str ''***'' = [42, 42, 42]" by (simp add: str_def)
  show ?thesis
    using assms sublist_separated [OF assms(1), of "[]"] by (simp add: redacted_shape stars sublist_separated)
qed

text \<open>
  What a matcher may do without bringing a text into being: it keeps a prefix of what it
  consumed, perhaps rewritten, inserts the mark and keeps a suffix. \<open>P\<close> is a property of texts
  that a secret is spelled out in them.
\<close>

definition redacting :: "matcher \<Rightarrow> (pystr \<Rightarrow> bool) \<Rightarrow> bool" where
  "redacting m P \<longleftrightarrow> (\<forall>prev s replacement n. m prev s = Some (replacement, n) \<longrightarrow>
     1 \<le> n \<and> n \<le> length s \<and>
     (\<exists>x e. replacement = x @ REDACTED @ drop e (take n s) \<and> (\<forall>u. P (u @ x) \<longrightarrow> P (u @ s))))"

lemma sub_all_skip: "k \<le> length s \<Longrightarrow> \<exists>p. sub_all m prev k s = sub_all m p 0 (drop k s)"
  by (induction m prev k s rule: sub_all.induct) auto

lemma sub_all_match:
  assumes "m prev (c # s) = Some (replacement, n)" "1 \<le> n" "n \<le> length (c # s)"
  shows "\<exists>p. sub_all m prev 0 (c # s) = replacement @ sub_all m p 0 (drop n (c # s))"
  using sub_all_skip [of "n - 1" s m "Some c"] assms by (cases n) auto

text \<open>Substitution spells out nothing that the text did not, for such properties.\<close>

definition spelled :: "(pystr \<Rightarrow> bool) \<Rightarrow> bool" where
  "spelled P \<longleftrightarrow> (\<forall>x y. P (x @ REDACTED @ y) \<longrightarrow> P x \<or> P y) \<and> (\<forall>x y. P y \<longrightarrow> P (x @ y))"

lemma sub_all_spells_nothing:
  assumes "spelled P" "redacting m P"
  shows "P (u @ sub_all m prev 0 s) \<Longrightarrow> P (u @ s)"
proof (induction "length s" arbitrary: u prev s rule: less_induct)
  case less
  show ?case
  proof (cases s)
    case Nil
    with less.prems show ?thesis by simp
  next
    case (Cons c t)
    show ?thesis
    proof (cases "m prev (c # t)")
      case None
      with less.prems Cons have "P ((u @ [c]) @ sub_all m (Some c) 0 t)" by simp
      from less.hyps [OF _ this] Cons show ?thesis by simp
    next
      case (Some rn)
      obtain replacement n where rn: "rn = (replacement, n)" by force
      with Some assms(2) Cons obtain x e where m: "1 \<le> n" "n \<le> length s"
        "replacement = x @ REDACTED @ drop e (take n s)" "P (u @ x) \<longrightarrow> P (u @ s)"
        unfolding redacting_def by metis
      from sub_all_match [of m prev c t replacement n] Some rn m(1,2) Cons obtain p where
        "sub_all m prev 0 s = replacement @ sub_all m p 0 (drop n s)" by auto
      with less.prems m(3) have "P ((u @ x) @ REDACTED @ (drop e (take n s) @ sub_all m p 0 (drop n s)))" by simp
      with assms(1) consider "P (u @ x)" | "P (drop e (take n s) @ sub_all m p 0 (drop n s))"
        unfolding spelled_def by blast
      then show ?thesis
      proof cases
        case 1
        with m(4) show ?thesis by simp
      next
        case 2
        have "length (drop n s) < length s" using m(1) Cons by simp
        from less.hyps [OF this 2] have "P (drop e (take n s) @ drop n s)" .
        moreover have "\<exists>z. u @ s = z @ drop e (take n s) @ drop n s"
          by (rule exI [of _ "u @ take e (take n s)"]) (metis append.assoc append_take_drop_id)
        ultimately show ?thesis using assms(1) unfolding spelled_def by metis
      qed
    qed
  qed
qed

text \<open>The occurrences of one redactable text.\<close>

lemma redactable_D:
  "redactable w \<Longrightarrow> 42 \<notin> set w \<and> 66 \<notin> set w \<and> w \<noteq> [] \<and> \<not> sublist w (str ''REDACTED'') \<and> \<not> sublist w (str ''earer '')"
  by (simp add: redactable_def contains_sublist)

lemma spelled_sublist: "redactable w \<Longrightarrow> spelled (sublist w)"
  unfolding spelled_def using redacted_split redactable_D by (auto simp: sublist_append)

lemma sublist_append_takeI: "sublist w (x @ take j y) \<Longrightarrow> sublist w (x @ y)"
  by (metis append_assoc append_take_drop_id sublist_appendI sublist_append_rightI sublist_order.order_trans)

lemma takeWhile_drop_le: "i + length (takeWhile P (drop i s)) \<le> max i (length s)"
  using length_takeWhile_le [of P "drop i s"] by (auto simp: max_def)


subsection \<open>What the matchers do\<close>

definition extends :: "(pystr \<Rightarrow> bool) \<Rightarrow> bool" where
  "extends P \<longleftrightarrow> (\<forall>x y. P x \<longrightarrow> P (x @ y))"

text \<open>A match that keeps the first \<open>j\<close> characters, inserts the mark and keeps a suffix.\<close>

lemma redacting_keep:
  assumes "extends P"
    and "\<And>prev s replacement n. m prev s = Some (replacement, n) \<Longrightarrow>
      1 \<le> n \<and> n \<le> length s \<and> (\<exists>j e. replacement = take j s @ REDACTED @ drop e (take n s))"
  shows "redacting m P"
  unfolding redacting_def
proof (intro allI impI)
  fix prev s replacement n
  assume "m prev s = Some (replacement, n)"
  from assms(2) [OF this] obtain j e where
    m: "1 \<le> n" "n \<le> length s" "replacement = take j s @ REDACTED @ drop e (take n s)" by blast
  have "\<forall>u. P (u @ take j s) \<longrightarrow> P (u @ s)"
    using assms(1) unfolding extends_def by (metis append.assoc append_take_drop_id)
  with m show "1 \<le> n \<and> n \<le> length s \<and>
      (\<exists>x e. replacement = x @ REDACTED @ drop e (take n s) \<and> (\<forall>u. P (u @ x) \<longrightarrow> P (u @ s)))" by blast
qed

lemma if_Some: "(if c then Some (a, b) else None) = Some (x, y) \<longleftrightarrow> c \<and> x = a \<and> y = b"
  by auto

lemma literal_match_redacting: "extends P \<Longrightarrow> l \<noteq> [] \<Longrightarrow> redacting (literal_match l) P"
proof (rule redacting_keep)
  fix prev s replacement n
  assume "l \<noteq> []" "literal_match l prev s = Some (replacement, n)"
  then have "1 \<le> n \<and> n \<le> length s \<and> replacement = take 0 s @ REDACTED @ drop n (take n s)"
    by (cases l) (auto simp: literal_match_def dest: prefix_length_le split: if_splits)
  then show "1 \<le> n \<and> n \<le> length s \<and> (\<exists>j e. replacement = take j s @ REDACTED @ drop e (take n s))" by blast
qed

lemma groq_match_redacting: "extends P \<Longrightarrow> redacting groq_match P"
proof (rule redacting_keep)
  fix prev s replacement n
  assume "groq_match prev s = Some (replacement, n)"
  then have m: "take 4 s = str ''gsk_''" "8 \<le> length (takeWhile key_char (drop 4 s))" "replacement = REDACTED"
    "n = 4 + length (takeWhile key_char (drop 4 s))"
    unfolding groq_match_def Let_def if_Some by blast+
  have "length (take 4 s) = 4" unfolding m(1) by simp
  then have "4 \<le> length s" by simp
  with m have "1 \<le> n \<and> n \<le> length s \<and> replacement = take 0 s @ REDACTED @ drop n (take n s)"
    using takeWhile_drop_le [of 4 key_char s] by simp
  then show "1 \<le> n \<and> n \<le> length s \<and> (\<exists>j e. replacement = take j s @ REDACTED @ drop e (take n s))" by blast
qed

lemma take_1_drop: "take 1 (drop i s) = [c] \<Longrightarrow> i < length s \<and> take 1 (drop i s) = [s ! i] \<and> s ! i = c"
  by (cases "i < length s") (auto simp: Cons_nth_drop_Suc [symmetric])

lemma url_match_redacting: "extends P \<Longrightarrow> redacting (url_match wide) P"
proof (rule redacting_keep)
  fix prev s replacement n
  assume a: "url_match wide prev s = Some (replacement, n)"
  let ?a = "length (takeWhile scheme_char s) + 3"
  let ?p = "?a + length (takeWhile user_char (drop ?a s)) + 1"
  let ?e = "?p + length (takeWhile password_char (drop ?p s))"
  from a have m: "replacement = take ?p s @ REDACTED @ [64]" "n = ?e + 1" "take 1 (drop ?e s) = [64]"
    unfolding url_match_def Let_def if_Some by blast+
  from take_1_drop [OF m(3)] have e: "?e < length s" by blast
  have d: "drop ?e (take n s) = [64]" unfolding m(2) drop_take using m(3) by simp
  have n: "1 \<le> n" "n \<le> length s" unfolding m(2) using e by simp_all
  show "1 \<le> n \<and> n \<le> length s \<and> (\<exists>j e. replacement = take j s @ REDACTED @ drop e (take n s))"
    using n m(1) d by metis
qed

lemma assignment_match_redacting: "extends P \<Longrightarrow> redacting assignment_match P"
proof (rule redacting_keep)
  fix prev s replacement n
  assume a: "assignment_match prev s = Some (replacement, n)"
  let ?w = "length (takeWhile header_char s)"
  let ?s = "?w + length (takeWhile isspace (drop ?w s))"
  let ?v = "?s + 1 + length (takeWhile isspace (drop (?s + 1) s))"
  let ?c = "takeWhile (\<lambda>c. \<not> isspace c) (drop ?v s)"
  from a have m: "replacement = take ?v s @ REDACTED" "n = ?v + length ?c" "?c \<noteq> []"
    unfolding assignment_match_def Let_def if_Some by blast+
  have "?v < length s" using m(3) by (metis drop_all linorder_not_less takeWhile.simps(1))
  then have "1 \<le> n" "n \<le> length s" "drop n (take n s) = []"
    using takeWhile_drop_le [of ?v "\<lambda>c. \<not> isspace c" s] m(2) by auto
  with m(1) show "1 \<le> n \<and> n \<le> length s \<and> (\<exists>j e. replacement = take j s @ REDACTED @ drop e (take n s))"
    by (metis append_Nil2)
qed

lemma bearer_match_redacting:
  assumes "\<And>u s. word_ci (str ''bearer'') (take 6 s) \<Longrightarrow> P (u @ str ''Bearer '') \<Longrightarrow> P (u @ s)"
  shows "redacting (bearer_match wide) P"
  unfolding redacting_def
proof (intro allI impI)
  fix prev s replacement n
  assume a: "bearer_match wide prev s = Some (replacement, n)"
  let ?sp = "takeWhile isspace (drop 6 s)"
  let ?t = "takeWhile token_char (drop (6 + length ?sp) s)"
  from a have m: "replacement = str ''Bearer '' @ REDACTED" "n = 6 + length ?sp + length ?t" "8 \<le> length ?t"
    "word_ci (str ''bearer'') (take 6 s)"
    unfolding bearer_match_def Let_def if_Some by blast+
  have "?t \<noteq> []" using m(3) by auto
  then have "6 + length ?sp < length s" by (metis drop_all linorder_not_less takeWhile.simps(1))
  then have "1 \<le> n" "n \<le> length s" "drop n (take n s) = []"
    using takeWhile_drop_le [of "6 + length ?sp" token_char s] m(2) by auto
  with m(1) assms [OF m(4)] show "1 \<le> n \<and> n \<le> length s \<and>
      (\<exists>x e. replacement = x @ REDACTED @ drop e (take n s) \<and> (\<forall>u. P (u @ x) \<longrightarrow> P (u @ s)))"
    by (metis append_Nil2)
qed


lemma extends_sublist: "extends (sublist w)"
  by (auto simp: extends_def sublist_append)

lemma bearer_sublist:
  assumes "redactable w" "sublist w (u @ str ''Bearer '')"
  shows "sublist w (u @ s)"
proof -
  have "str ''Bearer '' = 66 # str ''earer ''" by (simp add: str_def)
  with assms sublist_separated [of 66 w u "str ''earer ''"] redactable_D [OF assms(1)] have "sublist w u" by simp
  then show ?thesis by (simp add: sublist_append)
qed

text \<open>The texts the first pattern matches, at their shortest.\<close>

definition groq_shaped :: "pystr \<Rightarrow> bool" where
  "groq_shaped w \<longleftrightarrow> length w = 12 \<and> take 4 w = str ''gsk_'' \<and> list_all key_char (drop 4 w)"

definition leaks_groq_key :: "pystr \<Rightarrow> bool" where
  "leaks_groq_key s \<longleftrightarrow> (\<exists>w. groq_shaped w \<and> sublist w s)"

lemma groq_shaped_chars:
  assumes "groq_shaped w"
  shows "42 \<notin> set w" "32 \<notin> set w" "\<not> sublist w (str ''REDACTED'')" "w \<noteq> []"
proof -
  have "set w = set (take 4 w) \<union> set (drop 4 w)" by (metis append_take_drop_id set_append)
  then have w: "\<forall>c \<in> set w. c \<in> {103, 115, 107, 95} \<or> key_char c"
    using assms by (auto simp: groq_shaped_def list_all_iff str_def)
  then show "42 \<notin> set w" "32 \<notin> set w" by (auto simp: key_char_def letter_def isdigit_def)
  show "w \<noteq> []" using assms by (auto simp: groq_shaped_def)
  show "\<not> sublist w (str ''REDACTED'')"
    using assms by (auto simp: groq_shaped_def dest!: sublist_length_le)
qed

lemma spelled_groq: "spelled leaks_groq_key"
  unfolding spelled_def leaks_groq_key_def
  using redacted_split groq_shaped_chars by (metis sublist_append)

lemma extends_groq: "extends leaks_groq_key"
  unfolding extends_def leaks_groq_key_def by (metis sublist_append)

lemma re_fold_letter: "re_fold c \<in> {97, 98, 101, 114} \<Longrightarrow> key_char c"
  by (auto simp: re_fold_def key_char_def letter_def split: if_splits)

lemma bearer_groq:
  assumes b: "word_ci (str ''bearer'') (take 6 s)" and l: "leaks_groq_key (u @ str ''Bearer '')"
  shows "leaks_groq_key (u @ s)"
proof -
  from l obtain w where w: "groq_shaped w" "sublist w (u @ str ''Bearer '')" by (auto simp: leaks_groq_key_def)
  have "u @ str ''Bearer '' = (u @ str ''Bearer'') @ 32 # []" by (simp add: str_def)
  with w sublist_separated [of 32 w "u @ str ''Bearer''" "[]"] groq_shaped_chars [OF w(1)]
  have "sublist w (u @ str ''Bearer'')" by auto
  moreover have "\<not> sublist w (str ''Bearer'')"
    using w(1) by (auto simp: groq_shaped_def dest!: sublist_length_le)
  ultimately have "sublist w u \<or> (\<exists>w1 w2. w = w1 @ w2 \<and> suffix w1 u \<and> prefix w2 (str ''Bearer''))"
    by (simp add: sublist_append)
  then consider (before) "sublist w u"
    | (across) w1 w2 where "w = w1 @ w2" "suffix w1 u" "prefix w2 (str ''Bearer'')" "w2 \<noteq> []"
    by (metis append_Nil2 suffix_imp_sublist)
  then show ?thesis
  proof cases
    case before
    then show ?thesis using w(1) by (auto simp: leaks_groq_key_def sublist_append)
  next
    case across
    let ?t = "take (length w2) s"
    have l2: "length w2 \<le> 6" using across(3) by (auto dest: prefix_length_le)
    have bearer: "map re_fold (take 6 s) = str ''bearer''" using b by (simp add: word_ci_def)
    have "length (map re_fold (take 6 s)) = 6" unfolding bearer by simp
    then have s6: "6 \<le> length s" by simp
    have hd2: "hd w2 = 66" using across(3,4) by (cases w2) (auto simp: str_def)
    have "4 \<le> length w1"
    proof (rule ccontr)
      assume "\<not> 4 \<le> length w1"
      then have k: "length w1 < 4" by simp
      have "hd w2 = w ! length w1" using across(1,4) by (simp add: nth_append hd_conv_nth)
      also have "\<dots> = take 4 w ! length w1" using k by simp
      also have "\<dots> \<in> {103, 115, 107, 95}"
        using w(1) k by (auto simp: groq_shaped_def str_def less_Suc_eq numeral_eq_Suc)
      finally show False unfolding hd2 by simp
    qed
    then have w1: "take 4 w1 = str ''gsk_''" "list_all key_char (drop 4 w1)"
      using w(1) across(1) by (auto simp: groq_shaped_def)
    have "set ?t \<subseteq> set (take 6 s)" using l2 by (simp add: set_take_subset_set_take)
    moreover have "re_fold ` set (take 6 s) \<subseteq> {97, 98, 101, 114}"
      using arg_cong [OF bearer, of set] by (simp add: str_def)
    ultimately have "list_all key_char ?t" using re_fold_letter by (auto simp: list_all_iff)
    moreover have "length ?t = length w2" using l2 s6 by simp
    ultimately have "groq_shaped (w1 @ ?t)"
      using w(1) across(1) w1 \<open>4 \<le> length w1\<close> by (auto simp: groq_shaped_def)
    moreover have "sublist (w1 @ ?t) (u @ s)"
      using across(2) by (auto simp: suffix_def sublist_def) (metis append.assoc append_take_drop_id)
    ultimately show ?thesis by (auto simp: leaks_groq_key_def)
  qed
qed

text \<open>
  A matcher that fires wherever a text of \<open>L\<close> starts leaves none of them behind.
\<close>

lemma sub_all_removes:
  assumes L: "\<And>w. L w \<Longrightarrow> 42 \<notin> set w \<and> w \<noteq> [] \<and> \<not> sublist w (str ''REDACTED'')"
    and fires: "\<And>prev s. m prev s = None \<Longrightarrow> \<not> (\<exists>w. L w \<and> prefix w s)"
    and marks: "\<And>prev s replacement n. m prev s = Some (replacement, n) \<Longrightarrow> replacement = REDACTED \<and> 1 \<le> n \<and> n \<le> length s"
  shows "\<forall>u1 u2. u = u1 @ u2 \<and> u2 \<noteq> [] \<longrightarrow> \<not> (\<exists>w. L w \<and> prefix w (u2 @ s)) \<Longrightarrow>
    L w \<Longrightarrow> \<not> sublist w (u @ sub_all m prev 0 s)"
proof (induction "length s" arbitrary: u prev s rule: less_induct)
  case less
  have u: "\<not> sublist w u"
  proof
    assume "sublist w u"
    then obtain a b where "u = a @ w @ b" by (auto simp: sublist_def)
    moreover have "prefix w ((w @ b) @ s)" by simp
    moreover have "w @ b \<noteq> []" using L less.prems(2) by simp
    ultimately show False using less.prems by blast
  qed
  show ?case
  proof (cases s)
    case Nil
    with u show ?thesis by simp
  next
    case (Cons c t)
    show ?thesis
    proof (cases "m prev s")
      case None
      have "\<forall>u1 u2. u @ [c] = u1 @ u2 \<and> u2 \<noteq> [] \<longrightarrow> \<not> (\<exists>w. L w \<and> prefix w (u2 @ t))"
      proof (intro allI impI)
        fix u1 u2
        assume split: "u @ [c] = u1 @ u2 \<and> u2 \<noteq> []"
        then obtain u3 where u3: "u2 = u3 @ [c]" "u = u1 @ u3"
          by (metis append_butlast_last_id butlast_append butlast_snoc last_appendR last_snoc)
        show "\<not> (\<exists>w. L w \<and> prefix w (u2 @ t))"
        proof (cases "u3 = []")
          case True
          with fires [OF None] u3 Cons show ?thesis by simp
        next
          case False
          with less.prems(1) u3 Cons show ?thesis by auto
        qed
      qed
      from less.hyps [OF _ this less.prems(2), of "Some c"] None Cons show ?thesis by simp
    next
      case (Some rn)
      obtain replacement n where rn: "rn = (replacement, n)" by force
      with marks Some have m: "replacement = REDACTED" "1 \<le> n" "n \<le> length s" by blast+
      from sub_all_match [of m prev c t replacement n] Some rn m Cons obtain p where
        eq: "sub_all m prev 0 s = REDACTED @ sub_all m p 0 (drop n s)" by auto
      have "length (drop n s) < length s" using m Cons by simp
      from less.hyps [OF this _ less.prems(2), of "[]" p] have "\<not> sublist w (sub_all m p 0 (drop n s))" by simp
      with u redacted_split [of w] L [OF less.prems(2)] show ?thesis unfolding eq by blast
    qed
  qed
qed

lemma literal_removed:
  assumes "redactable w"
  shows "\<not> sublist w (sub_all (literal_match w) None 0 s)"
proof -
  have "\<not> sublist w ([] @ sub_all (literal_match w) None 0 s)"
  proof (rule sub_all_removes [where L = "\<lambda>v. v = w"])
    fix prev s replacement n
    assume "literal_match w prev s = Some (replacement, n)"
    with redactable_D [OF assms] show "replacement = REDACTED \<and> 1 \<le> n \<and> n \<le> length s"
      by (cases w) (auto simp: literal_match_def dest: prefix_length_le split: if_splits)
  qed (use redactable_D [OF assms] in \<open>auto simp: literal_match_def split: if_splits\<close>)
  then show ?thesis by simp
qed

lemma groq_prefix:
  assumes "groq_shaped w" "prefix w s"
  shows "groq_match prev s \<noteq> None"
proof -
  obtain r where s: "s = w @ r" using assms(2) by (auto simp: prefix_def)
  have "takeWhile key_char (drop 4 s) = drop 4 w @ takeWhile key_char r"
    using assms(1) by (simp add: s groq_shaped_def list_all_iff)
  with assms(1) show ?thesis by (simp add: groq_match_def Let_def s groq_shaped_def)
qed

lemma groq_removed: "\<not> leaks_groq_key (sub_all groq_match None 0 s)"
proof
  assume "leaks_groq_key (sub_all groq_match None 0 s)"
  then obtain w where w: "groq_shaped w" "sublist w (sub_all groq_match None 0 s)" by (auto simp: leaks_groq_key_def)
  have "\<not> sublist w ([] @ sub_all groq_match None 0 s)"
  proof (rule sub_all_removes [where L = groq_shaped])
    fix prev s replacement n
    assume "groq_match prev s = Some (replacement, n)"
    moreover from groq_match_redacting [OF extends_sublist, of "[]"] this have "1 \<le> n \<and> n \<le> length s"
      unfolding redacting_def by blast
    ultimately show "replacement = REDACTED \<and> 1 \<le> n \<and> n \<le> length s"
      unfolding groq_match_def Let_def if_Some by blast
  next
    fix prev s
    assume "groq_match prev s = None"
    with groq_prefix show "\<not> (\<exists>w. groq_shaped w \<and> prefix w s)" by blast
  qed (use groq_shaped_chars w(1) in \<open>simp_all\<close>)
  with w(2) show False by simp
qed

text \<open>No later substitution brings back what an earlier one removed.\<close>

lemma subs_spell_nothing:
  assumes "spelled P" "\<forall>m \<in> set ms. redacting m P" "\<not> P s"
  shows "\<not> P (fold (\<lambda>m t. sub_all m None 0 t) ms s)"
  using assms(2,3)
proof (induction ms arbitrary: s)
  case (Cons m ms)
  have "\<not> P (sub_all m None 0 s)"
    using sub_all_spells_nothing [OF assms(1), of m "[]" None s] Cons.prems by auto
  with Cons show ?case by simp
qed simp

lemma patterns_redacting:
  assumes "extends P" "\<And>u s. word_ci (str ''bearer'') (take 6 s) \<Longrightarrow> P (u @ str ''Bearer '') \<Longrightarrow> P (u @ s)"
  shows "\<forall>m \<in> set (secret_patterns wide). redacting m P"
  using groq_match_redacting [OF assms(1)] url_match_redacting [OF assms(1)] assignment_match_redacting [OF assms(1)]
    bearer_match_redacting [of P, OF assms(2)]
  by (simp add: secret_patterns_def)

lemma redact_literal:
  assumes "w \<in> set literals" "[] \<notin> set literals" "redactable w"
  shows "\<not> contains w (redact wide literals text)"
proof -
  obtain before after where ls: "literals = before @ w # after" using assms(1) by (auto simp: in_set_conv_decomp)
  let ?rest = "map literal_match after @ secret_patterns wide"
  let ?t = "sub_all (literal_match w) None 0 (fold (\<lambda>m t. sub_all m None 0 t) (map literal_match before) text)"
  have "redact wide literals text = fold (\<lambda>m t. sub_all m None 0 t) ?rest ?t"
    by (simp add: redact_def ls)
  moreover have "redacting (literal_match l) (sublist w)" if "l \<in> set after" for l
    using literal_match_redacting [OF extends_sublist [of w], of l] assms(2) that ls by (cases "l = []") auto
  then have "\<forall>m \<in> set ?rest. redacting m (sublist w)"
    using patterns_redacting [OF extends_sublist [of w] bearer_sublist [OF assms(3)], of wide] by (auto simp: ball_Un)
  ultimately show ?thesis
    unfolding contains_sublist
    using subs_spell_nothing [OF spelled_sublist [OF assms(3)] _ literal_removed [OF assms(3)]] by metis
qed

lemma redact_groq: "\<not> leaks_groq_key (redact wide literals text)"
proof -
  let ?rest = "[bearer_match wide, url_match wide, assignment_match]"
  let ?t = "sub_all groq_match None 0 (fold (\<lambda>m t. sub_all m None 0 t) (map literal_match literals) text)"
  have "redact wide literals text = fold (\<lambda>m t. sub_all m None 0 t) ?rest ?t"
    by (simp add: redact_def secret_patterns_def)
  moreover have "\<forall>m \<in> set ?rest. redacting m leaks_groq_key"
    using patterns_redacting [OF extends_groq bearer_groq, of wide] by (simp add: secret_patterns_def)
  ultimately show ?thesis using subs_spell_nothing [OF spelled_groq _ groq_removed] by metis
qed


lemma literals_ne: "[] \<notin> set (redaction_literals secrets)"
  by (simp add: redaction_literals_def)

lemma filter_record_message:
  "lg_message (filter_record wide literals r) = map_option (redact wide literals) (lg_message r)"
  by (simp add: filter_record_def Let_def split: option.split)

lemma filter_record_rest:
  "lg_trace_id (filter_record wide literals r) = lg_trace_id r"
  "lg_traceback (filter_record wide literals r) = lg_traceback r"
  by (simp_all add: filter_record_def Let_def split: option.split)

lemma stamp_rest:
  "lg_message (stamp_trace_id current r) = lg_message r" "lg_traceback (stamp_trace_id current r) = lg_traceback r"
  "lg_trace_id (stamp_trace_id current r) \<noteq> None"
  by (simp_all add: stamp_trace_id_def split: option.split)

text \<open>What is emitted is a header, the redacted message and the traceback as it was.\<close>

lemma emit_line_shape:
  assumes "emit_line wide literals current asctime levelname name r = Some line"
  shows "\<exists>header message. lg_message r = Some message \<and>
    line = header @ str '': '' @ redact wide literals message @ (case lg_traceback r of None \<Rightarrow> [] | Some t \<Rightarrow> [10] @ t)"
  using assms by (auto simp: emit_line_def Let_def filter_record_message filter_record_rest stamp_rest split: option.splits)

text \<open>The authenticator's secrets are registered.\<close>

lemma parse_credential_secret:
  "parse_credential entry = Inr c \<Longrightarrow> cr_secret c = entry_secret entry \<and> 58 \<in> set entry \<and> entry_secret entry \<noteq> []"
  by (auto simp: parse_credential_def entry_secret_def Let_def raise_app_def dropWhile_eq_Nil_conv split: if_splits)

lemma parse_credentials_secrets:
  "parse_credentials entries = Inr cs \<Longrightarrow> c \<in> set cs \<Longrightarrow>
   \<exists>e \<in> set entries. 58 \<in> set e \<and> entry_secret e \<noteq> [] \<and> cr_secret c = entry_secret e"
  by (induction entries arbitrary: cs) (auto split: if_splits sum.splits dest: parse_credential_secret)

lemma set_startup_secrets:
  "set (startup_secrets api_key db_url redis_url entries) =
   set_option api_key \<union> set_option db_url \<union> set_option redis_url \<union>
   entry_secret ` {e \<in> set entries. 58 \<in> set e \<and> entry_secret e \<noteq> []}"
  by (cases api_key; cases db_url; cases redis_url) (simp_all add: startup_secrets_def List.map_filter_def insert_commute)

lemma startup_secret_key:
  assumes "parse_credentials entries = Inr cs" "c \<in> set cs"
  shows "cr_secret c \<in> set (redaction_literals (startup_secrets api_key db_url redis_url entries))"
  using parse_credentials_secrets [OF assms] by (auto simp: set_startup_secrets redaction_literals_def)

subsection \<open>Properties\<close>


text \<open>
  Redaction stops at the message. A traceback logged with a record is emitted exactly as
  it was rendered: whatever secret it spells out, registered or not, is on the line.
\<close>

theorem tracebacks_are_not_redacted:
  assumes "emit_line wide literals current asctime levelname name r = Some line"
    and "lg_traceback r = Some trace" "contains secret trace"
  shows "suffix trace line \<and> contains secret line"
proof -
  from emit_line_shape [OF assms(1)] assms(2) obtain h where line: "line = h @ trace"
    by (auto simp: append_assoc [symmetric] simp del: append_assoc)
  from assms(3) show ?thesis
    unfolding line by (auto simp: contains_sublist sublist_append suffix_def)
qed

definition sample_secret :: pystr where
  "sample_secret = str ''s3cr3t-key-0123456''"

definition sample_record :: log_record where
  "sample_record =
     \<lparr>lg_message = Some (str ''key s3cr3t-key-0123456 refused''), lg_trace_id = None,
      lg_traceback = Some (str ''ValueError: s3cr3t-key-0123456'')\<rparr>"

lemma sample_secret_redactable: "redactable sample_secret"
  by (simp add: redactable_def sample_secret_def str_def)


lemma tracebacks_are_not_redacted_witness:
  "\<exists>line. emit_line (\<lambda>_. False) [sample_secret] None [] [] [] sample_record = Some line \<and> contains sample_secret line"
proof -
  obtain line where line: "emit_line (\<lambda>_. False) [sample_secret] None [] [] [] sample_record = Some line"
    by (simp add: emit_line_def Let_def filter_record_message stamp_rest sample_record_def)
  have "lg_traceback sample_record = Some (str ''ValueError: s3cr3t-key-0123456'')" by (simp add: sample_record_def)
  moreover have "contains sample_secret (str ''ValueError: s3cr3t-key-0123456'')"
    by (simp add: sample_secret_def str_def)
  ultimately show ?thesis using tracebacks_are_not_redacted [OF line] line by blast
qed

text \<open>
  The last pattern takes one word after the separator, so of a header with a scheme it
  removes the scheme and leaves the credential.
\<close>

lemma basic_credentials_survive:
  "assignment_match prev (str ''Authorization: Basic dXNlcjpwdw'') =
     Some (str ''Authorization: '' @ REDACTED, length ''Authorization: Basic'')"
  by (simp add: assignment_match_def Let_def str_def header_char_def letter_ci_def letter_def re_fold_def isdigit_def
      names_credential_def credential_names_def isspace_def suffix_def)

end
