(* ===== verification/Settings.thy ===== *)
theory Settings
  imports Llm Realtime RedisJobs RateLimit
begin

text \<open>
  \<open>core/config.py\<close>: the settings with their field bounds, the normalisation of raw values and
  the validators that relate fields; and what the factories build from accepted settings
  (\<open>jobs/factory.py\<close>, \<open>auth/factory.py\<close>, \<open>ratelimit/factory.py\<close>, \<open>llm/factory.py\<close>,
  \<open>agent/factory.py\<close>, \<open>db/engine.py\<close>). Reading the environment and converting text to numbers
  and flags is Pydantic's, so the raw settings have converted values where no validator of the
  class sees the raw one.
\<close>

subsection \<open>The settings\<close>

datatype llm_choice = LLM_Groq | LLM_Static
datatype embedding_choice = Embed_Fastembed | Embed_Hashing
datatype queue_choice = Queue_Memory | Queue_Redis
datatype limiter_choice = Limit_None | Limit_Memory | Limit_Redis
datatype store_choice = Store_Memory | Store_Redis
datatype authz_choice = Authz_Open | Authz_Subject

text \<open>A list setting as text or as a list; \<open>NoDecode\<close> hands the text to the validator.
  The record has the fields that have a bound, a validator or a reader in the model; the name
  and environment shown by the health check, the host and port, the debug flags and the two
  recorder names have none.\<close>

datatype raw_list = Raw_Text pystr | Raw_List "pystr list"

record 'l settings_of =
  st_api_prefix :: pystr
  st_log_level :: pystr
  st_cors_origins :: 'l
  st_llm_provider :: llm_choice
  st_llm_model :: pystr
  st_llm_api_key :: "pystr option"
  st_llm_timeout :: rat
  st_llm_max_retries :: int
  st_llm_max_output_tokens :: int
  st_llm_total_timeout :: rat
  st_database_url :: "pystr option"
  st_db_pool_size :: int
  st_db_max_overflow :: int
  st_embedding_provider :: embedding_choice
  st_retrieval_top_k :: int
  st_agent_max_steps :: int
  st_agent_max_tool_calls :: int
  st_job_queue :: queue_choice
  st_redis_url :: "pystr option"
  st_redis_namespace :: pystr
  st_job_max_attempts :: int
  st_realtime_max_connections :: int
  st_realtime_max_message_bytes :: int
  st_llm_pricing :: 'l
  st_auth_provider :: auth_provider
  st_auth_api_keys :: 'l
  st_rate_limit_provider :: limiter_choice
  st_rate_limit_requests :: int
  st_rate_limit_window :: int
  st_ticket_store :: store_choice
  st_ticket_ttl :: int
  st_authz_provider :: authz_choice
  st_routing_min_confidence :: rat
  st_llm_temperature :: "rat option"

type_synonym raw_settings = "raw_list settings_of"
type_synonym settings = "pystr list settings_of"

subsection \<open>Raw values\<close>

fun split_entries :: "raw_list \<Rightarrow> pystr list" where
  "split_entries (Raw_Text s) = filter (\<lambda>e. e \<noteq> []) (map strip (split_on 44 s))"
| "split_entries (Raw_List es) = es"

definition empty_to_none :: "pystr option \<Rightarrow> pystr option" where
  "empty_to_none v = (case v of None \<Rightarrow> None | Some s \<Rightarrow> if strip s = [] then None else Some s)"

definition normalise_raw :: "raw_settings \<Rightarrow> settings" where
  "normalise_raw r =
     \<lparr>st_api_prefix = st_api_prefix r, st_log_level = st_log_level r,
      st_cors_origins = split_entries (st_cors_origins r), st_llm_provider = st_llm_provider r,
      st_llm_model = st_llm_model r, st_llm_api_key = empty_to_none (st_llm_api_key r),
      st_llm_timeout = st_llm_timeout r, st_llm_max_retries = st_llm_max_retries r,
      st_llm_max_output_tokens = st_llm_max_output_tokens r, st_llm_total_timeout = st_llm_total_timeout r,
      st_database_url = empty_to_none (st_database_url r), st_db_pool_size = st_db_pool_size r,
      st_db_max_overflow = st_db_max_overflow r, st_embedding_provider = st_embedding_provider r,
      st_retrieval_top_k = st_retrieval_top_k r, st_agent_max_steps = st_agent_max_steps r,
      st_agent_max_tool_calls = st_agent_max_tool_calls r, st_job_queue = st_job_queue r,
      st_redis_url = empty_to_none (st_redis_url r), st_redis_namespace = st_redis_namespace r,
      st_job_max_attempts = st_job_max_attempts r, st_realtime_max_connections = st_realtime_max_connections r,
      st_realtime_max_message_bytes = st_realtime_max_message_bytes r,
      st_llm_pricing = split_entries (st_llm_pricing r), st_auth_provider = st_auth_provider r,
      st_auth_api_keys = split_entries (st_auth_api_keys r), st_rate_limit_provider = st_rate_limit_provider r,
      st_rate_limit_requests = st_rate_limit_requests r, st_rate_limit_window = st_rate_limit_window r,
      st_ticket_store = st_ticket_store r, st_ticket_ttl = st_ticket_ttl r,
      st_authz_provider = st_authz_provider r, st_routing_min_confidence = st_routing_min_confidence r,
      st_llm_temperature = st_llm_temperature r\<rparr>"

subsection \<open>The bounds of the fields\<close>

definition bad_field :: "string \<Rightarrow> string \<Rightarrow> bool \<Rightarrow> (pystr list \<times> pystr) list" where
  "bad_field field message ok = (if ok then [] else [([str field], str message)])"

definition bounded_field :: "string \<Rightarrow> int \<Rightarrow> int \<Rightarrow> int \<Rightarrow> (pystr list \<times> pystr) list" where
  "bounded_field field lo hi n =
     (if n < lo then [([str field], str ''Input should be greater than or equal to '' @ show_int lo)]
      else if hi < n then [([str field], str ''Input should be less than or equal to '' @ show_int hi)]
      else [])"

definition unit_field :: "string \<Rightarrow> rat \<Rightarrow> (pystr list \<times> pystr) list" where
  "unit_field field x =
     bad_field field ''Input should be greater than or equal to 0'' (0 \<le> x) @
     bad_field field ''Input should be less than or equal to 1'' (x \<le> 1)"

definition field_errors :: "settings \<Rightarrow> (pystr list \<times> pystr) list" where
  "field_errors s =
     bad_field ''llm_timeout_seconds'' ''Input should be greater than 0'' (0 < st_llm_timeout s) @
     bad_field ''llm_max_retries'' ''Input should be greater than or equal to 0'' (0 \<le> st_llm_max_retries s) @
     bad_field ''llm_max_output_tokens'' ''Input should be greater than 0'' (0 < st_llm_max_output_tokens s) @
     bad_field ''llm_total_timeout_seconds'' ''Input should be greater than 0'' (0 < st_llm_total_timeout s) @
     bad_field ''db_pool_size'' ''Input should be greater than or equal to 1'' (1 \<le> st_db_pool_size s) @
     bad_field ''db_max_overflow'' ''Input should be greater than or equal to 0'' (0 \<le> st_db_max_overflow s) @
     bounded_field ''retrieval_top_k'' 1 20 (st_retrieval_top_k s) @
     bounded_field ''agent_max_steps'' 1 50 (st_agent_max_steps s) @
     bounded_field ''agent_max_tool_calls'' 0 100 (st_agent_max_tool_calls s) @
     bad_field ''redis_namespace'' ''String should have at least 1 character'' (st_redis_namespace s \<noteq> []) @
     bounded_field ''job_max_attempts'' 1 20 (st_job_max_attempts s) @
     bounded_field ''realtime_max_connections'' 1 10000 (st_realtime_max_connections s) @
     bounded_field ''realtime_max_message_bytes'' 1024 1048576 (st_realtime_max_message_bytes s) @
     bounded_field ''rate_limit_requests'' 1 100000 (st_rate_limit_requests s) @
     bounded_field ''rate_limit_window_seconds'' 1 3600 (st_rate_limit_window s) @
     bounded_field ''realtime_ticket_ttl_seconds'' 5 600 (st_ticket_ttl s) @
     unit_field ''routing_min_confidence'' (st_routing_min_confidence s) @
     (case st_llm_temperature s of None \<Rightarrow> [] | Some t \<Rightarrow> unit_field ''llm_temperature'' t)"

subsection \<open>The validators\<close>

definition invalid_settings :: "pystr \<Rightarrow> 'a result" where
  "invalid_settings message = Inl (ValidationError [([], str ''Value error, '' @ message)])"

text \<open>\<open>url.split("://", 1)[0]\<close>\<close>

fun before_scheme_mark :: "pystr \<Rightarrow> pystr" where
  "before_scheme_mark [] = []"
| "before_scheme_mark (c # s) = (if prefix (str ''://'') (c # s) then [] else c # before_scheme_mark s)"

definition require_async_database_driver :: "settings \<Rightarrow> settings result" where
  "require_async_database_driver s =
     (case st_database_url s of
        None \<Rightarrow> Inr s
      | Some url \<Rightarrow>
          (let scheme = before_scheme_mark url in
           if scheme \<noteq> str ''postgresql+asyncpg'' then
             invalid_settings (str ''DATABASE_URL must use the postgresql+asyncpg driver, got '' @ repr_str scheme @ str ''.'')
           else Inr s))"

definition redis_tickets_need_a_url :: "settings \<Rightarrow> settings result" where
  "redis_tickets_need_a_url s =
     (if st_ticket_store s = Store_Redis \<and> st_redis_url s = None
      then invalid_settings (str ''REALTIME_TICKET_STORE=redis requires REDIS_URL to be set.'') else Inr s)"

definition redis_rate_limiting_needs_a_url :: "settings \<Rightarrow> settings result" where
  "redis_rate_limiting_needs_a_url s =
     (if st_rate_limit_provider s = Limit_Redis \<and> st_redis_url s = None
      then invalid_settings (str ''RATE_LIMIT_PROVIDER=redis requires REDIS_URL to be set.'') else Inr s)"

definition scoped_authz_needs_authentication :: "settings \<Rightarrow> settings result" where
  "scoped_authz_needs_authentication s =
     (if st_authz_provider s = Authz_Subject \<and> st_auth_provider s = Auth_None
      then invalid_settings (str ''AUTHZ_PROVIDER=subject requires AUTH_PROVIDER to be set.'') else Inr s)"

definition api_key_auth_needs_keys :: "settings \<Rightarrow> settings result" where
  "api_key_auth_needs_keys s =
     (if st_auth_provider s = Auth_Api_Key \<and> st_auth_api_keys s = []
      then invalid_settings (str ''AUTH_PROVIDER=api_key requires AUTH_API_KEYS to be set.'') else Inr s)"

definition redis_backend_needs_a_url :: "settings \<Rightarrow> settings result" where
  "redis_backend_needs_a_url s =
     (if st_job_queue s = Queue_Redis \<and> st_redis_url s = None
      then invalid_settings (str ''JOB_QUEUE=redis requires REDIS_URL to be set.'') else Inr s)"

text \<open>\<open>show_float\<close> is the format of a float.\<close>

definition total_timeout_covers_one_attempt :: "(rat \<Rightarrow> pystr) \<Rightarrow> settings \<Rightarrow> settings result" where
  "total_timeout_covers_one_attempt show_float s =
     (if st_llm_total_timeout s < st_llm_timeout s
      then invalid_settings (str ''LLM_TOTAL_TIMEOUT_SECONDS must be at least LLM_TIMEOUT_SECONDS ('' @
        show_float (st_llm_total_timeout s) @ str '' < '' @ show_float (st_llm_timeout s) @ str '').'')
      else Inr s)"

definition and_then :: "('a \<Rightarrow> 'b result) \<Rightarrow> 'a result \<Rightarrow> 'b result" where
  "and_then f r = (case r of Inl e \<Rightarrow> Inl e | Inr x \<Rightarrow> f x)"

text \<open>The construction of \<open>Settings\<close>: the fields, then the validators in the order of the class.\<close>

definition Settings :: "(rat \<Rightarrow> pystr) \<Rightarrow> raw_settings \<Rightarrow> settings result" where
  "Settings show_float raw =
     (let s = normalise_raw raw in
      if field_errors s \<noteq> [] then Inl (ValidationError (field_errors s))
      else fold and_then
        [require_async_database_driver, redis_tickets_need_a_url, redis_rate_limiting_needs_a_url,
         scoped_authz_needs_authentication, api_key_auth_needs_keys, redis_backend_needs_a_url,
         total_timeout_covers_one_attempt show_float] (Inr s))"

text \<open>\<open>f"{api_prefix.rstrip('/')}/v1"\<close>\<close>

definition api_v1_prefix :: "settings \<Rightarrow> pystr" where
  "api_v1_prefix s = rev (dropWhile (\<lambda>c. c = 47) (rev (st_api_prefix s))) @ str ''/v1''"


subsection \<open>What the factories build\<close>

text \<open>
  What the code relies on in the libraries: \<open>Redis.from_url\<close> and \<open>create_async_engine\<close> accept a
  URL or raise. A queue, a ticket store and a limiter are known here by the backend and the
  parameters they were given.
\<close>

datatype built_queue = Memory_Queue | Redis_Queue pystr pystr
datatype built_store = Memory_Store rat | Redis_Store pystr pystr rat
datatype built_limiter = Null_Limiter | Memory_Limiter limiter | Redis_Limiter pystr limiter pystr

definition assert_url :: "pystr option \<Rightarrow> pystr result" where
  "assert_url url = (case url of None \<Rightarrow> Inl (OtherError (str ''AssertionError'')) | Some u \<Rightarrow> Inr u)"

definition build_job_queue :: "(pystr \<Rightarrow> unit result) \<Rightarrow> settings \<Rightarrow> built_queue result" where
  "build_job_queue from_url s =
     (case st_job_queue s of
        Queue_Memory \<Rightarrow> Inr Memory_Queue
      | Queue_Redis \<Rightarrow>
          and_then (\<lambda>url. and_then (\<lambda>_. Inr (Redis_Queue url (st_redis_namespace s))) (from_url url))
            (assert_url (st_redis_url s)))"

definition build_ticket_store :: "(pystr \<Rightarrow> unit result) \<Rightarrow> settings \<Rightarrow> built_store result" where
  "build_ticket_store from_url s =
     (case st_ticket_store s of
        Store_Memory \<Rightarrow> Inr (Memory_Store (of_int (st_ticket_ttl s)))
      | Store_Redis \<Rightarrow>
          and_then (\<lambda>url. and_then
              (\<lambda>_. Inr (Redis_Store url (st_redis_namespace s @ str '':tickets'') (of_int (st_ticket_ttl s)))) (from_url url))
            (assert_url (st_redis_url s)))"

definition build_rate_limiter :: "(pystr \<Rightarrow> unit result) \<Rightarrow> settings \<Rightarrow> built_limiter result" where
  "build_rate_limiter from_url s =
     (case st_rate_limit_provider s of
        Limit_None \<Rightarrow> Inr Null_Limiter
      | Limit_Memory \<Rightarrow>
          and_then (\<lambda>l. Inr (Memory_Limiter l)) (validate_limits (st_rate_limit_requests s) (st_rate_limit_window s))
      | Limit_Redis \<Rightarrow>
          (case st_redis_url s of
             None \<Rightarrow> raise_app RateLimitConfigurationError (Some (str ''The redis rate limiter requires REDIS_URL.'')) None
           | Some url \<Rightarrow>
               and_then (\<lambda>_. and_then (\<lambda>l. Inr (Redis_Limiter url l (st_redis_namespace s @ str '':ratelimit'')))
                   (validate_limits (st_rate_limit_requests s) (st_rate_limit_window s)))
                 (from_url url)))"

definition build_authorizer :: "settings \<Rightarrow> authorizer" where
  "build_authorizer s = (case st_authz_provider s of Authz_Open \<Rightarrow> open_authorizer | Authz_Subject \<Rightarrow> subject_authorizer)"

definition llm_choice_value :: "llm_choice \<Rightarrow> pystr" where
  "llm_choice_value c = (case c of LLM_Groq \<Rightarrow> str ''groq'' | LLM_Static \<Rightarrow> str ''static'')"

definition config_from_settings :: "settings \<Rightarrow> llm_config result" where
  "config_from_settings s =
     LLMConfig \<lparr>lc_provider = llm_choice_value (st_llm_provider s), lc_model = st_llm_model s,
       lc_api_key = st_llm_api_key s, lc_timeout = st_llm_timeout s, lc_max_retries = st_llm_max_retries s,
       lc_total_timeout = st_llm_total_timeout s, lc_max_output_tokens = st_llm_max_output_tokens s,
       lc_temperature = st_llm_temperature s\<rparr>"

definition budget_from_settings :: "settings \<Rightarrow> agent_budget" where
  "budget_from_settings s =
     \<lparr>ab_max_steps = st_agent_max_steps s, ab_max_tool_calls = st_agent_max_tool_calls s\<rparr>"

definition build_engine :: "(pystr \<Rightarrow> unit result) \<Rightarrow> settings \<Rightarrow> pystr result" where
  "build_engine create_async_engine s =
     (case st_database_url s of
        None \<Rightarrow> raise_app DatabaseNotConfiguredError None None
      | Some url \<Rightarrow> and_then (\<lambda>_. Inr url) (create_async_engine url))"


subsection \<open>Lemmas\<close>

lemma and_then_Inr: "and_then f r = Inr y \<longleftrightarrow> (\<exists>x. r = Inr x \<and> f x = Inr y)"
  by (simp add: and_then_def split: sum.split)

lemma and_then_simps [simp]: "and_then f (Inr x) = f x" "and_then f (Inl e) = Inl e"
  by (simp_all add: and_then_def)

lemma validators_Inr:
  "require_async_database_driver s = Inr s' \<longleftrightarrow> s' = s \<and>
     (\<forall>url. st_database_url s = Some url \<longrightarrow> before_scheme_mark url = str ''postgresql+asyncpg'')"
  "redis_tickets_need_a_url s = Inr s' \<longleftrightarrow> s' = s \<and> (st_ticket_store s = Store_Redis \<longrightarrow> st_redis_url s \<noteq> None)"
  "redis_rate_limiting_needs_a_url s = Inr s' \<longleftrightarrow> s' = s \<and>
     (st_rate_limit_provider s = Limit_Redis \<longrightarrow> st_redis_url s \<noteq> None)"
  "scoped_authz_needs_authentication s = Inr s' \<longleftrightarrow> s' = s \<and>
     (st_authz_provider s = Authz_Subject \<longrightarrow> st_auth_provider s = Auth_Api_Key)"
  "api_key_auth_needs_keys s = Inr s' \<longleftrightarrow> s' = s \<and>
     (st_auth_provider s = Auth_Api_Key \<longrightarrow> st_auth_api_keys s \<noteq> [])"
  "redis_backend_needs_a_url s = Inr s' \<longleftrightarrow> s' = s \<and> (st_job_queue s = Queue_Redis \<longrightarrow> st_redis_url s \<noteq> None)"
  "total_timeout_covers_one_attempt f s = Inr s' \<longleftrightarrow> s' = s \<and> st_llm_timeout s \<le> st_llm_total_timeout s"
  by (auto simp: require_async_database_driver_def redis_tickets_need_a_url_def redis_rate_limiting_needs_a_url_def
      scoped_authz_needs_authentication_def api_key_auth_needs_keys_def redis_backend_needs_a_url_def
      total_timeout_covers_one_attempt_def invalid_settings_def Let_def split: option.splits auth_provider.splits)
    (cases "st_auth_provider s"; simp)+

text \<open>What acceptance means, field by field.\<close>

definition settings_ok :: "settings \<Rightarrow> bool" where
  "settings_ok s \<longleftrightarrow> field_errors s = [] \<and>
     (case st_database_url s of None \<Rightarrow> True | Some url \<Rightarrow> before_scheme_mark url = str ''postgresql+asyncpg'') \<and>
     (st_redis_url s = None \<longrightarrow> st_ticket_store s = Store_Memory \<and> st_rate_limit_provider s \<noteq> Limit_Redis \<and>
        st_job_queue s = Queue_Memory) \<and>
     (st_authz_provider s = Authz_Subject \<longrightarrow> st_auth_provider s = Auth_Api_Key) \<and>
     (st_auth_provider s = Auth_Api_Key \<longrightarrow> st_auth_api_keys s \<noteq> []) \<and>
     st_llm_timeout s \<le> st_llm_total_timeout s"

lemma validators_chain:
  "fold and_then
     [require_async_database_driver, redis_tickets_need_a_url, redis_rate_limiting_needs_a_url,
      scoped_authz_needs_authentication, api_key_auth_needs_keys, redis_backend_needs_a_url,
      total_timeout_covers_one_attempt f] (Inr n) = Inr s \<longleftrightarrow> s = n \<and>
     (\<forall>url. st_database_url n = Some url \<longrightarrow> before_scheme_mark url = str ''postgresql+asyncpg'') \<and>
     (st_ticket_store n = Store_Redis \<longrightarrow> st_redis_url n \<noteq> None) \<and>
     (st_rate_limit_provider n = Limit_Redis \<longrightarrow> st_redis_url n \<noteq> None) \<and>
     (st_authz_provider n = Authz_Subject \<longrightarrow> st_auth_provider n = Auth_Api_Key) \<and>
     (st_auth_provider n = Auth_Api_Key \<longrightarrow> st_auth_api_keys n \<noteq> []) \<and>
     (st_job_queue n = Queue_Redis \<longrightarrow> st_redis_url n \<noteq> None) \<and> st_llm_timeout n \<le> st_llm_total_timeout n"
  by (simp only: fold.simps id_apply comp_def and_then_simps and_then_Inr validators_Inr) blast

lemma settings_ok_iff:
  "field_errors n = [] \<Longrightarrow> settings_ok n \<longleftrightarrow>
     (\<forall>url. st_database_url n = Some url \<longrightarrow> before_scheme_mark url = str ''postgresql+asyncpg'') \<and>
     (st_ticket_store n = Store_Redis \<longrightarrow> st_redis_url n \<noteq> None) \<and>
     (st_rate_limit_provider n = Limit_Redis \<longrightarrow> st_redis_url n \<noteq> None) \<and>
     (st_authz_provider n = Authz_Subject \<longrightarrow> st_auth_provider n = Auth_Api_Key) \<and>
     (st_auth_provider n = Auth_Api_Key \<longrightarrow> st_auth_api_keys n \<noteq> []) \<and>
     (st_job_queue n = Queue_Redis \<longrightarrow> st_redis_url n \<noteq> None) \<and> st_llm_timeout n \<le> st_llm_total_timeout n"
  by (cases "st_redis_url n"; cases "st_database_url n"; cases "st_ticket_store n"; cases "st_job_queue n")
    (simp_all add: settings_ok_def conj_ac)

lemma Settings_Inr: "Settings f raw = Inr s \<longleftrightarrow> s = normalise_raw raw \<and> settings_ok s"
proof (cases "field_errors (normalise_raw raw) = []")
  case True
  then have "Settings f raw = fold and_then
     [require_async_database_driver, redis_tickets_need_a_url, redis_rate_limiting_needs_a_url,
      scoped_authz_needs_authentication, api_key_auth_needs_keys, redis_backend_needs_a_url,
      total_timeout_covers_one_attempt f] (Inr (normalise_raw raw))"
    unfolding Settings_def Let_def by (simp only: simp_thms if_False)
  then have "Settings f raw = Inr s \<longleftrightarrow> s = normalise_raw raw \<and> settings_ok (normalise_raw raw)"
    by (simp only: validators_chain settings_ok_iff [OF True])
  then show ?thesis by metis
next
  case False
  then have "Settings f raw = Inl (ValidationError (field_errors (normalise_raw raw)))"
    unfolding Settings_def Let_def by (simp only: simp_thms if_True)
  moreover have "\<not> settings_ok (normalise_raw raw)" using False by (simp only: settings_ok_def simp_thms)
  ultimately show ?thesis by auto
qed

lemma field_Nil [simp]:
  "bad_field f m ok = [] \<longleftrightarrow> ok" "bounded_field f lo hi n = [] \<longleftrightarrow> lo \<le> n \<and> n \<le> hi"
  "unit_field f x = [] \<longleftrightarrow> 0 \<le> x \<and> x \<le> 1"
  by (auto simp: bad_field_def bounded_field_def unit_field_def)

lemma optional_unit_Nil:
  "(case t of None \<Rightarrow> [] | Some x \<Rightarrow> unit_field f x) = [] \<longleftrightarrow> (case t of None \<Rightarrow> True | Some x \<Rightarrow> 0 \<le> x \<and> x \<le> 1)"
  by (cases t) simp_all

lemma field_bounds:
  assumes "settings_ok s"
  shows "0 < st_llm_timeout s" "0 \<le> st_llm_max_retries s" "0 < st_llm_max_output_tokens s" "0 < st_llm_total_timeout s"
    "1 \<le> st_agent_max_steps s" "st_agent_max_steps s \<le> 50" "0 \<le> st_agent_max_tool_calls s" "st_agent_max_tool_calls s \<le> 100"
    "1 \<le> st_realtime_max_connections s" "1 \<le> st_rate_limit_requests s" "1 \<le> st_rate_limit_window s" "5 \<le> st_ticket_ttl s"
    "case st_llm_temperature s of None \<Rightarrow> True | Some t \<Rightarrow> 0 \<le> t \<and> t \<le> 1"
    "1 \<le> st_job_max_attempts s" "st_redis_namespace s \<noteq> []"
proof -
  have "field_errors s = []" using assms unfolding settings_ok_def by blast
  then have f: "0 < st_llm_timeout s \<and> 0 \<le> st_llm_max_retries s \<and> 0 < st_llm_max_output_tokens s \<and> 0 < st_llm_total_timeout s \<and>
    1 \<le> st_agent_max_steps s \<and> st_agent_max_steps s \<le> 50 \<and> 0 \<le> st_agent_max_tool_calls s \<and> st_agent_max_tool_calls s \<le> 100 \<and>
    1 \<le> st_realtime_max_connections s \<and> 1 \<le> st_rate_limit_requests s \<and> 1 \<le> st_rate_limit_window s \<and> 5 \<le> st_ticket_ttl s \<and>
    (case st_llm_temperature s of None \<Rightarrow> True | Some t \<Rightarrow> 0 \<le> t \<and> t \<le> 1) \<and> 1 \<le> st_job_max_attempts s \<and> st_redis_namespace s \<noteq> []"
    unfolding field_errors_def append_is_Nil_conv field_Nil optional_unit_Nil by blast
  then show "0 < st_llm_timeout s" "0 \<le> st_llm_max_retries s" "0 < st_llm_max_output_tokens s" "0 < st_llm_total_timeout s"
    "1 \<le> st_agent_max_steps s" "st_agent_max_steps s \<le> 50" "0 \<le> st_agent_max_tool_calls s" "st_agent_max_tool_calls s \<le> 100"
    "1 \<le> st_realtime_max_connections s" "1 \<le> st_rate_limit_requests s" "1 \<le> st_rate_limit_window s" "5 \<le> st_ticket_ttl s"
    "case st_llm_temperature s of None \<Rightarrow> True | Some t \<Rightarrow> 0 \<le> t \<and> t \<le> 1"
    "1 \<le> st_job_max_attempts s" "st_redis_namespace s \<noteq> []"
    by blast+
qed

lemma LLMConfig_settings:
  assumes "settings_ok s"
  shows "\<exists>c. config_from_settings s = Inr c \<and> lc_timeout c \<le> lc_total_timeout c \<and> 0 < lc_timeout c"
proof -
  note f = field_bounds [OF assms]
  have "st_llm_timeout s \<le> st_llm_total_timeout s" using assms by (simp add: settings_ok_def)
  with f show ?thesis
    by (auto simp: config_from_settings_def LLMConfig_def Let_def split: option.splits)
qed

lemma validate_limits_settings:
  "settings_ok s \<Longrightarrow> validate_limits (st_rate_limit_requests s) (st_rate_limit_window s) =
     Inr \<lparr>li_limit = st_rate_limit_requests s, li_window = st_rate_limit_window s\<rparr>"
  using field_bounds [of s] by (simp add: validate_limits_def)

text \<open>The keys of one Redis server under the namespaces the factories derive.\<close>

definition queue_keys :: "pystr \<Rightarrow> pystr set" where
  "queue_keys ns = {pending_key ns, processing_key ns, dead_key ns} \<union> range (job_key ns)"

definition limiter_keys :: "pystr \<Rightarrow> pystr set" where
  "limiter_keys ns = {counter_key ns k w | k w. True}"

lemma keys_apart:
  "queue_keys ns \<inter> range (ticket_key (ns @ str '':tickets'')) = {}"
  "queue_keys ns \<inter> limiter_keys (ns @ str '':ratelimit'') = {}"
  "range (ticket_key (ns @ str '':tickets'')) \<inter> limiter_keys (ns @ str '':ratelimit'') = {}"
  by (auto simp: queue_keys_def limiter_keys_def pending_key_def processing_key_def dead_key_def job_key_def
      ticket_key_def counter_key_def str_def)

subsection \<open>Properties\<close>


text \<open>The defaults of the class, here with a Redis server configured for all three uses.\<close>

definition default_settings :: raw_settings where
  "default_settings =
     \<lparr>st_api_prefix = str ''/api'', st_log_level = str ''INFO'', st_cors_origins = Raw_List [str ''http://localhost:5173''],
      st_llm_provider = LLM_Groq, st_llm_model = str ''openai/gpt-oss-120b'', st_llm_api_key = None, st_llm_timeout = 30,
      st_llm_max_retries = 1, st_llm_max_output_tokens = 4096, st_llm_total_timeout = 90, st_database_url = None,
      st_db_pool_size = 5, st_db_max_overflow = 10, st_embedding_provider = Embed_Fastembed, st_retrieval_top_k = 4,
      st_agent_max_steps = 6, st_agent_max_tool_calls = 8, st_job_queue = Queue_Memory, st_redis_url = None,
      st_redis_namespace = str ''nexaassist:jobs'', st_job_max_attempts = 3, st_realtime_max_connections = 100,
      st_realtime_max_message_bytes = 65536, st_llm_pricing = Raw_List [], st_auth_provider = Auth_None,
      st_auth_api_keys = Raw_List [], st_rate_limit_provider = Limit_None, st_rate_limit_requests = 60,
      st_rate_limit_window = 60, st_ticket_store = Store_Memory, st_ticket_ttl = 60, st_authz_provider = Authz_Open,
      st_routing_min_confidence = 1 / 2, st_llm_temperature = None\<rparr>"

definition redis_settings :: raw_settings where
  "redis_settings =
     default_settings\<lparr>st_redis_url := Some (str ''redis://h''), st_job_queue := Queue_Redis,
       st_rate_limit_provider := Limit_Redis, st_ticket_store := Store_Redis\<rparr>"

text \<open>One subject, and a key list entry without a separator.\<close>

definition keyed_settings :: "string \<Rightarrow> raw_settings" where
  "keyed_settings keys =
     default_settings\<lparr>st_auth_provider := Auth_Api_Key, st_authz_provider := Authz_Subject,
       st_auth_api_keys := Raw_List [str keys]\<rparr>"

lemmas sample_settings = default_settings_def redis_settings_def keyed_settings_def normalise_raw_def empty_to_none_def
  settings_ok_def field_errors_def bad_field_def bounded_field_def unit_field_def

lemma redis_settings_accepted: "Settings f redis_settings = Inr (normalise_raw redis_settings)"
  unfolding Settings_Inr by (simp add: sample_settings strip_defs isspace_def str_def)

lemma keyed_settings_accepted: "Settings f (keyed_settings keys) = Inr (normalise_raw (keyed_settings keys))"
  unfolding Settings_Inr by (simp add: sample_settings)


text \<open>
  Where resources are scoped, everybody is known. With accepted settings that scope by
  subject, an authenticator that could be built protects the service, refuses a request
  without a key, and gives only identities that came from a configured key; so no resource is
  shared under the anonymous subject because a key was missing.
\<close>

theorem scoped_settings_authenticate:
  assumes "Settings show_float raw = Inr s" "az_scopes (build_authorizer s)"
    and "build_authenticator (st_auth_provider s) (st_auth_api_keys s) = Inr a"
  shows "au_protects a \<and> au_authenticate a None = raise_app AuthenticationRequiredError None None \<and>
    (case au_authenticate a presented of
       Inr i \<Rightarrow> id_authenticated i \<and> id_kind i = Api_Key \<and>
         (\<exists>cs c. parse_credentials (st_auth_api_keys s) = Inr cs \<and> c \<in> set cs \<and> id_subject i = cr_subject c \<and>
            az_owner_for (build_authorizer s) i = Some (cr_subject c))
     | Inl _ \<Rightarrow> True)"
proof -
  have ok: "settings_ok s" using assms(1) unfolding Settings_Inr by blast
  have subj: "st_authz_provider s = Authz_Subject"
    using assms(2) by (cases "st_authz_provider s") (simp_all add: build_authorizer_def open_authorizer_def)
  with ok have key: "st_auth_provider s = Auth_Api_Key" by (simp add: settings_ok_def)
  obtain cs where cs: "parse_credentials (st_auth_api_keys s) = Inr cs" "ApiKeyAuthenticator cs = Inr a"
    using assms(3) key by (auto simp: build_authenticator_def split: sum.splits)
  then have a: "a = \<lparr>au_protects = True, au_authenticate = api_key_authenticate cs\<rparr>"
    by (auto simp: ApiKeyAuthenticator_def raise_app_def split: if_splits)
  have "\<exists>c. c \<in> set cs \<and> i = \<lparr>id_subject = cr_subject c, id_kind = Api_Key, id_authenticated = True\<rparr>"
    if "api_key_authenticate cs presented = Inr i" for i
  proof -
    from that obtain c where c: "match_loop (the presented) None cs = Inr (Some c)" "api_key_identity (cr_subject c) = Inr i"
      by (auto simp: api_key_authenticate_def match_credential_def raise_app_def split: option.splits list.splits sum.splits)
    have "match_loop p found ds = Inr (Some c) \<Longrightarrow> c \<in> set ds \<or> found = Some c" for p found ds
      by (induction ds arbitrary: found) (auto split: sum.splits if_splits)
    from this [OF c(1)] c(2) show ?thesis by (auto simp: api_key_identity_def split: if_splits)
  qed
  then have from_key: "id_authenticated i \<and> id_kind i = Api_Key \<and>
      (\<exists>cs c. parse_credentials (st_auth_api_keys s) = Inr cs \<and> c \<in> set cs \<and> id_subject i = cr_subject c \<and>
         az_owner_for (build_authorizer s) i = Some (cr_subject c))" if "api_key_authenticate cs presented = Inr i" for i
    using that cs(1) subj by (fastforce simp: build_authorizer_def subject_authorizer_def)
  have "api_key_authenticate cs None = raise_app AuthenticationRequiredError None None"
    by (simp add: api_key_authenticate_def)
  with from_key show ?thesis unfolding a authenticator.simps by (simp split: sum.split)
qed

lemma scoped_settings_authenticate_witness:
  "\<exists>a. build_authenticator Auth_Api_Key [str ''ann:s3cr3t-key-0123456''] = Inr a \<and> au_protects a"
proof -
  let ?s = "normalise_raw (keyed_settings ''ann:s3cr3t-key-0123456'')"
  have s: "st_auth_provider ?s = Auth_Api_Key" "st_auth_api_keys ?s = [str ''ann:s3cr3t-key-0123456'']" "az_scopes (build_authorizer ?s)"
    by (simp_all add: normalise_raw_def keyed_settings_def build_authorizer_def subject_authorizer_def)
  obtain a where a: "build_authenticator Auth_Api_Key [str ''ann:s3cr3t-key-0123456''] = Inr a"
    by (simp add: build_authenticator_def parse_credential_def str_def strip_defs isspace_def MIN_KEY_LENGTH_def ApiKeyAuthenticator_def)
  from scoped_settings_authenticate [OF keyed_settings_accepted [of "\<lambda>_. []"] s(3)] a show ?thesis by (simp add: s)
qed

text \<open>
  The three users of one Redis server never touch each other's keys, whatever job ids,
  tickets and subjects occur in them.
\<close>

theorem redis_users_apart:
  assumes "build_job_queue from_url s = Inr (Redis_Queue u1 ns1)" "build_ticket_store from_url s = Inr (Redis_Store u2 ns2 ttl)"
    and "build_rate_limiter from_url s = Inr (Redis_Limiter u3 l ns3)"
  shows "queue_keys ns1 \<inter> range (ticket_key ns2) = {} \<and> queue_keys ns1 \<inter> limiter_keys ns3 = {} \<and>
    range (ticket_key ns2) \<inter> limiter_keys ns3 = {}"
proof -
  have "ns1 = st_redis_namespace s"
    using assms(1) by (auto simp: build_job_queue_def and_then_Inr split: queue_choice.splits)
  moreover have "ns2 = st_redis_namespace s @ str '':tickets''"
    using assms(2) by (auto simp: build_ticket_store_def and_then_Inr split: store_choice.splits)
  moreover have "ns3 = st_redis_namespace s @ str '':ratelimit''"
    using assms(3) by (auto simp: build_rate_limiter_def and_then_Inr raise_app_def split: limiter_choice.splits option.splits)
  ultimately show ?thesis using keys_apart [of ns1] by simp
qed

lemma redis_users_apart_witness:
  "queue_keys (str ''nexaassist:jobs'') \<inter> range (ticket_key (str ''nexaassist:jobs'' @ str '':tickets'')) = {}"
proof -
  let ?s = "normalise_raw redis_settings"
  have "settings_ok ?s" using redis_settings_accepted Settings_Inr by blast
  moreover have "st_job_queue ?s = Queue_Redis" "st_ticket_store ?s = Store_Redis" "st_rate_limit_provider ?s = Limit_Redis"
    "st_redis_url ?s = Some (str ''redis://h'')" "st_redis_namespace ?s = str ''nexaassist:jobs''"
    by (simp_all add: normalise_raw_def redis_settings_def default_settings_def empty_to_none_def strip_defs isspace_def str_def)
  ultimately have "build_job_queue (\<lambda>_. Inr ()) ?s = Inr (Redis_Queue (str ''redis://h'') (str ''nexaassist:jobs''))"
    "build_ticket_store (\<lambda>_. Inr ()) ?s =
       Inr (Redis_Store (str ''redis://h'') (str ''nexaassist:jobs'' @ str '':tickets'') (of_int (st_ticket_ttl ?s)))"
    "build_rate_limiter (\<lambda>_. Inr ()) ?s = Inr (Redis_Limiter (str ''redis://h'')
       \<lparr>li_limit = st_rate_limit_requests ?s, li_window = st_rate_limit_window ?s\<rparr> (str ''nexaassist:jobs'' @ str '':ratelimit''))"
    by (simp_all add: build_job_queue_def build_ticket_store_def build_rate_limiter_def assert_url_def validate_limits_settings)
  from redis_users_apart [OF this] show ?thesis by blast
qed

text \<open>
  Entries nobody can read pass the validation: the keys and the prices are parsed by the
  factories, on the first request that needs them.
\<close>

lemma malformed_keys_are_accepted:
  "\<exists>s. Settings f (keyed_settings ''no-separator'') = Inr s \<and>
     (\<exists>e. build_authenticator (st_auth_provider s) (st_auth_api_keys s) = Inl e)"
proof (intro exI conjI)
  let ?s = "normalise_raw (keyed_settings ''no-separator'')"
  show "Settings f (keyed_settings ''no-separator'') = Inr ?s" by (rule keyed_settings_accepted)
  have "parse_credentials [str ''no-separator''] = raise_app AuthenticationConfigurationError
             (Some (str ''A key entry must be 'subject:secret'.''))
             (Some [(str ''reason'', PStr (str ''malformed_entry''))])"
    by (simp add: parse_credential_def raise_app_def str_def strip_defs isspace_def)
  then show "build_authenticator (st_auth_provider ?s) (st_auth_api_keys ?s) = Inl (App (new_error AuthenticationConfigurationError
             (Some (str ''A key entry must be 'subject:secret'.''))
             (Some [(str ''reason'', PStr (str ''malformed_entry''))])))"
    by (simp add: normalise_raw_def keyed_settings_def build_authenticator_def raise_app_def)
qed

text \<open>A URL without a scheme is quoted in full by the message that means to quote the scheme only.\<close>

lemma schemeless_url_is_quoted:
  "require_async_database_driver (normalise_raw (default_settings\<lparr>st_database_url := Some (str ''user:pw@host/db'')\<rparr>)) =
   invalid_settings (str ''DATABASE_URL must use the postgresql+asyncpg driver, got '' @ repr_str (str ''user:pw@host/db'') @ str ''.'')"
  by (simp add: require_async_database_driver_def normalise_raw_def empty_to_none_def default_settings_def strip_defs
      isspace_def str_def prefix_def)

end
