(* ===== verification/Tickets.thy ===== *)
theory Tickets
  imports Auth Documents
begin

text \<open>
  \<open>services/ticket.py\<close> and \<open>services/customer.py\<close> with the tables of \<open>models/ticket.py\<close> and
  \<open>models/customer.py\<close>. The state is what is committed. Ids and timestamps are given by the
  database, so they are arguments; \<open>pg_lower\<close> is the \<open>lower\<close> of the database's collation,
  which need not be Python's. The race of two first contacts is a step relation over requests
  that each hold their own uncommitted rows.
\<close>

subsection \<open>Tables\<close>

datatype ticket_status = TS_OPEN | TS_PENDING | TS_RESOLVED | TS_CLOSED

fun ticket_status_value :: "ticket_status \<Rightarrow> pystr" where
  "ticket_status_value TS_OPEN = str ''open''"
| "ticket_status_value TS_PENDING = str ''pending''"
| "ticket_status_value TS_RESOLVED = str ''resolved''"
| "ticket_status_value TS_CLOSED = str ''closed''"

record customer =
  cu_id :: pystr
  cu_email :: pystr

record ticket =
  tk_id :: pystr
  tk_customer :: pystr
  tk_owner :: "pystr option"
  tk_subject :: pystr
  tk_body :: pystr
  tk_status :: ticket_status
  tk_created :: rat

record ticket_db =
  td_customers :: "customer list"
  td_tickets :: "ticket list"

text \<open>
  What a flush checks: first the widths of the columns, an error of the driver, then the
  checks, keys and foreign keys of the table. \<open>rows\<close> are the rows the transaction sees.
\<close>

definition EMAIL_WIDTH :: nat where
  "EMAIL_WIDTH = 320"

definition SUBJECT_WIDTH :: nat where
  "SUBJECT_WIDTH = 200"

definition insert_customer :: "(pystr \<Rightarrow> pystr) \<Rightarrow> pystr \<Rightarrow> pystr \<Rightarrow> customer list \<Rightarrow> customer result" where
  "insert_customer pg_lower new_id email rows =
     (if EMAIL_WIDTH < length email then Inl (SQLAlchemyError (str ''DBAPIError''))
      else if pg_lower email \<noteq> email \<or> blank email \<or> new_id \<in> cu_id ` set rows \<or> email \<in> cu_email ` set rows
      then Inl IntegrityError
      else Inr \<lparr>cu_id = new_id, cu_email = email\<rparr>)"

definition insert_ticket :: "ticket \<Rightarrow> customer list \<Rightarrow> ticket list \<Rightarrow> ticket result" where
  "insert_ticket t customers rows =
     (if SUBJECT_WIDTH < length (tk_subject t) \<or> (case tk_owner t of None \<Rightarrow> False | Some s \<Rightarrow> SUBJECT_WIDTH < length s)
      then Inl (SQLAlchemyError (str ''DBAPIError''))
      else if blank (tk_subject t) \<or> blank (tk_body t) \<or> tk_id t \<in> tk_id ` set rows \<or>
              tk_customer t \<notin> cu_id ` set customers
      then Inl IntegrityError
      else Inr t)"

subsection \<open>Customers\<close>

definition normalise_email :: "pystr \<Rightarrow> pystr" where
  "normalise_email email = lower (strip email)"

definition find_customer :: "pystr \<Rightarrow> customer list \<Rightarrow> customer option" where
  "find_customer email rows = List.find (\<lambda>c. cu_email c = email) rows"

text \<open>
  \<open>_get_or_create_customer\<close> on one transaction's view; the SAVEPOINT keeps the view when the
  insert fails.
\<close>

definition get_or_create_customer ::
  "(pystr \<Rightarrow> pystr) \<Rightarrow> pystr \<Rightarrow> pystr \<Rightarrow> customer list \<Rightarrow> customer result \<times> customer list" where
  "get_or_create_customer pg_lower new_id email rows =
     (case find_customer email rows of
        Some c \<Rightarrow> (Inr c, rows)
      | None \<Rightarrow>
          (case insert_customer pg_lower new_id email rows of
             Inr c \<Rightarrow> (Inr c, rows @ [c])
           | Inl IntegrityError \<Rightarrow>
               (case find_customer email rows of
                  None \<Rightarrow> (Inl IntegrityError, rows)
                | Some winner \<Rightarrow> (Inr winner, rows))
           | Inl e \<Rightarrow> (Inl e, rows)))"

text \<open>\<open>CustomerService.get_or_create\<close> commits what it inserted.\<close>

definition customer_for ::
  "(pystr \<Rightarrow> pystr) \<Rightarrow> pystr \<Rightarrow> pystr \<Rightarrow> ticket_db \<Rightarrow> customer result \<times> ticket_db" where
  "customer_for pg_lower new_id email db =
     (case get_or_create_customer pg_lower new_id (normalise_email email) (td_customers db) of
        (Inl e, _) \<Rightarrow> (Inl e, db)
      | (Inr c, rows) \<Rightarrow> (Inr c, db\<lparr>td_customers := rows\<rparr>))"

subsection \<open>Tickets\<close>

definition new_ticket :: "pystr \<Rightarrow> rat \<Rightarrow> pystr \<Rightarrow> pystr \<Rightarrow> pystr \<Rightarrow> pystr option \<Rightarrow> ticket" where
  "new_ticket new_id now customer subject body owner =
     \<lparr>tk_id = new_id, tk_customer = customer, tk_owner = owner, tk_subject = subject, tk_body = body,
      tk_status = TS_OPEN, tk_created = now\<rparr>"

text \<open>One transaction: when anything of it fails, its session is rolled back.\<close>

definition create_ticket ::
  "(pystr \<Rightarrow> pystr) \<Rightarrow> pystr \<Rightarrow> pystr \<Rightarrow> rat \<Rightarrow> pystr \<Rightarrow> pystr \<Rightarrow> pystr \<Rightarrow> pystr option \<Rightarrow> ticket_db \<Rightarrow>
   ticket result \<times> ticket_db" where
  "create_ticket pg_lower customer_id ticket_id now customer_email subject body owner db =
     (case get_or_create_customer pg_lower customer_id (normalise_email customer_email) (td_customers db) of
        (Inl e, _) \<Rightarrow> (Inl e, db)
      | (Inr c, rows) \<Rightarrow>
          (case insert_ticket (new_ticket ticket_id now (cu_id c) subject body owner) rows (td_tickets db) of
             Inl e \<Rightarrow> (Inl e, db)
           | Inr t \<Rightarrow> (Inr t, db\<lparr>td_customers := rows, td_tickets := td_tickets db @ [t]\<rparr>)))"

definition ticket_missing :: "pystr \<Rightarrow> 'a result" where
  "ticket_missing ticket_id =
     raise_app TicketNotFoundError None (Some [(str ''ticket_id'', PStr ticket_id)])"

definition get_ticket :: "pystr \<Rightarrow> pystr option \<Rightarrow> ticket_db \<Rightarrow> ticket result" where
  "get_ticket ticket_id scope db =
     (case List.find (\<lambda>t. tk_id t = ticket_id) (td_tickets db) of
        None \<Rightarrow> ticket_missing ticket_id
      | Some t \<Rightarrow> if permitted scope (tk_owner t) then Inr t else ticket_missing ticket_id)"

definition DEFAULT_PAGE_SIZE :: int where
  "DEFAULT_PAGE_SIZE = 20"

definition MAX_PAGE_SIZE :: int where
  "MAX_PAGE_SIZE = 100"

text \<open>The row a listing's conditions select; \<open>NULL = x\<close> selects nothing.\<close>

definition listed :: "ticket_status option \<Rightarrow> pystr option \<Rightarrow> ticket \<Rightarrow> bool" where
  "listed status scope t \<longleftrightarrow>
     (case status of None \<Rightarrow> True | Some s \<Rightarrow> tk_status t = s) \<and>
     (case scope of None \<Rightarrow> True | Some subject \<Rightarrow> tk_owner t = Some subject)"

definition ticket_order :: "ticket \<Rightarrow> rat \<times> pystr" where
  "ticket_order t = (tk_created t, tk_id t)"

definition list_tickets ::
  "ticket_status option \<Rightarrow> int \<Rightarrow> int \<Rightarrow> pystr option \<Rightarrow> ticket_db \<Rightarrow> ticket list result" where
  "list_tickets status limit offset scope db =
     page_of (min limit MAX_PAGE_SIZE) offset
       (newest_first ticket_order (filter (listed status scope) (td_tickets db)))"


subsection \<open>Racing first contacts\<close>

text \<open>
  A request of either service: \<open>rq_work\<close> is the ticket to create, \<open>None\<close> for
  \<open>CustomerService.get_or_create\<close>. It sees what is committed and its own rows. An insert waits
  while another transaction holds a row with the same key, which is how the unique index
  behaves; so the step is only taken when none does. The flush of a ticket and the commit are
  one step: nothing of another request depends on the state between them. Any step may
  instead fail, a lost connection or a cancelled request, and then the transaction is gone.
\<close>

datatype phase =
    Looking
  | Inserting
  | Rereading
  | Ready customer
  | Finished "(customer \<times> ticket option) result"

record request =
  rq_email :: pystr
  rq_work :: "(pystr \<times> pystr \<times> pystr option) option"
  rq_phase :: phase
  rq_rows :: "customer list"

definition request_for :: "pystr \<Rightarrow> (pystr \<times> pystr \<times> pystr option) option \<Rightarrow> request" where
  "request_for email work =
     \<lparr>rq_email = normalise_email email, rq_work = work, rq_phase = Looking, rq_rows = []\<rparr>"

definition visible :: "ticket_db \<Rightarrow> request \<Rightarrow> customer list" where
  "visible db r = td_customers db @ rq_rows r"

definition fail_request :: "exn \<Rightarrow> request \<Rightarrow> request" where
  "fail_request e r = r\<lparr>rq_phase := Finished (Inl e), rq_rows := []\<rparr>"

definition look :: "ticket_db \<Rightarrow> request \<Rightarrow> request" where
  "look db r =
     r\<lparr>rq_phase := (case find_customer (rq_email r) (visible db r) of None \<Rightarrow> Inserting | Some c \<Rightarrow> Ready c)\<rparr>"

definition insert_row :: "(pystr \<Rightarrow> pystr) \<Rightarrow> pystr \<Rightarrow> ticket_db \<Rightarrow> request \<Rightarrow> request" where
  "insert_row pg_lower new_id db r =
     (case insert_customer pg_lower new_id (rq_email r) (visible db r) of
        Inr c \<Rightarrow> r\<lparr>rq_phase := Ready c, rq_rows := rq_rows r @ [c]\<rparr>
      | Inl IntegrityError \<Rightarrow> r\<lparr>rq_phase := Rereading\<rparr>
      | Inl e \<Rightarrow> fail_request e r)"

definition reread :: "ticket_db \<Rightarrow> request \<Rightarrow> request" where
  "reread db r =
     (case find_customer (rq_email r) (visible db r) of
        None \<Rightarrow> fail_request IntegrityError r
      | Some winner \<Rightarrow> r\<lparr>rq_phase := Ready winner\<rparr>)"

definition finish_request :: "pystr \<Rightarrow> rat \<Rightarrow> customer \<Rightarrow> ticket_db \<Rightarrow> request \<Rightarrow> ticket_db \<times> request" where
  "finish_request ticket_id now c db r =
     (case rq_work r of
        None \<Rightarrow>
          (db\<lparr>td_customers := visible db r\<rparr>, r\<lparr>rq_phase := Finished (Inr (c, None)), rq_rows := []\<rparr>)
      | Some (subject, body, owner) \<Rightarrow>
          (case insert_ticket (new_ticket ticket_id now (cu_id c) subject body owner) (visible db r) (td_tickets db) of
             Inl e \<Rightarrow> (db, fail_request e r)
           | Inr t \<Rightarrow>
               (db\<lparr>td_customers := visible db r, td_tickets := td_tickets db @ [t]\<rparr>,
                r\<lparr>rq_phase := Finished (Inr (c, Some t)), rq_rows := []\<rparr>)))"

fun unfinished :: "phase \<Rightarrow> bool" where
  "unfinished (Finished _) = False"
| "unfinished _ = True"

definition email_held :: "pystr \<Rightarrow> request list \<Rightarrow> bool" where
  "email_held email rs \<longleftrightarrow> list_ex (\<lambda>r. email \<in> cu_email ` set (rq_rows r)) rs"

definition uncommitted :: "request list \<Rightarrow> customer list" where
  "uncommitted rs = concat (map rq_rows rs)"

text \<open>The steps of the requests there are; ids come from \<open>gen_random_uuid\<close> and are new.\<close>

inductive progress_step ::
  "(pystr \<Rightarrow> pystr) \<Rightarrow> ticket_db \<times> request list \<Rightarrow> ticket_db \<times> request list \<Rightarrow> bool" for pg_lower where
  looked: "rq_phase r = Looking \<Longrightarrow>
    progress_step pg_lower (db, before @ r # after) (db, before @ look db r # after)"
| inserted: "rq_phase r = Inserting \<Longrightarrow> \<not> email_held (rq_email r) (before @ after) \<Longrightarrow>
    new_id \<notin> cu_id ` set (td_customers db @ uncommitted (before @ r # after)) \<Longrightarrow>
    progress_step pg_lower (db, before @ r # after) (db, before @ insert_row pg_lower new_id db r # after)"
| reread: "rq_phase r = Rereading \<Longrightarrow>
    progress_step pg_lower (db, before @ r # after) (db, before @ reread db r # after)"
| finished: "rq_phase r = Ready c \<Longrightarrow> finish_request ticket_id now c db r = (db', r') \<Longrightarrow>
    progress_step pg_lower (db, before @ r # after) (db', before @ r' # after)"

inductive race_step ::
  "(pystr \<Rightarrow> pystr) \<Rightarrow> ticket_db \<times> request list \<Rightarrow> ticket_db \<times> request list \<Rightarrow> bool" for pg_lower where
  arrive: "race_step pg_lower (db, rs) (db, request_for email work # rs)"
| progress: "progress_step pg_lower s s' \<Longrightarrow> race_step pg_lower s s'"
| lost: "unfinished (rq_phase r) \<Longrightarrow>
    race_step pg_lower (db, before @ r # after) (db, before @ fail_request e r # after)"

inductive_cases progress_stepE: "progress_step pg_lower (db, rs) (db', rs')"
inductive_cases race_stepE: "race_step pg_lower (db, rs) (db', rs')"

subsection \<open>Lemmas on the race\<close>

lemma find_customer_Some: "find_customer email rows = Some c \<Longrightarrow> c \<in> set rows \<and> cu_email c = email"
  by (auto simp: find_customer_def find_Some_iff)

lemma find_customer_None: "find_customer email rows = None \<longleftrightarrow> email \<notin> cu_email ` set rows"
  by (auto simp: find_customer_def find_None_iff)

lemma insert_customer_Inr:
  "insert_customer pg_lower new_id email rows = Inr c \<Longrightarrow>
   c = \<lparr>cu_id = new_id, cu_email = email\<rparr> \<and> email \<notin> cu_email ` set rows \<and> new_id \<notin> cu_id ` set rows \<and>
   pg_lower email = email \<and> \<not> blank email"
  by (simp add: insert_customer_def split: if_splits)

lemma insert_ticket_Inr:
  "insert_ticket t customers rows = Inr t' \<Longrightarrow>
   t' = t \<and> tk_customer t \<in> cu_id ` set customers \<and> tk_id t \<notin> tk_id ` set rows \<and> \<not> blank (tk_subject t) \<and> \<not> blank (tk_body t)"
  by (simp add: insert_ticket_def split: if_splits)

text \<open>An address the checks of the table accept.\<close>

definition address_ok :: "(pystr \<Rightarrow> pystr) \<Rightarrow> pystr \<Rightarrow> bool" where
  "address_ok pg_lower email \<longleftrightarrow> pg_lower email = email \<and> \<not> blank email"

text \<open>What holds of one request against the committed rows.\<close>

fun phase_ok :: "(pystr \<Rightarrow> pystr) \<Rightarrow> ticket_db \<Rightarrow> pystr \<Rightarrow> customer list \<Rightarrow> phase \<Rightarrow> bool" where
  "phase_ok pg_lower db email rows Looking \<longleftrightarrow> rows = []"
| "phase_ok pg_lower db email rows Inserting \<longleftrightarrow> rows = []"
| "phase_ok pg_lower db email rows Rereading \<longleftrightarrow> rows = [] \<and>
     (address_ok pg_lower email \<longrightarrow> email \<in> cu_email ` set (td_customers db))"
| "phase_ok pg_lower db email rows (Ready c) \<longleftrightarrow> c \<in> set (td_customers db @ rows) \<and> cu_email c = email \<and>
     set rows \<subseteq> {c}"
| "phase_ok pg_lower db email rows (Finished (Inl e)) \<longleftrightarrow> rows = []"
| "phase_ok pg_lower db email rows (Finished (Inr (c, work))) \<longleftrightarrow> rows = [] \<and> c \<in> set (td_customers db) \<and>
     cu_email c = email \<and>
     (case work of None \<Rightarrow> True | Some t \<Rightarrow> t \<in> set (td_tickets db) \<and> tk_customer t = cu_id c)"

definition ticket_db_ok :: "ticket_db \<Rightarrow> bool" where
  "ticket_db_ok db \<longleftrightarrow> distinct (map cu_email (td_customers db)) \<and> distinct (map cu_id (td_customers db)) \<and>
     distinct (map tk_id (td_tickets db)) \<and>
     tk_customer ` set (td_tickets db) \<subseteq> cu_id ` set (td_customers db)"

definition race_ok :: "(pystr \<Rightarrow> pystr) \<Rightarrow> ticket_db \<times> request list \<Rightarrow> bool" where
  "race_ok pg_lower s \<longleftrightarrow> (case s of (db, rs) \<Rightarrow>
     ticket_db_ok db \<and>
     distinct (map cu_email (td_customers db @ uncommitted rs)) \<and>
     distinct (map cu_id (td_customers db @ uncommitted rs)) \<and>
     list_all (\<lambda>r. phase_ok pg_lower db (rq_email r) (rq_rows r) (rq_phase r)) rs)"


lemma distinct_map_subseteq:
  assumes "mset xs \<subseteq># mset ys" "distinct (map f ys)"
  shows "distinct (map f xs)"
proof -
  obtain zs where "mset ys = mset (xs @ zs)"
    using assms(1) by (metis ex_mset mset_append subset_mset.add_diff_inverse)
  then have "mset (map f ys) = mset (map f (xs @ zs))" by (metis mset_map)
  then have "distinct (map f (xs @ zs))" using assms(2) mset_eq_imp_distinct_iff by blast
  then show ?thesis by simp
qed

lemma uncommitted_split [simp]: "uncommitted (before @ r # after) = uncommitted before @ rq_rows r @ uncommitted after"
  "uncommitted (before @ after) = uncommitted before @ uncommitted after"
  "uncommitted (r # after) = rq_rows r @ uncommitted after"
  by (simp_all add: uncommitted_def)

lemma phase_ok_mono:
  assumes "phase_ok pg_lower db email rows ph" "set (td_customers db) \<subseteq> set (td_customers db')"
    and "set (td_tickets db) \<subseteq> set (td_tickets db')"
  shows "phase_ok pg_lower db' email rows ph"
  using assms by (cases "(pg_lower, db, email, rows, ph)" rule: phase_ok.cases) (auto split: option.splits)

lemma not_email_held: "\<not> email_held email rs \<longleftrightarrow> email \<notin> cu_email ` set (uncommitted rs)"
  by (auto simp: email_held_def uncommitted_def list_ex_iff)

text \<open>One request moves on; the others only see the tables grow.\<close>

lemma race_ok_move:
  assumes "race_ok pg_lower (db, before @ r # after)" "ticket_db_ok db'"
    and "set (td_customers db) \<subseteq> set (td_customers db')" "set (td_tickets db) \<subseteq> set (td_tickets db')"
    and "mset (td_customers db' @ rq_rows r') \<subseteq># mset (td_customers db @ rq_rows r)"
    and "phase_ok pg_lower db' (rq_email r') (rq_rows r') (rq_phase r')"
  shows "race_ok pg_lower (db', before @ r' # after)"
proof -
  have sub: "mset (td_customers db' @ uncommitted (before @ r' # after)) \<subseteq>#
      mset (td_customers db @ uncommitted (before @ r # after))"
    using subset_mset.add_right_mono [OF assms(5), of "mset (uncommitted before @ uncommitted after)"]
    by (simp add: ac_simps)
  note d = distinct_map_subseteq [OF sub]
  show ?thesis
    unfolding race_ok_def prod.case
  proof (intro conjI d assms(2))
    have mono: "list_all (\<lambda>q. phase_ok pg_lower db' (rq_email q) (rq_rows q) (rq_phase q)) rs"
      if "list_all (\<lambda>q. phase_ok pg_lower db (rq_email q) (rq_rows q) (rq_phase q)) rs" for rs
      using that by (rule list.pred_mono_strong) (rule phase_ok_mono [OF _ assms(3,4)])
    have "list_all (\<lambda>q. phase_ok pg_lower db (rq_email q) (rq_rows q) (rq_phase q)) (before @ after)"
      using assms(1) by (simp add: race_ok_def)
    from mono [OF this] assms(6)
    show "list_all (\<lambda>q. phase_ok pg_lower db' (rq_email q) (rq_rows q) (rq_phase q)) (before @ r' # after)"
      by simp
  qed (use assms(1) in \<open>simp_all only: race_ok_def prod.case\<close>)
qed

lemma look_ok:
  assumes "race_ok pg_lower (db, before @ r # after)" "rq_phase r = Looking"
  shows "race_ok pg_lower (db, before @ look db r # after)"
proof (rule race_ok_move [OF assms(1)])
  show "phase_ok pg_lower db (rq_email (look db r)) (rq_rows (look db r)) (rq_phase (look db r))"
    using assms by (auto simp: race_ok_def look_def visible_def split: option.splits dest!: find_customer_Some)
qed (use assms(1) in \<open>simp_all add: race_ok_def look_def\<close>)

lemma reread_ok:
  assumes "race_ok pg_lower (db, before @ r # after)" "rq_phase r = Rereading"
  shows "race_ok pg_lower (db, before @ reread db r # after)"
proof (rule race_ok_move [OF assms(1)])
  show "phase_ok pg_lower db (rq_email (reread db r)) (rq_rows (reread db r)) (rq_phase (reread db r))"
    using assms by (auto simp: race_ok_def reread_def fail_request_def visible_def split: option.splits dest!: find_customer_Some)
qed (use assms(1) in \<open>simp_all add: race_ok_def reread_def fail_request_def split: option.splits\<close>)

lemma fail_request_ok:
  assumes "race_ok pg_lower (db, before @ r # after)"
  shows "race_ok pg_lower (db, before @ fail_request e r # after)"
  by (rule race_ok_move [OF assms]) (use assms in \<open>simp_all add: race_ok_def fail_request_def\<close>)

lemma insert_row_cases:
  "insert_row pg_lower new_id db r = fail_request (SQLAlchemyError (str ''DBAPIError'')) r \<or>
   insert_row pg_lower new_id db r = r\<lparr>rq_phase := Rereading\<rparr> \<and>
     (address_ok pg_lower (rq_email r) \<longrightarrow> rq_email r \<in> cu_email ` set (visible db r) \<or> new_id \<in> cu_id ` set (visible db r)) \<or>
   insert_row pg_lower new_id db r =
     r\<lparr>rq_phase := Ready \<lparr>cu_id = new_id, cu_email = rq_email r\<rparr>,
       rq_rows := rq_rows r @ [\<lparr>cu_id = new_id, cu_email = rq_email r\<rparr>]\<rparr> \<and>
     rq_email r \<notin> cu_email ` set (visible db r)"
  by (auto simp: insert_row_def insert_customer_def address_ok_def)

lemma insert_row_ok:
  assumes ok: "race_ok pg_lower (db, before @ r # after)" and "rq_phase r = Inserting"
    and free: "\<not> email_held (rq_email r) (before @ after)"
    and new: "new_id \<notin> cu_id ` set (td_customers db @ uncommitted (before @ r # after))"
  shows "race_ok pg_lower (db, before @ insert_row pg_lower new_id db r # after)"
proof -
  have rows: "rq_rows r = []" using ok assms(2) by (auto simp: race_ok_def)
  let ?c = "\<lparr>cu_id = new_id, cu_email = rq_email r\<rparr>"
  consider (failed) "insert_row pg_lower new_id db r = fail_request (SQLAlchemyError (str ''DBAPIError'')) r"
    | (raced) "insert_row pg_lower new_id db r = r\<lparr>rq_phase := Rereading\<rparr>"
        "address_ok pg_lower (rq_email r) \<longrightarrow> rq_email r \<in> cu_email ` set (td_customers db)"
    | (won) "insert_row pg_lower new_id db r = r\<lparr>rq_phase := Ready ?c, rq_rows := [?c]\<rparr>"
        "rq_email r \<notin> cu_email ` set (td_customers db)"
    using insert_row_cases [of pg_lower new_id db r] new by (auto simp: rows visible_def)
  then show ?thesis
  proof cases
    case failed
    with fail_request_ok [OF ok] show ?thesis by simp
  next
    case raced
    show ?thesis
      by (rule race_ok_move [OF ok]) (use ok raced rows in \<open>simp_all add: race_ok_def\<close>)
  next
    case won
    from ok free new won(2) rows show ?thesis
      unfolding won(1) race_ok_def not_email_held by auto
  qed
qed

lemma finish_request_ok:
  assumes ok: "race_ok pg_lower (db, before @ r # after)" and ready: "rq_phase r = Ready c"
    and step: "finish_request ticket_id now c db r = (db', r')"
  shows "race_ok pg_lower (db', before @ r' # after)"
proof -
  have c: "c \<in> set (td_customers db @ rq_rows r)" "cu_email c = rq_email r"
    and db: "ticket_db_ok db"
    and d: "distinct (map cu_email (td_customers db @ uncommitted (before @ r # after)))"
      "distinct (map cu_id (td_customers db @ uncommitted (before @ r # after)))"
    using ok ready by (auto simp: race_ok_def)
  have d': "distinct (map cu_email (td_customers db @ rq_rows r))" "distinct (map cu_id (td_customers db @ rq_rows r))"
    using d by auto
  show ?thesis
  proof (cases "rq_work r")
    case None
    with step have new: "db' = db\<lparr>td_customers := visible db r\<rparr>"
      "r' = r\<lparr>rq_phase := Finished (Inr (c, None)), rq_rows := []\<rparr>" by (auto simp: finish_request_def)
    show ?thesis
      by (rule race_ok_move [OF ok]) (use new c db d' in \<open>auto simp: visible_def ticket_db_ok_def\<close>)
  next
    case (Some w)
    obtain subject body owner where w: "w = (subject, body, owner)" by (cases w)
    let ?t = "new_ticket ticket_id now (cu_id c) subject body owner"
    show ?thesis
    proof (cases "insert_ticket ?t (visible db r) (td_tickets db)")
      case (Inl e)
      with step Some w have "db' = db" "r' = fail_request e r" by (auto simp: finish_request_def)
      with fail_request_ok [OF ok] show ?thesis by simp
    next
      case (Inr t)
      note t = insert_ticket_Inr [OF Inr]
      from step Some w Inr have new: "db' = db\<lparr>td_customers := visible db r, td_tickets := td_tickets db @ [?t]\<rparr>"
        "r' = r\<lparr>rq_phase := Finished (Inr (c, Some ?t)), rq_rows := []\<rparr>" using t by (auto simp: finish_request_def)
      show ?thesis
        by (rule race_ok_move [OF ok])
          (use new c db d' t in \<open>auto simp: visible_def ticket_db_ok_def new_ticket_def\<close>)
    qed
  qed
qed

lemma progress_step_ok: "progress_step pg_lower s s' \<Longrightarrow> race_ok pg_lower s \<Longrightarrow> race_ok pg_lower s'"
  by (induction rule: progress_step.induct) (auto intro: look_ok insert_row_ok reread_ok finish_request_ok)

lemma race_step_ok: "race_step pg_lower s s' \<Longrightarrow> race_ok pg_lower s \<Longrightarrow> race_ok pg_lower s'"
proof (induction rule: race_step.induct)
  case (arrive db rs email work)
  then show ?case by (simp add: race_ok_def request_for_def)
qed (auto intro: progress_step_ok fail_request_ok)

lemma race_steps_ok:
  assumes "(race_step pg_lower)\<^sup>*\<^sup>* s s'" "race_ok pg_lower s"
  shows "race_ok pg_lower s'"
  using assms by (induction rule: rtranclp_induct) (auto intro: race_step_ok)


text \<open>How far the requests still have to go: at most four steps each.\<close>

fun phase_rank :: "phase \<Rightarrow> nat" where
  "phase_rank Looking = 4"
| "phase_rank Inserting = 3"
| "phase_rank Rereading = 2"
| "phase_rank (Ready _) = 1"
| "phase_rank (Finished _) = 0"

definition race_work :: "ticket_db \<times> request list \<Rightarrow> nat" where
  "race_work s = sum_list (map (\<lambda>r. phase_rank (rq_phase r)) (snd s))"

lemma finish_request_phase:
  "finish_request ticket_id now c db r = (db', r') \<Longrightarrow> phase_rank (rq_phase r') = 0"
  by (auto simp: finish_request_def fail_request_def split: option.splits prod.splits sum.splits)

lemma progress_step_work: "progress_step pg_lower s s' \<Longrightarrow> race_work s' < race_work s"
proof (induction rule: progress_step.induct)
  case (inserted r before after new_id db)
  with insert_row_cases [of pg_lower new_id db r] show ?case
    by (auto simp: race_work_def fail_request_def)
qed (auto simp: race_work_def look_def reread_def fail_request_def finish_request_phase split: option.splits)

lemma progress_bounded: "(progress_step pg_lower ^^ n) s s' \<Longrightarrow> n + race_work s' \<le> race_work s"
proof (induction n arbitrary: s')
  case (Suc n)
  then obtain s1 where s1: "(progress_step pg_lower ^^ n) s s1" "progress_step pg_lower s1 s'" by auto
  from Suc.IH [OF s1(1)] progress_step_work [OF s1(2)] show ?case by simp
qed simp

lemma race_work_bound: "race_work s \<le> 4 * length (snd s)"
proof -
  have "phase_rank ph \<le> 4" for ph by (cases ph) auto
  then have "sum_list (map (\<lambda>r. phase_rank (rq_phase r)) rs) \<le> 4 * length rs" for rs
    by (induction rs) (auto simp: add_mono)
  then show ?thesis by (simp add: race_work_def)
qed

lemma fresh_text: "\<exists>i :: pystr. i \<notin> set is"
  by (rule ex_new_if_finite) (simp_all add: infinite_UNIV_listI)

text \<open>An insert that has to wait waits for a request that is ready to finish.\<close>

lemma holder_ready:
  assumes "race_ok pg_lower (db, rs)" "q \<in> set rs" "rq_rows q \<noteq> []"
  shows "\<exists>c. rq_phase q = Ready c"
proof -
  from assms(1,2) have "phase_ok pg_lower db (rq_email q) (rq_rows q) (rq_phase q)"
    by (auto simp: race_ok_def list_all_iff)
  with assms(3) show ?thesis
    by (cases "(pg_lower, db, rq_email q, rq_rows q, rq_phase q)" rule: phase_ok.cases) auto
qed

lemma ready_progress:
  assumes "q \<in> set rs" "rq_phase q = Ready c"
  shows "\<exists>s'. progress_step pg_lower (db, rs) s'"
proof -
  from assms(1) obtain before after where rs: "rs = before @ q # after" by (auto simp: in_set_conv_decomp)
  obtain db' r' where "finish_request ticket_id now c db q = (db', r')" by force
  from progress_step.finished [OF assms(2) this] show ?thesis unfolding rs by blast
qed

lemma progress_possible:
  assumes ok: "race_ok pg_lower (db, rs)" and r: "r \<in> set rs" "unfinished (rq_phase r)"
  shows "\<exists>s'. progress_step pg_lower (db, rs) s'"
proof -
  from r(1) obtain before after where rs: "rs = before @ r # after" by (auto simp: in_set_conv_decomp)
  show ?thesis
  proof (cases "rq_phase r")
    case Looking
    from progress_step.looked [OF this] show ?thesis unfolding rs by blast
  next
    case Rereading
    from progress_step.reread [OF this] show ?thesis unfolding rs by blast
  next
    case (Ready c)
    with ready_progress r(1) show ?thesis by blast
  next
    case Inserting
    show ?thesis
    proof (cases "email_held (rq_email r) (before @ after)")
      case True
      then obtain q where "q \<in> set rs" "rq_rows q \<noteq> []" by (fastforce simp: email_held_def list_ex_iff rs)
      with holder_ready [OF ok] ready_progress show ?thesis by meson
    next
      case False
      obtain new_id where "new_id \<notin> set (map cu_id (td_customers db @ uncommitted (before @ r # after)))"
        using fresh_text by blast
      from progress_step.inserted [OF Inserting False this [unfolded set_map]] show ?thesis unfolding rs by blast
    qed
  qed (use r(2) in auto)
qed

subsection \<open>Lemmas on reading\<close>

text \<open>The rows of one subject.\<close>

definition own_rows :: "pystr \<Rightarrow> ticket_db \<Rightarrow> ticket list" where
  "own_rows subject db = filter (\<lambda>t. tk_owner t = Some subject) (td_tickets db)"

lemma find_filter:
  "distinct (map key xs) \<Longrightarrow>
   (case List.find (\<lambda>x. key x = k) xs of None \<Rightarrow> None | Some x \<Rightarrow> if P x then Some x else None) =
   List.find (\<lambda>x. key x = k) (filter P xs)"
proof (induction xs)
  case (Cons x xs)
  show ?case
  proof (cases "key x = k")
    case True
    with Cons.prems have "List.find (\<lambda>x. key x = k) (filter P xs) = None"
      by (auto simp: find_None_iff image_iff)
    with True show ?thesis by simp
  qed (use Cons in auto)
qed simp

lemma scoped_get:
  assumes "distinct (map tk_id (td_tickets db))"
  shows "get_ticket i (Some s) db =
    (case List.find (\<lambda>t. tk_id t = i) (own_rows s db) of None \<Rightarrow> ticket_missing i | Some t \<Rightarrow> Inr t)"
proof -
  have "List.find (\<lambda>t. tk_id t = i) (own_rows s db) =
      (case List.find (\<lambda>t. tk_id t = i) (td_tickets db) of None \<Rightarrow> None
       | Some t \<Rightarrow> if tk_owner t = Some s then Some t else None)"
    unfolding own_rows_def by (rule find_filter [OF assms, symmetric])
  then show ?thesis
    by (auto simp: get_ticket_def permitted_def scope_permits_def split: option.splits)
qed

lemma scoped_list:
  "list_tickets status limit offset (Some s) db =
   page_of (min limit MAX_PAGE_SIZE) offset
     (newest_first ticket_order (filter (\<lambda>t. case status of None \<Rightarrow> True | Some st \<Rightarrow> tk_status t = st) (own_rows s db)))"
proof -
  have "filter (listed status (Some s)) (td_tickets db) =
      filter (\<lambda>t. case status of None \<Rightarrow> True | Some st \<Rightarrow> tk_status t = st) (own_rows s db)"
    by (simp add: own_rows_def) (rule filter_cong, auto simp: listed_def)
  then show ?thesis by (simp add: list_tickets_def)
qed

lemma get_or_create_Inr:
  assumes "get_or_create_customer pg_lower i email rows = (Inr c, rows')"
  shows "cu_email c = email \<and> c \<in> set rows' \<and> (rows' = rows \<or> rows' = rows @ [c] \<and>
    cu_email c \<notin> cu_email ` set rows \<and> cu_id c \<notin> cu_id ` set rows)"
  using assms
  by (auto simp: get_or_create_customer_def split: option.splits sum.splits exn.splits
      dest!: find_customer_Some insert_customer_Inr)

lemma create_ticket_cases:
  assumes "create_ticket pg_lower ci ti now email subject body owner db = (r, db')"
  shows "(\<exists>e. r = Inl e) \<and> db' = db \<or>
    (\<exists>c. r = Inr (new_ticket ti now (cu_id c) subject body owner) \<and> cu_email c = normalise_email email \<and>
       c \<in> set (td_customers db') \<and> ti \<notin> tk_id ` set (td_tickets db) \<and>
       (td_customers db' = td_customers db \<or> td_customers db' = td_customers db @ [c] \<and>
          cu_email c \<notin> cu_email ` set (td_customers db) \<and> cu_id c \<notin> cu_id ` set (td_customers db)) \<and>
       td_tickets db' = td_tickets db @ [new_ticket ti now (cu_id c) subject body owner])"
proof -
  let ?e = "normalise_email email"
  obtain q rows where g: "get_or_create_customer pg_lower ci ?e (td_customers db) = (q, rows)" by force
  show ?thesis
  proof (cases q)
    case (Inl e)
    with g assms show ?thesis by (auto simp: create_ticket_def)
  next
    case (Inr c)
    note c = get_or_create_Inr [OF g [unfolded Inr]]
    show ?thesis
    proof (cases "insert_ticket (new_ticket ti now (cu_id c) subject body owner) rows (td_tickets db)")
      case (Inl e)
      from assms have "r = Inl e \<and> db' = db" unfolding create_ticket_def g Inr prod.case sum.case Inl by simp
      then show ?thesis by simp
    next
      case t: (Inr t)
      note i = insert_ticket_Inr [OF t]
      with g Inr t assms have "r = Inr (new_ticket ti now (cu_id c) subject body owner)"
        "db' = db\<lparr>td_customers := rows, td_tickets := td_tickets db @ [new_ticket ti now (cu_id c) subject body owner]\<rparr>"
        by (auto simp: create_ticket_def)
      with c i show ?thesis by (auto simp: new_ticket_def)
    qed
  qed
qed

lemma create_ticket_ok [invs]:
  assumes "ticket_db_ok db" "create_ticket pg_lower ci ti now email subject body owner db = (r, db')"
  shows "ticket_db_ok db'"
  using create_ticket_cases [OF assms(2)] assms(1) by (auto simp: ticket_db_ok_def new_ticket_def image_subset_iff)

lemma create_ticket_others:
  assumes "owner \<noteq> Some s"
  shows "own_rows s (snd (create_ticket pg_lower ci ti now email subject body owner db)) = own_rows s db"
proof -
  obtain r db' where c: "create_ticket pg_lower ci ti now email subject body owner db = (r, db')" by force
  from create_ticket_cases [OF c] assms show ?thesis
    by (auto simp: c own_rows_def new_ticket_def)
qed


subsection \<open>Properties\<close>

text \<open>
  C18: Racing first contacts end with one customer per address. Whatever requests arrive and
  however their reads, inserts, commits and failures interleave, addresses and ids stay
  unique and every ticket belongs to a stored customer; a request that succeeded returns the
  one customer stored under its normalised address and the ticket it stored; and a request
  whose insert lost the race finds the winner when it reads again, unless the address itself
  is refused by the table.
\<close>

theorem racing_first_contacts_share_a_customer:
  assumes "ticket_db_ok db" "(race_step pg_lower)\<^sup>*\<^sup>* (db, []) (db', rs)"
  shows "ticket_db_ok db' \<and>
    list_all (\<lambda>r. case rq_phase r of
        Finished (Inr (c, created)) \<Rightarrow> find_customer (rq_email r) (td_customers db') = Some c \<and>
          (case created of None \<Rightarrow> True | Some t \<Rightarrow> get_ticket (tk_id t) None db' = Inr t \<and> tk_customer t = cu_id c)
      | Rereading \<Rightarrow> address_ok pg_lower (rq_email r) \<longrightarrow> find_customer (rq_email r) (visible db' r) \<noteq> None
      | _ \<Rightarrow> True) rs"
proof -
  have "race_ok pg_lower (db, [])" using assms(1) by (simp add: race_ok_def ticket_db_ok_def uncommitted_def)
  with race_steps_ok [OF assms(2)] have ok: "ticket_db_ok db'"
    "\<forall>r \<in> set rs. phase_ok pg_lower db' (rq_email r) (rq_rows r) (rq_phase r)"
    by (auto simp: race_ok_def list_all_iff)
  have found: "find_customer (cu_email c) (td_customers db') = Some c" if "c \<in> set (td_customers db')" for c
    unfolding find_customer_def using ok(1) that by (intro find_by_key) (simp_all add: ticket_db_ok_def)
  have read: "get_ticket (tk_id t) None db' = Inr t" if "t \<in> set (td_tickets db')" for t
    using find_by_key [of tk_id "td_tickets db'" t] ok(1) that
    by (simp add: get_ticket_def permitted_def ticket_db_ok_def)
  have finished: "find_customer (rq_email r) (td_customers db') = Some c \<and>
      (case w of None \<Rightarrow> True | Some t \<Rightarrow> get_ticket (tk_id t) None db' = Inr t \<and> tk_customer t = cu_id c)"
    if "r \<in> set rs" "rq_phase r = Finished (Inr (c, w))" for r c w
    using ok(2) [rule_format, OF that(1)] that(2) found [of c] read by (auto split: option.split)
  have raced: "find_customer (rq_email r) (visible db' r) \<noteq> None"
    if "r \<in> set rs" "rq_phase r = Rereading" "address_ok pg_lower (rq_email r)" for r
    using ok(2) [rule_format, OF that(1)] that(2,3) by (simp add: find_customer_None visible_def)
  show ?thesis
    using ok(1) finished raced by (auto simp: list_all_iff split: phase.split sum.split)
qed

text \<open>Two first contacts from one address, both of which see no customer.\<close>

definition race_tables :: "customer list \<Rightarrow> ticket_db" where
  "race_tables cs = \<lparr>td_customers = cs, td_tickets = []\<rparr>"

definition race_customer :: customer where
  "race_customer = \<lparr>cu_id = [1], cu_email = [97]\<rparr>"

definition race_request :: "phase \<Rightarrow> customer list \<Rightarrow> request" where
  "race_request ph rows = \<lparr>rq_email = [97], rq_work = None, rq_phase = ph, rq_rows = rows\<rparr>"

lemmas race_sample = race_tables_def race_customer_def race_request_def visible_def find_customer_def
  insert_customer_def insert_row_def EMAIL_WIDTH_def blank_def lower_def lower_cp_def look_def reread_def
  finish_request_def uncommitted_def email_held_def

lemma race_arrivals:
  "(race_step lower)\<^sup>*\<^sup>* (race_tables [], []) (race_tables [], [race_request Looking [], race_request Looking []])"
proof -
  have new: "request_for [97] None = race_request Looking []"
    by (simp add: request_for_def race_request_def normalise_email_def lower_def lower_cp_def strip_defs isspace_def)
  have "race_step lower (race_tables [], rs) (race_tables [], race_request Looking [] # rs)" for rs
    using race_step.arrive [of lower "race_tables []" rs "[97]" None] by (simp only: new)
  then show ?thesis by (meson rtranclp.rtrancl_into_rtrancl rtranclp.rtrancl_refl)
qed

lemma race_looks:
  "progress_step lower (race_tables [], race_request Looking [] # rs) (race_tables [], race_request Inserting [] # rs)"
  "progress_step lower (race_tables [], [q, race_request Looking []]) (race_tables [], [q, race_request Inserting []])"
proof -
  have l: "look (race_tables []) (race_request Looking []) = race_request Inserting []" by (simp add: race_sample)
  have p: "rq_phase (race_request Looking []) = Looking" by (simp add: race_request_def)
  from progress_step.looked [OF p, of lower "race_tables []" "[]" rs]
  show "progress_step lower (race_tables [], race_request Looking [] # rs) (race_tables [], race_request Inserting [] # rs)"
    by (simp add: l)
  from progress_step.looked [OF p, of lower "race_tables []" "[q]" "[]"]
  show "progress_step lower (race_tables [], [q, race_request Looking []]) (race_tables [], [q, race_request Inserting []])"
    by (simp add: l)
qed

text \<open>The first inserts and commits, the second is refused and reads the winner.\<close>

lemma race_to_one_customer:
  "(race_step lower)\<^sup>*\<^sup>* (race_tables [], [])
     (race_tables [race_customer], [race_request (Finished (Inr (race_customer, None))) [], race_request Rereading []])"
proof -
  let ?rows = "race_request (Ready race_customer) [race_customer]"
  have 3: "progress_step lower (race_tables [], [race_request Inserting [], race_request Inserting []])
      (race_tables [], [?rows, race_request Inserting []])"
    using progress_step.inserted [of "race_request Inserting []" "[]" "[race_request Inserting []]" "[1]" "race_tables []" lower]
    by (simp add: race_sample)
  have 4: "progress_step lower (race_tables [], [?rows, race_request Inserting []])
      (race_tables [race_customer], [race_request (Finished (Inr (race_customer, None))) [], race_request Inserting []])"
    using progress_step.finished [of ?rows race_customer "[]" 0 "race_tables []" "race_tables [race_customer]"
        "race_request (Finished (Inr (race_customer, None))) []" lower "[]" "[race_request Inserting []]"]
    by (simp add: race_sample)
  have 5: "progress_step lower
      (race_tables [race_customer], [race_request (Finished (Inr (race_customer, None))) [], race_request Inserting []])
      (race_tables [race_customer], [race_request (Finished (Inr (race_customer, None))) [], race_request Rereading []])"
    using progress_step.inserted [of "race_request Inserting []" "[race_request (Finished (Inr (race_customer, None))) []]" "[]"
        "[2]" "race_tables [race_customer]" lower]
    by (simp add: race_sample)
  note steps = race_looks(1) race_looks(2) 3 4 5
  show ?thesis
    by (rule rtranclp_trans [OF race_arrivals]) (meson steps race_step.progress converse_rtranclp_into_rtranclp rtranclp.rtrancl_refl)
qed

lemma race_tables_ok: "ticket_db_ok (race_tables [])"
  by (simp add: ticket_db_ok_def race_tables_def)

lemma racing_first_contacts_share_a_customer_witness:
  "find_customer [97] (td_customers (race_tables [race_customer])) = Some race_customer \<and>
   find_customer [97] (visible (race_tables [race_customer]) (race_request Rereading [])) \<noteq> None"
  using racing_first_contacts_share_a_customer [OF race_tables_ok race_to_one_customer]
  by (simp add: race_request_def address_ok_def lower_def lower_cp_def blank_def)

text \<open>
  C19: No first contact hangs. From every reachable state, whichever request moves next, all
  requests together take at most four more steps each, and they can only stop moving when
  every one of them has finished: a request that waits for another's insert waits for one
  that can commit.
\<close>

theorem first_contacts_all_finish:
  assumes "ticket_db_ok db" "(race_step pg_lower)\<^sup>*\<^sup>* (db, []) s" "(progress_step pg_lower ^^ n) s s'"
  shows "n \<le> 4 * length (snd s) \<and>
    ((\<exists>s''. progress_step pg_lower s' s'') \<or> list_all (\<lambda>r. \<not> unfinished (rq_phase r)) (snd s'))"
proof -
  have "race_ok pg_lower (db, [])" using assms(1) by (simp add: race_ok_def ticket_db_ok_def uncommitted_def)
  from race_steps_ok [OF assms(2) this] have "race_ok pg_lower s" .
  moreover have "(race_step pg_lower)\<^sup>*\<^sup>* s s'"
    using relpowp_imp_rtranclp [OF assms(3)] by (rule rtranclp_mono [THEN predicate2D, rotated]) (auto intro: progress)
  ultimately have "race_ok pg_lower s'" by (rule race_steps_ok [rotated])
  moreover obtain db' rs where s': "s' = (db', rs)" by force
  ultimately have "(\<exists>s''. progress_step pg_lower s' s'') \<or> list_all (\<lambda>r. \<not> unfinished (rq_phase r)) (snd s')"
    using progress_possible [of pg_lower db' rs] by (auto simp: list_all_iff)
  with progress_bounded [OF assms(3)] race_work_bound [of s] show ?thesis by simp
qed

lemma first_contacts_all_finish_witness:
  "\<exists>s'. (progress_step lower ^^ 1) (race_tables [], [race_request Looking [], race_request Looking []]) s' \<and>
     (1::nat) \<le> 4 * length [race_request Looking [], race_request Looking []]"
proof -
  have "(progress_step lower ^^ 1) (race_tables [], [race_request Looking [], race_request Looking []])
      (race_tables [], [race_request Inserting [], race_request Looking []])"
    using race_looks(1) [of "[race_request Looking []]"] by (simp add: eq_OO)
  with first_contacts_all_finish [OF race_tables_ok race_arrivals this] show ?thesis by auto
qed

text \<open>
  C20: Scoped reads depend on the subject's own rows only. Two databases that agree on the rows
  of a subject answer its reads the same, whatever else they store; so nothing another subject
  creates can be observed. What is read is the subject's own, and another's ticket is
  answered exactly as one that does not exist.
\<close>

theorem scoped_reads_are_isolated:
  assumes "ticket_db_ok db" "ticket_db_ok db'" "own_rows s db = own_rows s db'"
  shows "get_ticket i (Some s) db = get_ticket i (Some s) db' \<and>
    list_tickets status limit offset (Some s) db = list_tickets status limit offset (Some s) db' \<and>
    (case get_ticket i (Some s) db of
       Inr t \<Rightarrow> tk_owner t = Some s \<and> tk_id t = i \<and> t \<in> set (td_tickets db)
     | Inl e \<Rightarrow> Inl e = (ticket_missing i :: ticket result) \<and> i \<notin> tk_id ` set (own_rows s db)) \<and>
    (case list_tickets status limit offset (Some s) db of
       Inr ts \<Rightarrow> set ts \<subseteq> set (own_rows s db) | Inl _ \<Rightarrow> True) \<and>
    (owner \<noteq> Some s \<longrightarrow>
       own_rows s (snd (create_ticket pg_lower ci ti now email subject body owner db)) = own_rows s db)"
proof (intro conjI impI)
  have d: "distinct (map tk_id (td_tickets db))" "distinct (map tk_id (td_tickets db'))"
    using assms(1,2) by (simp_all add: ticket_db_ok_def)
  show "get_ticket i (Some s) db = get_ticket i (Some s) db'"
    by (simp add: scoped_get d assms(3))
  show "case get_ticket i (Some s) db of
       Inr t \<Rightarrow> tk_owner t = Some s \<and> tk_id t = i \<and> t \<in> set (td_tickets db)
     | Inl e \<Rightarrow> Inl e = (ticket_missing i :: ticket result) \<and> i \<notin> tk_id ` set (own_rows s db)"
    by (auto simp: scoped_get d(1) ticket_missing_def raise_app_def find_Some_iff find_None_iff own_rows_def
        split: option.split dest!: nth_mem)
  show "list_tickets status limit offset (Some s) db = list_tickets status limit offset (Some s) db'"
    by (simp add: scoped_list assms(3))
  show "case list_tickets status limit offset (Some s) db of
       Inr ts \<Rightarrow> set ts \<subseteq> set (own_rows s db) | Inl _ \<Rightarrow> True"
    by (auto simp: scoped_list split: sum.split elim!: page_ofE dest!: in_set_takeD in_set_dropD)
qed (rule create_ticket_others)

text \<open>Tickets of two subjects, and those of one alone.\<close>

definition sample_ticket :: "nat \<Rightarrow> pystr \<Rightarrow> ticket" where
  "sample_ticket n owner = new_ticket [n] (of_nat n) [1] (str ''s'') (str ''b'') (Some owner)"

definition sample_tickets :: "ticket list \<Rightarrow> ticket_db" where
  "sample_tickets ts = \<lparr>td_customers = [race_customer], td_tickets = ts\<rparr>"

lemmas sample_ticket_defs = sample_tickets_def sample_ticket_def new_ticket_def race_customer_def

lemma scoped_reads_are_isolated_witness:
  "get_ticket [2] (Some (str ''bob'')) (sample_tickets [sample_ticket 2 (str ''alice''), sample_ticket 3 (str ''bob'')]) =
   get_ticket [2] (Some (str ''bob'')) (sample_tickets [sample_ticket 3 (str ''bob'')])"
proof -
  let ?db = "sample_tickets [sample_ticket 2 (str ''alice''), sample_ticket 3 (str ''bob'')]"
  let ?db' = "sample_tickets [sample_ticket 3 (str ''bob'')]"
  have "ticket_db_ok ?db" "ticket_db_ok ?db'" "own_rows (str ''bob'') ?db = own_rows (str ''bob'') ?db'"
    by (simp_all add: ticket_db_ok_def sample_ticket_defs own_rows_def)
  from scoped_reads_are_isolated [OF this] show ?thesis by blast
qed

text \<open>
  C30: The pages of a listing tile it. With a page size the endpoint accepts, consecutive
  pages concatenate to the whole selection in strictly descending order of creation and id:
  no row is repeated at a page boundary and none is skipped.
\<close>

theorem pages_tile_the_listing:
  assumes "ticket_db_ok db" "1 \<le> n" "int n \<le> MAX_PAGE_SIZE" "int (m * n) < 2 ^ 63"
    and "length (filter (listed status scope) (td_tickets db)) \<le> m * n"
  shows "\<exists>pages. map (\<lambda>k. list_tickets status (int n) (int (k * n)) scope db) [0..<m] = map Inr pages \<and>
    mset (concat pages) = mset (filter (listed status scope) (td_tickets db)) \<and>
    sorted_wrt (>) (map ticket_order (concat pages))"
proof (intro exI conjI)
  let ?all = "newest_first ticket_order (filter (listed status scope) (td_tickets db))"
  let ?pages = "map (\<lambda>k. take n (drop (k * n) ?all)) [0..<m]"
  have ok: "page_number_ok (int n)" using assms(3) by (simp add: page_number_ok_def MAX_PAGE_SIZE_def)
  have "list_tickets status (int n) (int (k * n)) scope db = Inr (take n (drop (k * n) ?all))" if "k < m" for k
  proof -
    have "k * n \<le> m * n" using that by simp
    then have "int (k * n) < 2 ^ 63" using assms(4) by linarith
    then have "page_number_ok (int (k * n))" unfolding page_number_ok_def by simp
    with ok assms(3) show ?thesis
      by (simp only: list_tickets_def page_of_def min_absorb1 if_True simp_thms nat_int)
  qed
  then show "map (\<lambda>k. list_tickets status (int n) (int (k * n)) scope db) [0..<m] = map Inr ?pages"
    by simp
  have cat: "concat ?pages = ?all"
    using take_pages [of n ?all m] assms(5) by simp
  show "mset (concat ?pages) = mset (filter (listed status scope) (td_tickets db))"
    by (simp only: cat mset_newest_first)
  have "distinct (map tk_id ?all)"
    using distinct_map_subseteq [of ?all "td_tickets db" tk_id] assms(1)
    by (simp add: ticket_db_ok_def del: mset_filter) (simp add: multiset_filter_subset)
  then have "distinct (map ticket_order ?all)"
    by (auto simp: distinct_map inj_on_def ticket_order_def)
  then have "distinct (rev (map ticket_order ?all))" by simp
  moreover have "sorted (rev (map ticket_order ?all))"
    using newest_first_sorted [of ticket_order] by (simp only: sorted_wrt_rev)
  ultimately have "sorted_wrt (<) (rev (map ticket_order ?all))" by (simp only: strict_sorted_iff)
  then show "sorted_wrt (>) (map ticket_order (concat ?pages))"
    unfolding cat by (simp only: sorted_wrt_rev)
qed

lemma pages_tile_the_listing_witness:
  "\<exists>pages. map (\<lambda>k. list_tickets None (int 2) (int (k * 2)) None
       (sample_tickets [sample_ticket 2 [97], sample_ticket 4 [98], sample_ticket 3 [97]])) [0..<2] = map Inr pages \<and>
     mset (concat pages) = mset [sample_ticket 2 [97], sample_ticket 4 [98], sample_ticket 3 [97]]"
proof -
  let ?ts = "[sample_ticket 2 [97], sample_ticket 4 [98], sample_ticket 3 [97]]"
  have all: "filter (listed None None) (td_tickets (sample_tickets ?ts)) = ?ts"
    by (simp add: listed_def sample_tickets_def)
  have "ticket_db_ok (sample_tickets ?ts)" by (simp add: ticket_db_ok_def sample_ticket_defs)
  from pages_tile_the_listing [OF this, of 2 2 None None] show ?thesis
    unfolding all by (auto simp: MAX_PAGE_SIZE_def)
qed

end
