(* ===== verification/Domain.thy ===== *)
theory Domain
  imports Tickets Tools Worker
begin

text \<open>
  What the agent and the worker are given to do: the three tools of \<open>tools/domain.py\<close> with
  their registry (\<open>tools/factory.py\<close>), and the two job handlers of \<open>jobs/domain.py\<close> with theirs
  (\<open>jobs/factory.py\<close>). A tool or handler holds a service, so it is given the service's
  operations; the operations of \<open>Tickets\<close> and \<open>Documents\<close> are their instances. The validation of
  parameters and payloads by Pydantic is an argument, and the bounds the models declare are
  \<open>tool_params_ok\<close> and \<open>job_params_ok\<close>. \<open>isoformat\<close> and \<open>round4\<close>, \<open>round(_, 4)\<close>, are those of Python.
\<close>

subsection \<open>The tools\<close>

definition MAX_SEARCH_RESULTS :: int where
  "MAX_SEARCH_RESULTS = 10"

datatype tool_params =
    Lookup_Params pystr
  | List_Params "pystr option" int
  | Search_Params pystr int

fun tool_params_ok :: "tool_params \<Rightarrow> bool" where
  "tool_params_ok (Lookup_Params _) = True"
| "tool_params_ok (List_Params _ limit) = (1 \<le> limit \<and> limit \<le> 20)"
| "tool_params_ok (Search_Params query top_k) =
     (1 \<le> length query \<and> length query \<le> 1000 \<and> 1 \<le> top_k \<and> top_k \<le> MAX_SEARCH_RESULTS)"

definition run_lookup ::
  "(pystr \<Rightarrow> 'w \<Rightarrow> ticket result \<times> 'w) \<Rightarrow> (rat \<Rightarrow> pystr) \<Rightarrow> pystr \<Rightarrow> 'w \<Rightarrow> pyval result \<times> 'w" where
  "run_lookup get isoformat ticket_id w =
     (case get ticket_id w of
        (Inl (App e), w1) \<Rightarrow>
          (if issubclass (ae_class e) TicketNotFoundError
           then (Inl (ToolError (str ''No ticket exists with id '' @ ticket_id @ str ''.'') False), w1)
           else (Inl (App e), w1))
      | (Inl e, w1) \<Rightarrow> (Inl e, w1)
      | (Inr t, w1) \<Rightarrow>
          (Inr (PDict [(PStr (str ''id''), PStr (tk_id t)), (PStr (str ''customer_id''), PStr (tk_customer t)),
                       (PStr (str ''subject''), PStr (tk_subject t)), (PStr (str ''body''), PStr (tk_body t)),
                       (PStr (str ''status''), PStr (ticket_status_value (tk_status t))),
                       (PStr (str ''created_at''), PStr (isoformat (tk_created t)))]), w1))"

definition all_statuses :: "ticket_status list" where
  "all_statuses = [TS_OPEN, TS_PENDING, TS_RESOLVED, TS_CLOSED]"

text \<open>\<open>TicketStatus(value)\<close>\<close>

definition ticket_status_of :: "pystr \<Rightarrow> ticket_status option" where
  "ticket_status_of value = List.find (\<lambda>s. ticket_status_value s = value) all_statuses"

definition run_list ::
  "(ticket_status option \<Rightarrow> int \<Rightarrow> 'w \<Rightarrow> ticket list result \<times> 'w) \<Rightarrow> (rat \<Rightarrow> pystr) \<Rightarrow>
   pystr option \<Rightarrow> int \<Rightarrow> 'w \<Rightarrow> pyval result \<times> 'w" where
  "run_list list_them isoformat status limit w =
     (let fetch = (\<lambda>st.
            case list_them st limit w of
              (Inl e, w1) \<Rightarrow> (Inl e, w1)
            | (Inr ts, w1) \<Rightarrow>
                (Inr (PList (map (\<lambda>t. PDict
                   [(PStr (str ''id''), PStr (tk_id t)), (PStr (str ''subject''), PStr (tk_subject t)),
                    (PStr (str ''status''), PStr (ticket_status_value (tk_status t))),
                    (PStr (str ''created_at''), PStr (isoformat (tk_created t)))]) ts)), w1))
      in case status of
           None \<Rightarrow> fetch None
         | Some value \<Rightarrow>
             (case ticket_status_of value of
                None \<Rightarrow>
                  (Inl (ToolError (str ''Unknown status '' @ repr_str value @ str ''. Valid values: '' @
                     join (str '', '') (map ticket_status_value all_statuses)) False), w)
              | Some st \<Rightarrow> fetch (Some st)))"

definition run_search ::
  "(pystr \<Rightarrow> int \<Rightarrow> 'w \<Rightarrow> retrieved_chunk list result \<times> 'w) \<Rightarrow> (rat \<Rightarrow> rat) \<Rightarrow> pystr \<Rightarrow> int \<Rightarrow> 'w \<Rightarrow>
   pyval result \<times> 'w" where
  "run_search search round4 query top_k w =
     (case search query top_k w of
        (Inl e, w1) \<Rightarrow> (Inl e, w1)
      | (Inr hits, w1) \<Rightarrow>
          (Inr (PList (map (\<lambda>h. PDict
             [(PStr (str ''document_id''), PStr (rc_document_id h)),
              (PStr (str ''document_title''), PStr (rc_document_title h)), (PStr (str ''ordinal''), PInt (rc_ordinal h)),
              (PStr (str ''excerpt''), PStr (rc_content h)),
              (PStr (str ''similarity''), PFloat (round4 (similarity h)))]) hits)), w1))"

text \<open>
  The services the tools hold, with their schemas and validation. The three operations are
  called as the tools call them: no scope is passed, and no offset.
\<close>

record 'w tool_services =
  dt_get_ticket :: "pystr \<Rightarrow> 'w \<Rightarrow> ticket result \<times> 'w"
  dt_list_tickets :: "ticket_status option \<Rightarrow> int \<Rightarrow> 'w \<Rightarrow> ticket list result \<times> 'w"
  dt_search :: "pystr \<Rightarrow> int \<Rightarrow> 'w \<Rightarrow> retrieved_chunk list result \<times> 'w"
  dt_schema :: "pystr \<Rightarrow> pyval"
  dt_validate :: "pystr \<Rightarrow> attrs \<Rightarrow> (pystr list \<times> pystr) list + tool_params"
  dt_isoformat :: "rat \<Rightarrow> pystr"
  dt_round4 :: "rat \<Rightarrow> rat"

definition run_domain_tool :: "'w tool_services \<Rightarrow> rat \<Rightarrow> tool_params \<Rightarrow> 'w \<Rightarrow> pyval result \<times> 'w" where
  "run_domain_tool sv deadline params w =
     (case params of
        Lookup_Params i \<Rightarrow> run_lookup (dt_get_ticket sv) (dt_isoformat sv) i w
      | List_Params status limit \<Rightarrow> run_list (dt_list_tickets sv) (dt_isoformat sv) status limit w
      | Search_Params query top_k \<Rightarrow> run_search (dt_search sv) (dt_round4 sv) query top_k w)"

definition domain_tool :: "'w tool_services \<Rightarrow> pystr \<Rightarrow> pystr \<Rightarrow> (tool_params, 'w) tool" where
  "domain_tool sv name description =
     \<lparr>tl_name = name, tl_description = description, tl_schema = dt_schema sv name,
      tl_validate = dt_validate sv name, tl_run = run_domain_tool sv\<rparr>"

definition domain_tools :: "'w tool_services \<Rightarrow> (tool_params, 'w) tool list" where
  "domain_tools sv =
     [domain_tool sv (str ''lookup_ticket'') (str ''Look up a single support ticket by its identifier.''),
      domain_tool sv (str ''list_tickets'') (str ''List recent support tickets, newest first, optionally by status.''),
      domain_tool sv (str ''search_knowledge_base'')
        (str ''Search the documentation and return the most relevant passages, each with the document it came from.'')]"

definition build_registry :: "'w tool_services \<Rightarrow> (tool_params, 'w) tool_registry result" where
  "build_registry sv = register_all register_tool (domain_tools sv) []"

text \<open>\<open>TicketService\<close> over the tables, as the tools use it.\<close>

definition ticket_services ::
  "(pystr \<Rightarrow> int \<Rightarrow> ticket_db \<Rightarrow> retrieved_chunk list result \<times> ticket_db) \<Rightarrow> (pystr \<Rightarrow> pyval) \<Rightarrow>
   (pystr \<Rightarrow> attrs \<Rightarrow> (pystr list \<times> pystr) list + tool_params) \<Rightarrow> (rat \<Rightarrow> pystr) \<Rightarrow> (rat \<Rightarrow> rat) \<Rightarrow>
   ticket_db tool_services" where
  "ticket_services search schema validate isoformat round4 =
     \<lparr>dt_get_ticket = (\<lambda>i db. (get_ticket i None db, db)),
      dt_list_tickets = (\<lambda>status limit db. (list_tickets status limit 0 None db, db)),
      dt_search = search, dt_schema = schema, dt_validate = validate, dt_isoformat = isoformat,
      dt_round4 = round4\<rparr>"

subsection \<open>The job handlers\<close>

datatype job_params =
    Ingest_Payload pystr pystr
  | Ticket_Payload pystr pystr pystr

text \<open>The bounds \<open>IngestDocumentPayload\<close> and \<open>CreateTicketPayload\<close> declare.\<close>

fun job_params_ok :: "job_params \<Rightarrow> bool" where
  "job_params_ok (Ingest_Payload title content) = (1 \<le> length title \<and> length title \<le> 500 \<and> content \<noteq> [])"
| "job_params_ok (Ticket_Payload email subject body) =
     (3 \<le> length email \<and> length email \<le> 320 \<and> 1 \<le> length subject \<and> length subject \<le> 500 \<and> body \<noteq> [])"

definition job_outcome_of :: "pystr \<Rightarrow> 'a result \<times> 'w \<Rightarrow> run_outcome \<times> 'w" where
  "job_outcome_of message out =
     (case out of
        (Inr _, w) \<Rightarrow> (Ran, w)
      | (Inl e, w) \<Rightarrow> if sqlalchemy_failure e then (Job_Error message True, w) else (Raised e, w))"

definition ingest_handler ::
  "(payload \<Rightarrow> (pystr list \<times> pystr) list + job_params) \<Rightarrow> (pystr \<Rightarrow> pystr \<Rightarrow> 'w \<Rightarrow> 'a result \<times> 'w) \<Rightarrow>
   (job_params, 'w) job_handler" where
  "ingest_handler validate ingest =
     \<lparr>jh_name = str ''ingest_document'', jh_payload_is_model = True, jh_validate = validate,
      jh_run = (\<lambda>deadline params w.
        case params of
          Ingest_Payload title content \<Rightarrow>
            job_outcome_of (str ''The document could not be stored.'') (ingest title content w)
        | _ \<Rightarrow> (Raised (OtherError (str ''AssertionError'')), w))\<rparr>"

definition ticket_handler ::
  "(payload \<Rightarrow> (pystr list \<times> pystr) list + job_params) \<Rightarrow> (pystr \<Rightarrow> pystr \<Rightarrow> pystr \<Rightarrow> 'w \<Rightarrow> 'b result \<times> 'w) \<Rightarrow>
   (job_params, 'w) job_handler" where
  "ticket_handler validate create =
     \<lparr>jh_name = str ''create_ticket'', jh_payload_is_model = True, jh_validate = validate,
      jh_run = (\<lambda>deadline params w.
        case params of
          Ticket_Payload email subject body \<Rightarrow>
            job_outcome_of (str ''The ticket could not be created.'') (create email subject body w)
        | _ \<Rightarrow> (Raised (OtherError (str ''AssertionError'')), w))\<rparr>"

definition build_handler_registry ::
  "(job_params, 'w) job_handler \<Rightarrow> (job_params, 'w) job_handler \<Rightarrow> (job_params, 'w) job_registry result" where
  "build_handler_registry ingest ticket = register_all register_handler [ingest, ticket] []"

text \<open>
  The ticket handler over the tables: the world also counts what the database has handed out,
  from which the ids and the time of a row follow.
\<close>

definition stored_ticket ::
  "(pystr \<Rightarrow> pystr) \<Rightarrow> (nat \<Rightarrow> pystr) \<Rightarrow> (nat \<Rightarrow> rat) \<Rightarrow> pystr \<Rightarrow> pystr \<Rightarrow> pystr \<Rightarrow> ticket_db \<times> nat \<Rightarrow>
   ticket result \<times> (ticket_db \<times> nat)" where
  "stored_ticket pg_lower fresh now email subject body s =
     (case s of (db, n) \<Rightarrow>
        (case create_ticket pg_lower (fresh n) (fresh (n + 1)) (now n) email subject body None db of
           (r, db') \<Rightarrow> (r, (db', n + 2))))"


subsection \<open>Lemmas\<close>

lemma ticket_status_of_value [simp]: "ticket_status_of (ticket_status_value s) = Some s"
  by (cases s) (simp_all add: ticket_status_of_def all_statuses_def)

lemma ticket_status_of_Some: "ticket_status_of v = Some s \<longleftrightarrow> ticket_status_value s = v"
  using ticket_status_of_value [of s] by (auto simp: ticket_status_of_def find_Some_iff simp del: ticket_status_of_value)

lemma domain_tool_names: "map tl_name (domain_tools sv) = [str ''lookup_ticket'', str ''list_tickets'', str ''search_knowledge_base'']"
  by (simp add: domain_tools_def domain_tool_def)

lemma domain_tools_ok: "t \<in> set (domain_tools sv) \<Longrightarrow> tool_ok t"
  by (auto simp: domain_tools_def domain_tool_def tool_ok_def allowed_tool_char_def islower_ascii_def isdigit_def
      str_def MAX_TOOL_NAME_LENGTH_def)

lemma tool_registry_inv_all:
  "register_all register_tool ts reg = Inr reg' \<Longrightarrow> tool_registry_inv reg \<Longrightarrow> tool_registry_inv reg'"
  by (induction ts arbitrary: reg) (auto split: sum.splits intro: register_tool_inv)

lemma build_registry_Inr:
  "\<exists>reg. build_registry sv = Inr reg \<and> tool_registry_inv reg \<and> (\<forall>t \<in> set (domain_tools sv). map_of reg (tl_name t) = Some t)"
proof -
  have "distinct (map tl_name (domain_tools sv))" unfolding domain_tool_names by simp
  from register_all_tools_ok [OF _ this, of "[]"] domain_tools_ok obtain reg where
    reg: "build_registry sv = Inr reg" by (auto simp: build_registry_def)
  then have "tool_registry_inv reg"
    using tool_registry_inv_all [of "domain_tools sv" "[]" reg] by (simp add: build_registry_def tool_registry_inv_def)
  moreover have "\<forall>t \<in> set (domain_tools sv). map_of reg (tl_name t) = Some t"
    using tools.registered_all reg by (auto simp: build_registry_def)
  ultimately show ?thesis using reg by blast
qed

lemma find_stored_ticket: "ticket_db_ok db \<Longrightarrow> t \<in> set (td_tickets db) \<Longrightarrow> get_ticket (tk_id t) None db = Inr t"
  using find_by_key [of tk_id "td_tickets db" t] by (simp add: get_ticket_def permitted_def ticket_db_ok_def)

lemma foreign_ticket_missing:
  "ticket_db_ok db \<Longrightarrow> t \<in> set (td_tickets db) \<Longrightarrow> tk_owner t \<noteq> Some s \<Longrightarrow>
   get_ticket (tk_id t) (Some s) db = ticket_missing (tk_id t)"
  using find_by_key [of tk_id "td_tickets db" t]
  by (auto simp: get_ticket_def permitted_def scope_permits_def ticket_db_ok_def)

lemma insert_ticket_sqlalchemy:
  "insert_ticket t customers rows = Inl e \<Longrightarrow> sqlalchemy_failure e"
  by (auto simp: insert_ticket_def split: if_splits)

lemma get_or_create_sqlalchemy:
  "get_or_create_customer pg_lower i email rows = (Inl e, rows') \<Longrightarrow> sqlalchemy_failure e"
  by (auto simp: get_or_create_customer_def insert_customer_def split: option.splits sum.splits exn.splits if_splits)

lemma create_ticket_sqlalchemy:
  "create_ticket pg_lower ci ti now email subject body owner db = (Inl e, db') \<Longrightarrow> sqlalchemy_failure e \<and> db' = db"
  by (auto simp: create_ticket_def split: prod.splits sum.splits
      dest: insert_ticket_sqlalchemy get_or_create_sqlalchemy)

lemma wide_subject_refused:
  "SUBJECT_WIDTH < length subject \<Longrightarrow> \<exists>e. create_ticket pg_lower ci ti now email subject body owner db = (Inl e, db)"
  by (auto simp: create_ticket_def insert_ticket_def new_ticket_def split: prod.split sum.split)

subsection \<open>Properties\<close>

text \<open>
  The agent's registry is always assembled. Registering the three tools never fails, the
  registry holds exactly them, each under its own name.
\<close>

theorem agent_registry_complete:
  "\<exists>reg. build_registry sv = Inr reg \<and> tool_registry_inv reg \<and>
     (\<forall>name. map_of reg name = List.find (\<lambda>t. tl_name t = name) (domain_tools sv))"
proof -
  from build_registry_Inr [of sv] obtain reg where
    reg: "build_registry sv = Inr reg" "tool_registry_inv reg" "\<forall>t \<in> set (domain_tools sv). map_of reg (tl_name t) = Some t"
    by blast
  have "map_of reg name = List.find (\<lambda>t. tl_name t = name) (domain_tools sv)" for name
  proof (cases "List.find (\<lambda>t. tl_name t = name) (domain_tools sv)")
    case None
    have "map_of reg name = None"
    proof (rule ccontr)
      assume "map_of reg name \<noteq> None"
      then obtain t where "map_of reg name = Some t" by auto
      from tools.found_all [OF reg(1) [unfolded build_registry_def] this] None show False by (auto simp: find_None_iff)
    qed
    with None show ?thesis by simp
  next
    case (Some t)
    then have "t \<in> set (domain_tools sv)" "tl_name t = name" by (auto simp: find_Some_iff)
    with reg(3) Some show ?thesis by auto
  qed
  with reg show ?thesis by blast
qed

text \<open>
  The agent's tools read every subject's tickets. Where the HTTP endpoint answers a caller
  scoped to one subject as if the ticket did not exist, the lookup tool the same caller's
  agent runs returns its subject, body and customer: the tools call the service without a
  scope, so ownership is not enforced on this path.
\<close>

theorem agent_lookup_ignores_ownership:
  assumes "ticket_db_ok db" "t \<in> set (td_tickets db)" "tk_owner t \<noteq> Some s"
    and "build_registry (ticket_services search schema validate isoformat round4) = Inr (ex_registry ex)"
    and "validate (str ''lookup_ticket'') params = Inr (Lookup_Params (tk_id t))"
  shows "get_ticket (tk_id t) (Some s) db = ticket_missing (tk_id t) \<and>
    (\<exists>r fs. execute_tool ex (str ''lookup_ticket'') (Some params) db = (r, db) \<and> tres_ok r \<and>
       tres_output r = PDict fs \<and> (PStr (str ''customer_id''), PStr (tk_customer t)) \<in> set fs \<and>
       (PStr (str ''subject''), PStr (tk_subject t)) \<in> set fs \<and> (PStr (str ''body''), PStr (tk_body t)) \<in> set fs)"
proof
  show "get_ticket (tk_id t) (Some s) db = ticket_missing (tk_id t)"
    by (rule foreign_ticket_missing [OF assms(1-3)])
  let ?sv = "ticket_services search schema validate isoformat round4"
  let ?tool = "domain_tool ?sv (str ''lookup_ticket'') (str ''Look up a single support ticket by its identifier.'')"
  have "?tool \<in> set (domain_tools ?sv)" by (simp add: domain_tools_def)
  with build_registry_Inr [of ?sv] assms(4) have "map_of (ex_registry ex) (tl_name ?tool) = Some ?tool" by auto
  then have found: "get_tool (ex_registry ex) (str ''lookup_ticket'') = Inr ?tool"
    by (simp add: get_tool_def domain_tool_def)
  have run: "tl_run ?tool deadline (Lookup_Params (tk_id t)) db =
      run_lookup (\<lambda>i db. (get_ticket i None db, db)) isoformat (tk_id t) db" for deadline
    by (simp add: domain_tool_def run_domain_tool_def ticket_services_def)
  have "tl_validate ?tool params = Inr (Lookup_Params (tk_id t))"
    using assms(5) by (simp add: domain_tool_def ticket_services_def)
  with found run show "\<exists>r fs. execute_tool ex (str ''lookup_ticket'') (Some params) db = (r, db) \<and> tres_ok r \<and>
       tres_output r = PDict fs \<and> (PStr (str ''customer_id''), PStr (tk_customer t)) \<in> set fs \<and>
       (PStr (str ''subject''), PStr (tk_subject t)) \<in> set fs \<and> (PStr (str ''body''), PStr (tk_body t)) \<in> set fs"
    by (simp add: execute_tool_def Let_def run_tool_def run_lookup_def find_stored_ticket [OF assms(1,2)]
        tool_success_def tres_ok_def)
qed

definition sample_lookup :: "pystr \<Rightarrow> ticket_db tool_services" where
  "sample_lookup i =
     ticket_services (\<lambda>_ _ db. (Inr [], db)) (\<lambda>_. PNone) (\<lambda>_ _. Inr (Lookup_Params i)) (\<lambda>_. []) (\<lambda>x. x)"

lemma agent_lookup_ignores_ownership_witness:
  "\<exists>ex r. execute_tool (ex :: (tool_params, ticket_db) executor) (str ''lookup_ticket'') (Some [])
     (sample_tickets [sample_ticket 2 (str ''alice'')]) = (r, sample_tickets [sample_ticket 2 (str ''alice'')]) \<and> tres_ok r"
proof -
  let ?t = "sample_ticket 2 (str ''alice'')"
  obtain reg where reg: "build_registry (sample_lookup (tk_id ?t)) = Inr reg"
    using build_registry_Inr [of "sample_lookup (tk_id ?t)"] by blast
  let ?ex = "\<lparr>ex_registry = reg, ex_timeout = 15, ex_clock = (\<lambda>_. 0), ex_fmt_g = (\<lambda>_. [])\<rparr>"
  have "ticket_db_ok (sample_tickets [?t])" by (simp add: ticket_db_ok_def sample_ticket_defs)
  moreover have "?t \<in> set (td_tickets (sample_tickets [?t]))" by (simp add: sample_tickets_def)
  moreover have "tk_owner ?t \<noteq> Some (str ''bob'')" by (simp add: sample_ticket_def new_ticket_def)
  moreover have "build_registry (ticket_services (\<lambda>_ _ db. (Inr [], db)) (\<lambda>_. PNone)
      (\<lambda>_ _. Inr (Lookup_Params (tk_id ?t))) (\<lambda>_. []) (\<lambda>x. x)) = Inr (ex_registry ?ex)"
    using reg by (simp add: sample_lookup_def)
  ultimately have "\<exists>r fs. execute_tool ?ex (str ''lookup_ticket'') (Some []) (sample_tickets [?t]) = (r, sample_tickets [?t]) \<and>
       tres_ok r \<and> tres_output r = PDict fs \<and> (PStr (str ''customer_id''), PStr (tk_customer ?t)) \<in> set fs \<and>
       (PStr (str ''subject''), PStr (tk_subject ?t)) \<in> set fs \<and> (PStr (str ''body''), PStr (tk_body ?t)) \<in> set fs"
    by (rule agent_lookup_ignores_ownership [THEN conjunct2]) simp
  then show ?thesis by blast
qed

text \<open>
  A ticket job does what the endpoint does. It ends well exactly when the service stored the
  ticket; whatever the database refuses becomes a retryable failure with a fixed text that
  carries nothing of the row, and leaves the tables as they were. A subject that the payload
  accepts but the column does not hold is refused on every attempt, so such a job can only
  be retried until it is dead-lettered.
\<close>

theorem ticket_job_outcome:
  assumes "jh_run (ticket_handler validate (stored_ticket pg_lower fresh now)) deadline
      (Ticket_Payload email subject body) (db, n) = (out, (db', n'))"
  shows "(out = Ran \<and> (\<exists>t. t \<in> set (td_tickets db') \<and> tk_subject t = subject \<and> tk_body t = body \<and>
        create_ticket pg_lower (fresh n) (fresh (n + 1)) (now n) email subject body None db = (Inr t, db')) \<and>
        length subject \<le> SUBJECT_WIDTH) \<or>
      (out = Job_Error (str ''The ticket could not be created.'') True \<and> db' = db)"
proof -
  obtain r db1 where c: "create_ticket pg_lower (fresh n) (fresh (n + 1)) (now n) email subject body None db = (r, db1)"
    by force
  have out: "job_outcome_of (str ''The ticket could not be created.'') (r, (db1, n + 2)) = (out, (db', n'))"
    using assms c by (simp add: ticket_handler_def stored_ticket_def)
  show ?thesis
  proof (cases r)
    case (Inl e)
    with c have "sqlalchemy_failure e" "db1 = db" by (auto dest: create_ticket_sqlalchemy)
    with out Inl show ?thesis by (simp add: job_outcome_of_def)
  next
    case (Inr t)
    have "length subject \<le> SUBJECT_WIDTH"
      using wide_subject_refused [of subject pg_lower "fresh n" "fresh (n + 1)" "now n" email body None db] c Inr
      by (auto simp: not_le [symmetric])
    moreover have "t \<in> set (td_tickets db1)" "tk_subject t = subject" "tk_body t = body"
      using create_ticket_cases [OF c] Inr by (auto simp: new_ticket_def)
    ultimately show ?thesis using out Inr c by (simp add: job_outcome_of_def)
  qed
qed

lemma ticket_job_outcome_witness:
  "fst (jh_run (ticket_handler (\<lambda>_. Inl []) (stored_ticket lower (\<lambda>n. [n]) of_nat)) 30
     (Ticket_Payload (str ''a@b'') (replicate 201 97) (str ''x'')) (race_tables [], 0)) =
   Job_Error (str ''The ticket could not be created.'') True"
proof -
  obtain out db' n' where run: "jh_run (ticket_handler (\<lambda>_. Inl []) (stored_ticket lower (\<lambda>n. [n]) of_nat)) 30
     (Ticket_Payload (str ''a@b'') (replicate 201 97) (str ''x'')) (race_tables [], 0) = (out, (db', n'))"
    using prod_cases3 by metis
  from ticket_job_outcome [OF run] have "out = Job_Error (str ''The ticket could not be created.'') True"
    by (auto simp: SUBJECT_WIDTH_def)
  with run show ?thesis by simp
qed

end
