(* ===== verification/Api.thy ===== *)
theory Api
  imports Settings Domain Assistant
begin

text \<open>
  \<open>api/v1/\<close>: the HTTP endpoints over the services. FastAPI resolves the dependencies of a route
  before it validates the request, so the identity (\<open>api/v1/identity.py\<close>) and the rate limit
  (\<open>api/v1/limits.py\<close>) come first and an invalid request still counts against the limit; the
  schemas of \<open>schemas/\<close> are given by the bounds they declare. Also here: the readiness check
  with its probes. Ids, times and the probes' outcomes are arguments.
\<close>

subsection \<open>Guarded routes\<close>

text \<open>What the process serves: the tables, the limiter's counts and the metrics; \<open>'w\<close> is the rest.\<close>

record ('v, 'c, 'w) site =
  si_counts :: 'c
  si_tickets :: ticket_db
  si_documents :: "'v document_db"
  si_conversations :: conversation_db
  si_metrics :: "metric_call list"
  si_world :: 'w

record 'c deployment =
  dp_authenticator :: authenticator
  dp_authorizer :: authorizer
  dp_check :: "pystr \<Rightarrow> 'c \<Rightarrow> rate_decision \<times> 'c"

type_synonym 'r validated = "(pystr list \<times> pystr) list + 'r"

definition require_identity :: "'c deployment \<Rightarrow> pystr option \<Rightarrow> identity result" where
  "require_identity dp presented = au_authenticate (dp_authenticator dp) presented"

text \<open>
  What leaves a route: the answer, the errors of a \<open>RequestValidationError\<close>, or what its
  dependencies or its handler raised.
\<close>

datatype route_error = Invalid_Request "(pystr list \<times> pystr) list" | Handler_Raise exn

type_synonym 'a answer = "route_error + 'a"

definition raised :: "'a result \<Rightarrow> 'a answer" where
  "raised r = (case r of Inl e \<Rightarrow> Inl (Handler_Raise e) | Inr x \<Rightarrow> Inr x)"

text \<open>The route: identity, limit, request, handler.\<close>

definition guarded ::
  "'c deployment \<Rightarrow> pystr option \<Rightarrow> 'r validated \<Rightarrow>
   (identity \<Rightarrow> 'r \<Rightarrow> ('v, 'c, 'w) site \<Rightarrow> 'a result \<times> ('v, 'c, 'w) site) \<Rightarrow> ('v, 'c, 'w) site \<Rightarrow>
   'a answer \<times> ('v, 'c, 'w) site" where
  "guarded dp presented request handle s =
     (case require_identity dp presented of
        Inl e \<Rightarrow> (Inl (Handler_Raise e), s)
      | Inr i \<Rightarrow>
          (case enforce_rate_limit (dp_check dp) (id_subject i) (si_counts s) of
             (Inl e, counts) \<Rightarrow> (Inl (Handler_Raise e), s\<lparr>si_counts := counts\<rparr>)
           | (Inr _, counts) \<Rightarrow>
               (let s1 = s\<lparr>si_counts := counts\<rparr> in
                case request of
                  Inl errs \<Rightarrow> (Inl (Invalid_Request errs), s1)
                | Inr r \<Rightarrow> (case handle i r s1 of (out, s2) \<Rightarrow> (raised out, s2)))))"

text \<open>
  What the registered exception handlers render; an exception without one is the server's 500.
  \<open>ok\<close> is the status of the route itself.
\<close>

fun error_reply :: "route_error \<Rightarrow> http_response option" where
  "error_reply (Invalid_Request errs) = Some (handle_validation_error errs)"
| "error_reply (Handler_Raise (App e)) = (case handle_app_error Http False e of Rendered r \<Rightarrow> Some r | _ \<Rightarrow> None)"
| "error_reply (Handler_Raise _) = None"

definition http_status :: "int \<Rightarrow> 'a answer \<Rightarrow> int" where
  "http_status ok r =
     (case r of
        Inr _ \<Rightarrow> ok
      | Inl e \<Rightarrow> (case error_reply e of Some rp \<Rightarrow> hr_status rp | None \<Rightarrow> 500))"

definition map_result :: "('a \<Rightarrow> 'b) \<Rightarrow> 'a result \<Rightarrow> 'b result" where
  "map_result f r = (case r of Inl e \<Rightarrow> Inl e | Inr x \<Rightarrow> Inr (f x))"

text \<open>\<open>Query(ge=1, le=hi)\<close> and \<open>Query(ge=0)\<close>\<close>

definition query_page :: "int \<Rightarrow> int \<Rightarrow> int \<Rightarrow> (int \<times> int) validated" where
  "query_page hi limit offset =
     (let errs = bounded_field ''limit'' 1 hi limit @
          bad_field ''offset'' ''Input should be greater than or equal to 0'' (0 \<le> offset)
      in if errs = [] then Inr (limit, offset) else Inl errs)"

text \<open>\<open>Field(min_length=1, max_length=hi)\<close>\<close>

definition text_field :: "string \<Rightarrow> nat \<Rightarrow> pystr \<Rightarrow> (pystr list \<times> pystr) list" where
  "text_field field hi s =
     (if s = [] then [([str field], str ''String should have at least 1 character'')]
      else if hi < length s then [([str field], str ''String should have at most '' @ show_nat hi @ str '' characters'')]
      else [])"

subsection \<open>Tickets\<close>

definition MAX_SUBJECT :: nat where
  "MAX_SUBJECT = 200"

definition MAX_BODY :: nat where
  "MAX_BODY = 20000"

text \<open>\<open>EmailStr\<close> is the validator's: the normalised address, or its message.\<close>

definition ticket_create_request ::
  "(pystr \<Rightarrow> pystr + pystr) \<Rightarrow> pystr \<Rightarrow> pystr \<Rightarrow> pystr \<Rightarrow> (pystr \<times> pystr \<times> pystr) validated" where
  "ticket_create_request email_str email subject body =
     (let errs = (case email_str email of Inl msg \<Rightarrow> [([str ''customer_email''], msg)] | Inr _ \<Rightarrow> []) @
          text_field ''subject'' MAX_SUBJECT subject @ text_field ''body'' MAX_BODY body
      in case email_str email of
           Inr address \<Rightarrow> if errs = [] then Inr (address, subject, body) else Inl errs
         | Inl _ \<Rightarrow> Inl errs)"

record ticket_response =
  tr_id :: pystr
  tr_customer_id :: pystr
  tr_subject :: pystr
  tr_body :: pystr
  tr_status :: ticket_status
  tr_created_at :: rat

definition ticket_response_of :: "ticket \<Rightarrow> ticket_response" where
  "ticket_response_of t =
     \<lparr>tr_id = tk_id t, tr_customer_id = tk_customer t, tr_subject = tk_subject t, tr_body = tk_body t,
      tr_status = tk_status t, tr_created_at = tk_created t\<rparr>"

record 'a page_response =
  pg_items :: "'a list"
  pg_limit :: int
  pg_offset :: int

definition post_ticket ::
  "'c deployment \<Rightarrow> (pystr \<Rightarrow> pystr) \<Rightarrow> pystr \<Rightarrow> pystr \<Rightarrow> rat \<Rightarrow> pystr option \<Rightarrow> (pystr \<times> pystr \<times> pystr) validated \<Rightarrow>
   ('v, 'c, 'w) site \<Rightarrow> ticket_response answer \<times> ('v, 'c, 'w) site" where
  "post_ticket dp pg_lower customer_id ticket_id now presented request =
     guarded dp presented request (\<lambda>i (email, subject, body) s.
       case create_ticket pg_lower customer_id ticket_id now email subject body
              (az_owner_for (dp_authorizer dp) i) (si_tickets s) of
         (r, db) \<Rightarrow> (map_result ticket_response_of r, s\<lparr>si_tickets := db\<rparr>))"

definition read_ticket ::
  "'c deployment \<Rightarrow> pystr option \<Rightarrow> pystr validated \<Rightarrow> ('v, 'c, 'w) site \<Rightarrow>
   ticket_response answer \<times> ('v, 'c, 'w) site" where
  "read_ticket dp presented request =
     guarded dp presented request (\<lambda>i ticket_id s.
       (map_result ticket_response_of (get_ticket ticket_id (az_scope_for (dp_authorizer dp) i) (si_tickets s)), s))"

definition read_tickets ::
  "'c deployment \<Rightarrow> pystr option \<Rightarrow> ticket_status option \<Rightarrow> (int \<times> int) validated \<Rightarrow> ('v, 'c, 'w) site \<Rightarrow>
   ticket_response page_response answer \<times> ('v, 'c, 'w) site" where
  "read_tickets dp presented status request =
     guarded dp presented request (\<lambda>i (limit, offset) s.
       (map_result (\<lambda>ts. \<lparr>pg_items = map ticket_response_of ts, pg_limit = limit, pg_offset = offset\<rparr>)
          (list_tickets status limit offset (az_scope_for (dp_authorizer dp) i) (si_tickets s)), s))"

subsection \<open>Documents\<close>

definition MAX_TITLE :: nat where
  "MAX_TITLE = 300"

definition MAX_CONTENT :: nat where
  "MAX_CONTENT = 200000"

definition MAX_QUESTION :: nat where
  "MAX_QUESTION = 2000"

definition document_ingest_request :: "pystr \<Rightarrow> pystr \<Rightarrow> (pystr \<times> pystr) validated" where
  "document_ingest_request title content =
     (let errs = text_field ''title'' MAX_TITLE title @ text_field ''content'' MAX_CONTENT content
      in if errs = [] then Inr (title, content) else Inl errs)"

definition grounded_answer_request :: "pystr \<Rightarrow> pystr validated" where
  "grounded_answer_request question =
     (let errs = text_field ''question'' MAX_QUESTION question in if errs = [] then Inr question else Inl errs)"

record document_response =
  dc_id :: pystr
  dc_title :: pystr
  dc_created_at :: rat

definition document_response_of :: "document_row \<Rightarrow> document_response" where
  "document_response_of d = \<lparr>dc_id = dr_id d, dc_title = dr_title d, dc_created_at = dr_created d\<rparr>"

definition post_document ::
  "'c deployment \<Rightarrow> (pystr list \<Rightarrow> 'v list result) \<Rightarrow> pystr \<Rightarrow> (nat \<Rightarrow> pystr) \<Rightarrow> rat \<Rightarrow> pystr option \<Rightarrow>
   (pystr \<times> pystr) validated \<Rightarrow> ('v, 'c, 'w) site \<Rightarrow> document_response answer \<times> ('v, 'c, 'w) site" where
  "post_document dp embedder document_id chunk_id now presented request =
     guarded dp presented request (\<lambda>i (title, content) s.
       case ingest_document embedder document_id chunk_id now title content (si_documents s) of
         (r, db) \<Rightarrow> (map_result document_response_of r, s\<lparr>si_documents := db\<rparr>))"

text \<open>The search of the answer service reads the tables; the model is in the world.\<close>

definition post_answer ::
  "'c deployment \<Rightarrow> pystr \<Rightarrow> (pystr \<Rightarrow> 'v) \<Rightarrow> ('v \<Rightarrow> 'v \<Rightarrow> rat) \<Rightarrow> ('w, model_answer) provider \<Rightarrow> nat \<Rightarrow> pystr option \<Rightarrow>
   pystr validated \<Rightarrow> ('v, 'c, 'w) site \<Rightarrow> grounded_answer answer \<times> ('v, 'c, 'w) site" where
  "post_answer dp system embed_query distance provider top_k presented request =
     guarded dp presented request (\<lambda>i question s.
       case answer_question system
              (\<lambda>q k w. (Inr (search_documents embed_query distance (si_documents s) q k), w))
              provider question top_k (si_world s) of
         (r, w) \<Rightarrow> (r, s\<lparr>si_world := w\<rparr>))"

definition read_document ::
  "'c deployment \<Rightarrow> pystr option \<Rightarrow> pystr validated \<Rightarrow> ('v, 'c, 'w) site \<Rightarrow>
   document_response answer \<times> ('v, 'c, 'w) site" where
  "read_document dp presented request =
     guarded dp presented request (\<lambda>i document_id s.
       (map_result document_response_of (get_document document_id (si_documents s)), s))"

definition read_documents ::
  "'c deployment \<Rightarrow> pystr option \<Rightarrow> (int \<times> int) validated \<Rightarrow> ('v, 'c, 'w) site \<Rightarrow>
   document_response page_response answer \<times> ('v, 'c, 'w) site" where
  "read_documents dp presented request =
     guarded dp presented request (\<lambda>i (limit, offset) s.
       (map_result (\<lambda>ds. \<lparr>pg_items = map document_response_of ds, pg_limit = limit, pg_offset = offset\<rparr>)
          (list_documents limit offset (si_documents s)), s))"


subsection \<open>Conversations\<close>

definition MAX_HISTORY :: int where
  "MAX_HISTORY = 500"

record conversation_response =
  cn_id :: pystr
  cn_customer_id :: pystr

record message_response =
  mr_position :: int
  mr_role :: message_role
  mr_content :: pystr
  mr_citations :: "citation list"

record conversation_history_response =
  hs_conversation_id :: pystr
  hs_messages :: "message_response list"

definition conversation_start_request :: "(pystr \<Rightarrow> pystr + pystr) \<Rightarrow> pystr \<Rightarrow> pystr validated" where
  "conversation_start_request email_str email =
     (case email_str email of Inl msg \<Rightarrow> Inl [([str ''customer_email''], msg)] | Inr address \<Rightarrow> Inr address)"

definition conversation_response_of :: "conversation \<Rightarrow> conversation_response" where
  "conversation_response_of c = \<lparr>cn_id = cv_id c, cn_customer_id = cv_customer c\<rparr>"

definition message_response_of :: "turn \<Rightarrow> message_response" where
  "message_response_of t =
     \<lparr>mr_position = tn_position t, mr_role = tn_role t, mr_content = tn_content t, mr_citations = tn_citations t\<rparr>"

definition history_limit :: "int option \<Rightarrow> nat option validated" where
  "history_limit limit =
     (case limit of
        None \<Rightarrow> Inr None
      | Some n \<Rightarrow> (case bounded_field ''limit'' 1 MAX_HISTORY n of [] \<Rightarrow> Inr (Some (nat n)) | errs \<Rightarrow> Inl errs))"

text \<open>
  Opening a conversation commits the customer first; the conversation's foreign key then sees
  the customers there are.
\<close>

definition post_conversation ::
  "'c deployment \<Rightarrow> (pystr \<Rightarrow> pystr) \<Rightarrow> pystr \<Rightarrow> pystr \<Rightarrow> pystr option \<Rightarrow> pystr validated \<Rightarrow> ('v, 'c, 'w) site \<Rightarrow>
   conversation_response answer \<times> ('v, 'c, 'w) site" where
  "post_conversation dp pg_lower customer_id conversation_id presented request =
     guarded dp presented request (\<lambda>i email s.
       case customer_for pg_lower customer_id email (si_tickets s) of
         (Inl e, db) \<Rightarrow> (Inl e, s\<lparr>si_tickets := db\<rparr>)
       | (Inr c, db) \<Rightarrow>
           (case start_conversation conversation_id (cu_id c) (az_owner_for (dp_authorizer dp) i)
                   ((si_conversations s)\<lparr>cd_customers := map cu_id (td_customers db)\<rparr>) of
              (r, cdb) \<Rightarrow> (map_result conversation_response_of r, s\<lparr>si_tickets := db, si_conversations := cdb\<rparr>)))"

definition read_conversation ::
  "'c deployment \<Rightarrow> pystr option \<Rightarrow> pystr validated \<Rightarrow> ('v, 'c, 'w) site \<Rightarrow>
   conversation_response answer \<times> ('v, 'c, 'w) site" where
  "read_conversation dp presented request =
     guarded dp presented request (\<lambda>i conversation_id s.
       (map_result conversation_response_of
          (get_conversation conversation_id (az_scope_for (dp_authorizer dp) i) (si_conversations s)), s))"

definition read_history ::
  "'c deployment \<Rightarrow> pystr option \<Rightarrow> (pystr \<times> nat option) validated \<Rightarrow> ('v, 'c, 'w) site \<Rightarrow>
   conversation_history_response answer \<times> ('v, 'c, 'w) site" where
  "read_history dp presented request =
     guarded dp presented request (\<lambda>i (conversation_id, limit) s.
       (map_result (\<lambda>_. \<lparr>hs_conversation_id = conversation_id,
            hs_messages = map message_response_of (history conversation_id limit (si_conversations s))\<rparr>)
          (get_conversation conversation_id (az_scope_for (dp_authorizer dp) i) (si_conversations s)), s))"

subsection \<open>The assistant\<close>

definition MAX_MESSAGE_LENGTH :: nat where
  "MAX_MESSAGE_LENGTH = 8000"

definition assistant_message_request :: "pystr \<Rightarrow> pystr option \<Rightarrow> (pystr \<times> pystr option) validated" where
  "assistant_message_request message conversation_id =
     (let errs = text_field ''message'' MAX_MESSAGE_LENGTH message
      in if errs = [] then Inr (message, conversation_id) else Inl errs)"

text \<open>The response is the reply with the trace id of the request's span; its confidence is bounded.\<close>

record assistant_message_response = assistant_reply +
  am_trace_id :: "pystr option"

definition AssistantMessageResponse :: "assistant_reply \<Rightarrow> pystr option \<Rightarrow> assistant_message_response result" where
  "AssistantMessageResponse r trace_id =
     (let errs = unit_field ''confidence'' (ar_confidence r)
      in if errs = [] then Inr (assistant_reply.extend r \<lparr>am_trace_id = trace_id\<rparr>) else Inl (ValidationError errs))"

definition intent_analysis_request :: "pystr \<Rightarrow> pystr validated" where
  "intent_analysis_request message =
     (let errs = text_field ''message'' 8000 message in if errs = [] then Inr message else Inl errs)"

text \<open>The counter of a reply with its labels, and the time it took.\<close>

definition request_metrics :: "assistant_reply \<Rightarrow> rat \<Rightarrow> metric_call list" where
  "request_metrics r seconds =
     [Increment (str ''assistant_requests_total'')
        (Some [(str ''intent'', PStr (intent_value (ar_intent r))), (str ''handler'', PStr (ar_handler r)),
               (str ''handled'', PBool (ar_handled r)), (str ''escalated'', PBool (ar_escalated r)),
               (str ''policy_modified'', PBool (ar_policy_modified r))]) 1,
      Observe (str ''assistant_duration_ms'') (seconds * 1000) None]"

text \<open>The attributes the request's span gets.\<close>

definition request_attributes :: "identity \<Rightarrow> assistant_reply \<Rightarrow> attrs" where
  "request_attributes i r =
     [(str ''subject'', PStr (id_subject i)), (str ''authenticated'', PBool (id_authenticated i)),
      (str ''intent'', PStr (intent_value (ar_intent r))), (str ''handler'', PStr (ar_handler r)),
      (str ''handled'', PBool (ar_handled r)), (str ''escalated'', PBool (ar_escalated r))]"

definition post_message ::
  "'c deployment \<Rightarrow> 'w assistant \<Rightarrow> pystr option \<Rightarrow> rat \<Rightarrow> pystr option \<Rightarrow> (pystr \<times> pystr option) validated \<Rightarrow>
   ('v, 'c, 'w) site \<Rightarrow> assistant_message_response answer \<times> ('v, 'c, 'w) site" where
  "post_message dp sv trace_id seconds presented request =
     guarded dp presented request (\<lambda>i (message, conversation_id) s.
       case respond sv message conversation_id (az_scope_for (dp_authorizer dp) i) (si_conversations s, si_world s) of
         (Inl e, db, w) \<Rightarrow> (Inl e, s\<lparr>si_conversations := db, si_world := w\<rparr>)
       | (Inr r, db, w) \<Rightarrow>
           (AssistantMessageResponse r trace_id,
            s\<lparr>si_conversations := db, si_world := w, si_metrics := si_metrics s @ request_metrics r seconds\<rparr>))"

text \<open>The intent endpoint has neither dependency.\<close>

definition post_intent ::
  "(pystr \<Rightarrow> 'w \<Rightarrow> intent_analysis result \<times> 'w) \<Rightarrow> pystr validated \<Rightarrow> ('v, 'c, 'w) site \<Rightarrow>
   intent_analysis answer \<times> ('v, 'c, 'w) site" where
  "post_intent analyze request s =
     (case request of
        Inl errs \<Rightarrow> (Inl (Invalid_Request errs), s)
      | Inr message \<Rightarrow> (case analyze message (si_world s) of (r, w) \<Rightarrow> (raised r, s\<lparr>si_world := w\<rparr>)))"

subsection \<open>Readiness\<close>

datatype component_status = CS_OK | CS_NOT_CONFIGURED | CS_UNAVAILABLE | CS_DEGRADED

fun component_status_value :: "component_status \<Rightarrow> pystr" where
  "component_status_value CS_OK = str ''ok''"
| "component_status_value CS_NOT_CONFIGURED = str ''not_configured''"
| "component_status_value CS_UNAVAILABLE = str ''unavailable''"
| "component_status_value CS_DEGRADED = str ''degraded''"

text \<open>\<open>except OSError\<close>, which \<open>TimeoutError\<close> is\<close>

fun os_failure :: "exn \<Rightarrow> bool" where
  "os_failure (OSError _) = True"
| "os_failure TimeoutError = True"
| "os_failure _ = False"

text \<open>
  \<open>db/health.py\<close>: the engine is built from the settings, then one round trip is tried. An error
  that is neither is not caught.
\<close>

definition database_status :: "(pystr \<Rightarrow> unit result) \<Rightarrow> unit result \<Rightarrow> settings \<Rightarrow> component_status result" where
  "database_status make_engine probe s =
     (case build_engine make_engine s of
        Inl (App e) \<Rightarrow> if issubclass (ae_class e) DatabaseNotConfiguredError then Inr CS_NOT_CONFIGURED else Inl (App e)
      | Inl e \<Rightarrow> Inl e
      | Inr _ \<Rightarrow>
          (case probe of
             Inr _ \<Rightarrow> Inr CS_OK
           | Inl e \<Rightarrow> if sqlalchemy_failure e \<or> os_failure e then Inr CS_UNAVAILABLE else Inl e))"

text \<open>\<open>observability/diagnostics.py\<close>; \<open>ping\<close> is what \<open>get_job_queue().ping()\<close> does.\<close>

definition job_queue_status :: "bool result \<Rightarrow> settings \<Rightarrow> component_status" where
  "job_queue_status ping s =
     (if st_job_queue s \<noteq> Queue_Redis then CS_NOT_CONFIGURED
      else case ping of Inl _ \<Rightarrow> CS_DEGRADED | Inr reachable \<Rightarrow> if reachable then CS_OK else CS_DEGRADED)"

definition model_provider_status :: "settings \<Rightarrow> component_status" where
  "model_provider_status s =
     (if st_llm_provider s = LLM_Static then CS_NOT_CONFIGURED
      else if st_llm_api_key s = None then CS_DEGRADED else CS_OK)"

definition rate_limiter_status :: "settings \<Rightarrow> component_status" where
  "rate_limiter_status s = (if st_rate_limit_provider s = Limit_None then CS_NOT_CONFIGURED else CS_OK)"

definition authentication_status :: "settings \<Rightarrow> component_status" where
  "authentication_status s = (if st_auth_provider s = Auth_None then CS_NOT_CONFIGURED else CS_OK)"

definition retrieval_scoring :: "settings \<Rightarrow> pystr option" where
  "retrieval_scoring s =
     (if st_database_url s = None then None
      else Some (if st_embedding_provider s = Embed_Hashing then str ''lexical'' else str ''semantic''))"

record readiness_response =
  rs_status :: pystr
  rs_database :: component_status
  rs_retrieval_scoring :: "pystr option"
  rs_components :: "(pystr \<times> component_status) list"

definition ready ::
  "(pystr \<Rightarrow> unit result) \<Rightarrow> unit result \<Rightarrow> bool result \<Rightarrow> settings \<Rightarrow> readiness_response result" where
  "ready make_engine probe ping s =
     (case database_status make_engine probe s of
        Inl e \<Rightarrow> Inl e
      | Inr database \<Rightarrow>
          if database = CS_UNAVAILABLE then
            raise_app DatabaseUnavailableError None (Some [(str ''component'', PStr (str ''database''))])
          else Inr \<lparr>rs_status = str ''ready'', rs_database = database, rs_retrieval_scoring = retrieval_scoring s,
            rs_components =
              [(str ''database'', database), (str ''job_queue'', job_queue_status ping s),
               (str ''model_provider'', model_provider_status s), (str ''rate_limiter'', rate_limiter_status s),
               (str ''authentication'', authentication_status s)]\<rparr>)"


subsection \<open>The router\<close>

text \<open>What the routes are wired with, and one request of a client.\<close>

record ('v, 'c, 'w) backend =
  bk_deployment :: "'c deployment"
  bk_pg_lower :: "pystr \<Rightarrow> pystr"
  bk_embedder :: "pystr list \<Rightarrow> 'v list result"
  bk_embed_query :: "pystr \<Rightarrow> 'v"
  bk_distance :: "'v \<Rightarrow> 'v \<Rightarrow> rat"
  bk_system :: pystr
  bk_provider :: "('w, model_answer) provider"
  bk_top_k :: nat
  bk_assistant :: "'w assistant"
  bk_analyze :: "pystr \<Rightarrow> 'w \<Rightarrow> intent_analysis result \<times> 'w"

text \<open>The first arguments of a writing request are what the database will hand out for it.\<close>

datatype api_call =
    Post_Ticket pystr pystr rat "(pystr \<times> pystr \<times> pystr) validated"
  | Read_Ticket "pystr validated"
  | Read_Tickets "ticket_status option" "(int \<times> int) validated"
  | Post_Document pystr "nat \<Rightarrow> pystr" rat "(pystr \<times> pystr) validated"
  | Post_Answer "pystr validated"
  | Read_Document "pystr validated"
  | Read_Documents "(int \<times> int) validated"
  | Post_Conversation pystr pystr "pystr validated"
  | Read_Conversation "pystr validated"
  | Read_History "(pystr \<times> nat option) validated"
  | Post_Message "pystr option" rat "(pystr \<times> pystr option) validated"
  | Post_Intent "pystr validated"

definition route_answer :: "int \<Rightarrow> 'a answer \<times> 's \<Rightarrow> int \<times> 's" where
  "route_answer ok out = (case out of (r, s) \<Rightarrow> (http_status ok r, s))"

fun serve_call :: "('v, 'c, 'w) backend \<Rightarrow> pystr option \<Rightarrow> api_call \<Rightarrow> ('v, 'c, 'w) site \<Rightarrow> int \<times> ('v, 'c, 'w) site" where
  "serve_call bk key (Post_Ticket ci ti now request) s =
     route_answer 201 (post_ticket (bk_deployment bk) (bk_pg_lower bk) ci ti now key request s)"
| "serve_call bk key (Read_Ticket request) s = route_answer 200 (read_ticket (bk_deployment bk) key request s)"
| "serve_call bk key (Read_Tickets status request) s =
     route_answer 200 (read_tickets (bk_deployment bk) key status request s)"
| "serve_call bk key (Post_Document di ci now request) s =
     route_answer 201 (post_document (bk_deployment bk) (bk_embedder bk) di ci now key request s)"
| "serve_call bk key (Post_Answer request) s =
     route_answer 200 (post_answer (bk_deployment bk) (bk_system bk) (bk_embed_query bk) (bk_distance bk)
       (bk_provider bk) (bk_top_k bk) key request s)"
| "serve_call bk key (Read_Document request) s = route_answer 200 (read_document (bk_deployment bk) key request s)"
| "serve_call bk key (Read_Documents request) s = route_answer 200 (read_documents (bk_deployment bk) key request s)"
| "serve_call bk key (Post_Conversation ci vi request) s =
     route_answer 201 (post_conversation (bk_deployment bk) (bk_pg_lower bk) ci vi key request s)"
| "serve_call bk key (Read_Conversation request) s = route_answer 200 (read_conversation (bk_deployment bk) key request s)"
| "serve_call bk key (Read_History request) s = route_answer 200 (read_history (bk_deployment bk) key request s)"
| "serve_call bk key (Post_Message trace seconds request) s =
     route_answer 200 (post_message (bk_deployment bk) (bk_assistant bk) trace seconds key request s)"
| "serve_call bk key (Post_Intent request) s = route_answer 200 (post_intent (bk_analyze bk) request s)"

subsection \<open>Lemmas on guarded routes\<close>

lemma guarded_refused:
  "require_identity dp key = Inl e \<Longrightarrow> guarded dp key request handle s = (Inl (Handler_Raise e), s)"
  by (simp add: guarded_def)

lemma guarded_limited:
  "require_identity dp key = Inr i \<Longrightarrow> dp_check dp (id_subject i) (si_counts s) = (d, counts) \<Longrightarrow> \<not> rl_allowed d \<Longrightarrow>
   guarded dp key request handle s = (Inl (Handler_Raise (App (rate_limit_exceeded (rl_retry_after d)))), s\<lparr>si_counts := counts\<rparr>)"
  by (simp add: guarded_def enforce_rate_limit_def)

lemma guarded_admitted:
  "require_identity dp key = Inr i \<Longrightarrow> dp_check dp (id_subject i) (si_counts s) = (d, counts) \<Longrightarrow> rl_allowed d \<Longrightarrow>
   guarded dp key request handle s =
     (case request of Inl errs \<Rightarrow> (Inl (Invalid_Request errs), s\<lparr>si_counts := counts\<rparr>)
      | Inr r \<Rightarrow> (case handle i r (s\<lparr>si_counts := counts\<rparr>) of (out, s2) \<Rightarrow> (raised out, s2)))"
  by (simp add: guarded_def enforce_rate_limit_def Let_def)

text \<open>What every handler of a route keeps, the route keeps.\<close>

lemma guarded_keeps:
  assumes "guarded dp key request handle s = (out, s')" "\<And>counts. P (s\<lparr>si_counts := counts\<rparr>)" "P s"
    and "\<And>i r counts out1 s1. require_identity dp key = Inr i \<Longrightarrow>
      handle i r (s\<lparr>si_counts := counts\<rparr>) = (out1, s1) \<Longrightarrow> P s1"
  shows "P s'"
proof (cases "require_identity dp key")
  case (Inl e)
  with assms(1,3) show ?thesis by (simp add: guarded_refused)
next
  case (Inr i)
  obtain d counts where c: "dp_check dp (id_subject i) (si_counts s) = (d, counts)" by force
  show ?thesis
  proof (cases "rl_allowed d")
    case True
    note g = guarded_admitted [OF Inr c True, of request handle]
    show ?thesis
    proof (cases request)
      case (Inl errs)
      with assms(1,2) g show ?thesis by auto
    next
      case r: (Inr r)
      with assms(1) g obtain out1 where "handle i r (s\<lparr>si_counts := counts\<rparr>) = (out1, s')" by (auto split: prod.splits)
      then show ?thesis by (rule assms(4) [OF Inr])
    qed
  next
    case False
    with assms(1,2) guarded_limited [OF Inr c False, of request handle] show ?thesis by auto
  qed
qed

text \<open>The routes with the guard, and the request each carries.\<close>

fun is_guarded :: "api_call \<Rightarrow> bool" where
  "is_guarded (Post_Intent _) = False"
| "is_guarded _ = True"

fun call_errors :: "api_call \<Rightarrow> (pystr list \<times> pystr) list option" where
  "call_errors (Post_Ticket _ _ _ q) = (case q of Inl errs \<Rightarrow> Some errs | Inr _ \<Rightarrow> None)"
| "call_errors (Read_Ticket q) = (case q of Inl errs \<Rightarrow> Some errs | Inr _ \<Rightarrow> None)"
| "call_errors (Read_Tickets _ q) = (case q of Inl errs \<Rightarrow> Some errs | Inr _ \<Rightarrow> None)"
| "call_errors (Post_Document _ _ _ q) = (case q of Inl errs \<Rightarrow> Some errs | Inr _ \<Rightarrow> None)"
| "call_errors (Post_Answer q) = (case q of Inl errs \<Rightarrow> Some errs | Inr _ \<Rightarrow> None)"
| "call_errors (Read_Document q) = (case q of Inl errs \<Rightarrow> Some errs | Inr _ \<Rightarrow> None)"
| "call_errors (Read_Documents q) = (case q of Inl errs \<Rightarrow> Some errs | Inr _ \<Rightarrow> None)"
| "call_errors (Post_Conversation _ _ q) = (case q of Inl errs \<Rightarrow> Some errs | Inr _ \<Rightarrow> None)"
| "call_errors (Read_Conversation q) = (case q of Inl errs \<Rightarrow> Some errs | Inr _ \<Rightarrow> None)"
| "call_errors (Read_History q) = (case q of Inl errs \<Rightarrow> Some errs | Inr _ \<Rightarrow> None)"
| "call_errors (Post_Message _ _ q) = (case q of Inl errs \<Rightarrow> Some errs | Inr _ \<Rightarrow> None)"
| "call_errors (Post_Intent q) = (case q of Inl errs \<Rightarrow> Some errs | Inr _ \<Rightarrow> None)"

lemmas endpoint_defs = post_ticket_def read_ticket_def read_tickets_def post_document_def post_answer_def
  read_document_def read_documents_def post_conversation_def read_conversation_def read_history_def post_message_def

lemma serve_refused:
  "is_guarded call \<Longrightarrow> require_identity (bk_deployment bk) key = Inl e \<Longrightarrow>
   serve_call bk key call s = (http_status 200 (Inl (Handler_Raise e) :: unit answer), s)"
  by (cases call) (simp_all add: endpoint_defs guarded_refused route_answer_def http_status_def)

text \<open>Behind an answer of the assistant's route.\<close>

lemma post_message_Inr:
  assumes "post_message dp sv trace_id seconds key request s = (Inr m, s')"
  obtains i message ci r db w counts where "require_identity dp key = Inr i" "request = Inr (message, ci)"
    "respond sv message ci (az_scope_for (dp_authorizer dp) i) (si_conversations s, si_world s) = (Inr r, db, w)"
    "AssistantMessageResponse r trace_id = Inr m"
    "s' = s\<lparr>si_counts := counts, si_conversations := db, si_world := w, si_metrics := si_metrics s @ request_metrics r seconds\<rparr>"
proof -
  let ?handle = "\<lambda>i (message, conversation_id) s.
       case respond sv message conversation_id (az_scope_for (dp_authorizer dp) i) (si_conversations s, si_world s) of
         (Inl e, db, w) \<Rightarrow> (Inl e, s\<lparr>si_conversations := db, si_world := w\<rparr>)
       | (Inr r, db, w) \<Rightarrow>
           (AssistantMessageResponse r trace_id,
            s\<lparr>si_conversations := db, si_world := w, si_metrics := si_metrics s @ request_metrics r seconds\<rparr>)"
  from assms obtain i where i: "require_identity dp key = Inr i"
    by (cases "require_identity dp key") (simp_all add: post_message_def guarded_refused)
  obtain d counts where c: "dp_check dp (id_subject i) (si_counts s) = (d, counts)" by force
  have allowed: "rl_allowed d"
  proof (rule ccontr)
    assume "\<not> rl_allowed d"
    with assms show False unfolding post_message_def by (simp add: guarded_limited [OF i c])
  qed
  note g = assms [unfolded post_message_def guarded_admitted [OF i c allowed]]
  from g obtain message ci where q: "request = Inr (message, ci)" by (cases request) auto
  obtain p db w where r: "respond sv message ci (az_scope_for (dp_authorizer dp) i) (si_conversations s, si_world s) = (p, db, w)"
    by (metis prod.exhaust)
  with g q show ?thesis
    by (cases p) (auto simp: raised_def split: sum.splits intro: that [OF i q])
qed

lemma AssistantMessageResponse_Inr:
  "AssistantMessageResponse r trace_id = Inr m \<longleftrightarrow>
   0 \<le> ar_confidence r \<and> ar_confidence r \<le> 1 \<and> m = assistant_reply.extend r \<lparr>am_trace_id = trace_id\<rparr>"
  by (auto simp: AssistantMessageResponse_def unit_field_def bad_field_def Let_def)

text \<open>The statuses of the two refusals.\<close>

lemma limited_reply: "\<exists>r. error_reply (Handler_Raise (App (rate_limit_exceeded n))) = Some r \<and> hr_status r = 429"
  by (auto simp: handle_app_error_def ae_headers_def rate_limit_exceeded_def ae_status_def new_error_def
      RateLimitExceededError_def Let_def render_error_def issubclass_def LLMRateLimitError_def LLMError_def)

lemma invalid_reply: "\<exists>r. error_reply (Invalid_Request errs) = Some r \<and> hr_status r = 422"
  by (simp add: handle_validation_error_def render_error_def Let_def)

lemma serve_limited:
  "is_guarded call \<Longrightarrow> require_identity (bk_deployment bk) key = Inr i \<Longrightarrow>
   dp_check (bk_deployment bk) (id_subject i) (si_counts s) = (d, counts) \<Longrightarrow> \<not> rl_allowed d \<Longrightarrow>
   serve_call bk key call s = (429, s\<lparr>si_counts := counts\<rparr>)"
  using limited_reply [of "rl_retry_after d"]
  by (cases call) (auto simp: endpoint_defs guarded_limited route_answer_def http_status_def simp del: error_reply.simps)

lemma serve_invalid:
  "is_guarded call \<Longrightarrow> require_identity (bk_deployment bk) key = Inr i \<Longrightarrow>
   dp_check (bk_deployment bk) (id_subject i) (si_counts s) = (d, counts) \<Longrightarrow> rl_allowed d \<Longrightarrow> call_errors call = Some errs \<Longrightarrow>
   serve_call bk key call s = (422, s\<lparr>si_counts := counts\<rparr>)"
  using invalid_reply [of errs]
  by (cases call)
    (auto simp: endpoint_defs guarded_admitted route_answer_def http_status_def simp del: error_reply.simps split: sum.splits)


subsection \<open>What a subject can see\<close>

definition own_conversations :: "pystr \<Rightarrow> conversation_db \<Rightarrow> conversation list" where
  "own_conversations subject db = filter (\<lambda>c. cv_owner c = Some subject) (cd_conversations db)"

definition own_turns :: "pystr \<Rightarrow> conversation_db \<Rightarrow> turn list" where
  "own_turns subject db = filter (\<lambda>t. tn_conversation t \<in> cv_id ` set (own_conversations subject db)) (cd_turns db)"

definition own_view :: "pystr \<Rightarrow> ('v, 'c, 'w) site \<Rightarrow> ticket list \<times> conversation list \<times> turn list" where
  "own_view subject s =
     (own_rows subject (si_tickets s), own_conversations subject (si_conversations s), own_turns subject (si_conversations s))"

definition conversation_db_ok :: "conversation_db \<Rightarrow> bool" where
  "conversation_db_ok db \<longleftrightarrow> distinct (map cv_id (cd_conversations db)) \<and>
     tn_conversation ` set (cd_turns db) \<subseteq> cv_id ` set (cd_conversations db)"

definition site_ok :: "('v, 'c, 'w) site \<Rightarrow> bool" where
  "site_ok s \<longleftrightarrow> ticket_db_ok (si_tickets s) \<and> conversation_db_ok (si_conversations s)"

lemma own_customers [simp]:
  "own_conversations subject (db\<lparr>cd_customers := cs\<rparr>) = own_conversations subject db"
  "own_turns subject (db\<lparr>cd_customers := cs\<rparr>) = own_turns subject db"
  "conversation_db_ok (db\<lparr>cd_customers := cs\<rparr>) = conversation_db_ok db"
  by (simp_all add: own_conversations_def own_turns_def conversation_db_ok_def)

lemma start_conversation_view:
  assumes "start_conversation new_id customer owner db = (r, db')" "conversation_db_ok db" "owner \<noteq> Some subject"
  shows "conversation_db_ok db' \<and> own_conversations subject db' = own_conversations subject db \<and>
    own_turns subject db' = own_turns subject db"
proof -
  have "own_conversations subject db' = own_conversations subject db" "cd_turns db' = cd_turns db"
    using assms(1,3) by (auto simp: start_conversation_def Let_def own_conversations_def split: if_splits)
  moreover have "conversation_db_ok db'"
    using assms(1,2) by (auto simp: start_conversation_def Let_def conversation_db_ok_def image_subset_iff split: if_splits)
  ultimately show ?thesis by (simp add: own_turns_def)
qed

lemma insert_turn_view:
  assumes "insert_turn t db = (r, db')" "conversation_db_ok db"
    and "tn_conversation t \<notin> cv_id ` set (own_conversations subject db)"
  shows "conversation_db_ok db' \<and> own_conversations subject db' = own_conversations subject db \<and>
    own_turns subject db' = own_turns subject db"
  using assms
  by (auto simp: insert_turn_def conversation_db_ok_def own_conversations_def own_turns_def image_subset_iff split: if_splits)

lemma get_conversation_scoped:
  "get_conversation i (Some s) db = Inr c \<Longrightarrow> c \<in> set (cd_conversations db) \<and> cv_id c = i \<and> cv_owner c = Some s"
  by (auto simp: get_conversation_def Let_def raise_app_def find_Some_iff scope_permits_def split: option.splits if_splits)

lemma other_owner:
  assumes "conversation_db_ok db" "c \<in> set (cd_conversations db)" "cv_owner c \<noteq> Some subject"
  shows "cv_id c \<notin> cv_id ` set (own_conversations subject db)"
  using assms by (auto simp: own_conversations_def conversation_db_ok_def distinct_map dest: inj_onD)

lemma append_turn_view:
  assumes "append_turn i role content citations (Some s) db = (r, db')" "conversation_db_ok db" "s \<noteq> subject"
  shows "conversation_db_ok db' \<and> own_conversations subject db' = own_conversations subject db \<and>
    own_turns subject db' = own_turns subject db"
proof (cases "get_conversation i (Some s) db")
  case (Inl e)
  with assms show ?thesis by (simp add: append_turn_def)
next
  case (Inr c)
  note c = get_conversation_scoped [OF Inr]
  then have "i \<notin> cv_id ` set (own_conversations subject db)"
    using other_owner [OF assms(2), of c subject] assms(3) by simp
  moreover have "insert_turn (new_turn i (next_position i db) role content citations) db = (r, db')"
    using assms(1) Inr by (simp add: append_turn_def)
  ultimately show ?thesis using insert_turn_view [OF _ assms(2)] by (simp add: new_turn_def)
qed

lemma record_exchange_view:
  assumes "record_exchange ci role content citations (Some s) db = (r, db')" "conversation_db_ok db" "s \<noteq> subject"
  shows "conversation_db_ok db' \<and> own_conversations subject db' = own_conversations subject db \<and>
    own_turns subject db' = own_turns subject db"
  using assms append_turn_view [OF _ assms(2,3)]
  by (auto simp: record_exchange_def split: option.splits prod.splits sum.splits)

lemma respond_view:
  assumes "respond sv message ci (Some s) (db, w) = (out, db', w')" "conversation_db_ok db" "s \<noteq> subject"
  shows "conversation_db_ok db' \<and> own_conversations subject db' = own_conversations subject db \<and>
    own_turns subject db' = own_turns subject db"
proof -
  obtain r1 db1 where 1: "record_exchange ci CUSTOMER message [] (Some s) db = (r1, db1)" by force
  note v1 = record_exchange_view [OF 1 assms(2,3)]
  obtain r2 w2 where 2: "answer_message sv message w = (r2, w2)" by force
  show ?thesis
  proof (cases "(\<exists>e. r1 = Inl e) \<or> (\<exists>e. r2 = Inl e)")
    case True
    with assms(1) v1 1 2 show ?thesis by (auto simp: respond_def split: sum.splits)
  next
    case False
    then obtain u routed handoff where ok: "r1 = Inr u" "r2 = Inr (routed, handoff)" by (cases r1; cases r2) auto
    obtain r3 db3 where 3: "record_exchange ci ASSISTANT (ho_reply handoff) (rr_citations routed) (Some s) db1 = (r3, db3)" by force
    from record_exchange_view [OF 3 _ assms(3)] v1 have "conversation_db_ok db3 \<and>
      own_conversations subject db3 = own_conversations subject db \<and> own_turns subject db3 = own_turns subject db" by auto
    moreover have "db' = db3" using assms(1) 1 2 3 ok by (auto simp: respond_def split: sum.splits)
    ultimately show ?thesis by simp
  qed
qed

lemma customer_for_view:
  assumes "customer_for pg_lower ci email db = (r, db')" "ticket_db_ok db"
  shows "ticket_db_ok db' \<and> own_rows subject db' = own_rows subject db"
proof -
  obtain q rows where g: "get_or_create_customer pg_lower ci (normalise_email email) (td_customers db) = (q, rows)" by force
  show ?thesis
  proof (cases q)
    case (Inl e)
    with g assms show ?thesis by (simp add: customer_for_def)
  next
    case (Inr c)
    with g assms(1) have "db' = db\<lparr>td_customers := rows\<rparr>" by (simp add: customer_for_def)
    with get_or_create_Inr [OF g [unfolded Inr]] assms(2) show ?thesis
      by (auto simp: ticket_db_ok_def own_rows_def image_subset_iff)
  qed
qed

lemma create_ticket_view:
  assumes "create_ticket pg_lower ci ti now email subject body owner db = (r, db')" "ticket_db_ok db" "owner \<noteq> Some s"
  shows "ticket_db_ok db' \<and> own_rows s db' = own_rows s db"
  using create_ticket_ok [OF assms(2,1)] create_ticket_others [OF assms(3), of pg_lower ci ti now email subject body db]
    assms(1) by simp

text \<open>Reads of a subject are a function of its view and of what is asked for.\<close>

lemma find_own:
  assumes "conversation_db_ok db"
  shows "List.find (\<lambda>c. cv_id c = i) (own_conversations subject db) =
    (case List.find (\<lambda>c. cv_id c = i) (cd_conversations db) of
       None \<Rightarrow> None | Some c \<Rightarrow> if cv_owner c = Some subject then Some c else None)"
  unfolding own_conversations_def using assms
  by (intro find_filter [symmetric]) (simp add: conversation_db_ok_def)

lemma scoped_conversation:
  assumes "conversation_db_ok db"
  shows "get_conversation i (Some subject) db =
    (case List.find (\<lambda>c. cv_id c = i) (own_conversations subject db) of
       None \<Rightarrow> raise_app ConversationNotFoundError None (Some [(str ''conversation_id'', PStr i)])
     | Some c \<Rightarrow> Inr c)"
  unfolding find_own [OF assms] get_conversation_def Let_def by (auto simp: scope_permits_def split: option.split)

lemma own_history:
  assumes "i \<in> cv_id ` set (own_conversations subject db)"
  shows "turns_of i db = filter (\<lambda>t. tn_conversation t = i) (own_turns subject db)"
  unfolding turns_of_def own_turns_def filter_filter using assms by (intro filter_cong) auto

lemma same_conversation:
  assumes "conversation_db_ok db" "conversation_db_ok db'" "own_conversations subject db = own_conversations subject db'"
  shows "get_conversation i (Some subject) db = get_conversation i (Some subject) db'"
  by (simp add: scoped_conversation assms)

lemma same_history:
  assumes "conversation_db_ok db" "own_conversations subject db = own_conversations subject db'"
    "own_turns subject db = own_turns subject db'" "get_conversation i (Some subject) db = Inr c"
  shows "history i limit db = history i limit db'"
proof -
  from get_conversation_scoped [OF assms(4)] have "i \<in> cv_id ` set (own_conversations subject db)"
    by (auto simp: own_conversations_def)
  then have "turns_of i db = turns_of i db'"
    using own_history [of i subject db] own_history [of i subject db'] assms(2,3) by metis
  then show ?thesis by (simp add: history_def split: option.split)
qed

text \<open>A route keeps the view of a subject it is not called by, if its handler does.\<close>

definition view_kept :: "pystr \<Rightarrow> ('v, 'c, 'w) site \<Rightarrow> ('v, 'c, 'w) site \<Rightarrow> bool" where
  "view_kept subject s s' \<longleftrightarrow> site_ok s' \<and> own_view subject s' = own_view subject s"

lemma view_kept_counts [simp]: "view_kept subject s (s'\<lparr>si_counts := counts\<rparr>) = view_kept subject s s'"
  by (simp add: view_kept_def site_ok_def own_view_def)

lemma view_kept_refl [intro]: "site_ok s \<Longrightarrow> view_kept subject s s"
  by (simp add: view_kept_def)

lemma view_kept_trans: "view_kept subject s s' \<Longrightarrow> view_kept subject s' s'' \<Longrightarrow> view_kept subject s s''"
  by (simp add: view_kept_def)

lemma guarded_view:
  assumes "guarded dp key request handle s = (out, s')" "site_ok s"
    and "\<And>i r counts out1 s1. require_identity dp key = Inr i \<Longrightarrow>
      handle i r (s\<lparr>si_counts := counts\<rparr>) = (out1, s1) \<Longrightarrow> view_kept subject s s1"
  shows "view_kept subject s s'"
  by (rule guarded_keeps [OF assms(1), of "view_kept subject s"]) (use assms(2,3) in auto)

lemma post_ticket_view:
  assumes "post_ticket dp pg_lower ci ti now key request s = (out, s')" "site_ok s"
    "dp_authorizer dp = subject_authorizer" "\<And>i. require_identity dp key = Inr i \<Longrightarrow> id_subject i \<noteq> subject"
  shows "view_kept subject s s'"
  using assms(1) unfolding post_ticket_def
proof (rule guarded_view [OF _ assms(2)])
  fix i r counts out1 s1
  assume i: "require_identity dp key = Inr i"
    and h: "(\<lambda>(email, subj, body) s. case create_ticket pg_lower ci ti now email subj body
              (az_owner_for (dp_authorizer dp) i) (si_tickets s) of
         (r, db) \<Rightarrow> (map_result ticket_response_of r, s\<lparr>si_tickets := db\<rparr>)) r (s\<lparr>si_counts := counts\<rparr>) = (out1, s1)"
  obtain email subj body where r: "r = (email, subj, body)" by (cases r)
  obtain q db where c: "create_ticket pg_lower ci ti now email subj body (az_owner_for (dp_authorizer dp) i) (si_tickets s) = (q, db)"
    by force
  have "ticket_db_ok db \<and> own_rows subject db = own_rows subject (si_tickets s)"
    using create_ticket_view [OF c] assms(2,3,4) i by (simp add: site_ok_def subject_authorizer_def)
  with h r c assms(2) show "view_kept subject s s1" by (auto simp: view_kept_def site_ok_def own_view_def)
qed

lemma post_conversation_view:
  assumes "post_conversation dp pg_lower ci vi key request s = (out, s')" "site_ok s"
    "dp_authorizer dp = subject_authorizer" "\<And>i. require_identity dp key = Inr i \<Longrightarrow> id_subject i \<noteq> subject"
  shows "view_kept subject s s'"
  using assms(1) unfolding post_conversation_def
proof (rule guarded_view [OF _ assms(2)])
  fix i email counts out1 s1
  let ?s = "s\<lparr>si_counts := counts\<rparr>"
  assume i: "require_identity dp key = Inr i"
    and h: "(case customer_for pg_lower ci email (si_tickets ?s) of
         (Inl e, db) \<Rightarrow> (Inl e, ?s\<lparr>si_tickets := db\<rparr>)
       | (Inr c, db) \<Rightarrow>
           (case start_conversation vi (cu_id c) (az_owner_for (dp_authorizer dp) i)
                   ((si_conversations ?s)\<lparr>cd_customers := map cu_id (td_customers db)\<rparr>) of
              (r, cdb) \<Rightarrow> (map_result conversation_response_of r, ?s\<lparr>si_tickets := db, si_conversations := cdb\<rparr>))) = (out1, s1)"
  obtain q db where c: "customer_for pg_lower ci email (si_tickets s) = (q, db)" by force
  have db: "ticket_db_ok db \<and> own_rows subject db = own_rows subject (si_tickets s)"
    using customer_for_view [OF c] assms(2) by (simp add: site_ok_def)
  show "view_kept subject s s1"
  proof (cases q)
    case (Inl e)
    with h c db assms(2) show ?thesis by (auto simp: view_kept_def site_ok_def own_view_def)
  next
    case (Inr cu)
    obtain q2 cdb where v: "start_conversation vi (cu_id cu) (az_owner_for (dp_authorizer dp) i)
        ((si_conversations s)\<lparr>cd_customers := map cu_id (td_customers db)\<rparr>) = (q2, cdb)" by force
    have "conversation_db_ok cdb \<and> own_conversations subject cdb = own_conversations subject (si_conversations s) \<and>
        own_turns subject cdb = own_turns subject (si_conversations s)"
      using start_conversation_view [OF v, of subject] assms(2,3,4) i by (simp add: site_ok_def subject_authorizer_def)
    with h c v Inr db show ?thesis by (auto simp: view_kept_def site_ok_def own_view_def)
  qed
qed

lemma post_message_view:
  assumes "post_message dp sv trace_id seconds key request s = (out, s')" "site_ok s"
    "dp_authorizer dp = subject_authorizer" "\<And>i. require_identity dp key = Inr i \<Longrightarrow> id_subject i \<noteq> subject"
  shows "view_kept subject s s'"
  using assms(1) unfolding post_message_def
proof (rule guarded_view [OF _ assms(2)])
  fix i r counts out1 s1
  let ?s = "s\<lparr>si_counts := counts\<rparr>"
  assume i: "require_identity dp key = Inr i"
    and h: "(\<lambda>(message, conversation_id) s.
       case respond sv message conversation_id (az_scope_for (dp_authorizer dp) i) (si_conversations s, si_world s) of
         (Inl e, db, w) \<Rightarrow> (Inl e, s\<lparr>si_conversations := db, si_world := w\<rparr>)
       | (Inr r, db, w) \<Rightarrow>
           (AssistantMessageResponse r trace_id,
            s\<lparr>si_conversations := db, si_world := w, si_metrics := si_metrics s @ request_metrics r seconds\<rparr>)) r ?s = (out1, s1)"
  obtain message ci where r: "r = (message, ci)" by (cases r)
  obtain q db w where c: "respond sv message ci (Some (id_subject i)) (si_conversations s, si_world s) = (q, db, w)"
    by (metis prod.exhaust)
  have "conversation_db_ok db \<and> own_conversations subject db = own_conversations subject (si_conversations s) \<and>
      own_turns subject db = own_turns subject (si_conversations s)"
    using respond_view [OF c _ assms(4) [OF i]] assms(2) by (simp add: site_ok_def)
  with h r c assms(2,3) show "view_kept subject s s1"
    by (cases q) (auto simp: view_kept_def site_ok_def own_view_def subject_authorizer_def)
qed

lemma reading_view:
  "read_ticket dp key q1 s = (o1, s') \<Longrightarrow> site_ok s \<Longrightarrow> view_kept subject s s'"
  "read_tickets dp key status q2 s = (o2, s') \<Longrightarrow> site_ok s \<Longrightarrow> view_kept subject s s'"
  "read_conversation dp key q1 s = (o3, s') \<Longrightarrow> site_ok s \<Longrightarrow> view_kept subject s s'"
  "read_history dp key q4 s = (o4, s') \<Longrightarrow> site_ok s \<Longrightarrow> view_kept subject s s'"
  "read_document dp key q1 s = (o5, s') \<Longrightarrow> site_ok s \<Longrightarrow> view_kept subject s s'"
  "read_documents dp key q2 s = (o6, s') \<Longrightarrow> site_ok s \<Longrightarrow> view_kept subject s s'"
  unfolding read_ticket_def read_tickets_def read_conversation_def read_history_def read_document_def read_documents_def
  by (erule guarded_view, assumption, force)+

lemma post_document_view:
  "post_document dp embedder document_id chunk_id now key request s = (out, s') \<Longrightarrow> site_ok s \<Longrightarrow> view_kept subject s s'"
  unfolding post_document_def
  by (erule guarded_view, assumption) (auto simp: view_kept_def site_ok_def own_view_def split: prod.splits)

lemma post_answer_view:
  "post_answer dp system query distance provider top_k key request s = (out, s') \<Longrightarrow> site_ok s \<Longrightarrow> view_kept subject s s'"
  unfolding post_answer_def
  by (erule guarded_view, assumption) (auto simp: view_kept_def site_ok_def own_view_def split: prod.splits)

lemma post_intent_view:
  "post_intent analyze q s = (out, s') \<Longrightarrow> site_ok s \<Longrightarrow> view_kept subject s s'"
  by (auto simp: post_intent_def view_kept_def site_ok_def own_view_def split: sum.splits prod.splits)

lemma route_answer_view:
  "(\<And>out s'. result = (out, s') \<Longrightarrow> view_kept subject s s') \<Longrightarrow> view_kept subject s (snd (route_answer ok result))"
  by (cases result) (simp add: route_answer_def)

lemma serve_view:
  assumes "site_ok s" "dp_authorizer (bk_deployment bk) = subject_authorizer"
    "is_guarded call \<Longrightarrow> \<forall>i. require_identity (bk_deployment bk) key = Inr i \<longrightarrow> id_subject i \<noteq> subject"
  shows "view_kept subject s (snd (serve_call bk key call s))"
  using assms
  by (cases call)
    (auto intro!: route_answer_view intro: post_ticket_view post_conversation_view post_message_view reading_view
      post_document_view post_answer_view post_intent_view)

text \<open>
  Unwinding: when no step of the others changes what an observer sees of a well-formed state, no
  run of theirs does.
\<close>

locale unobserved_steps =
  fixes step :: "'call \<Rightarrow> 's \<Rightarrow> 's"
    and ok :: "'s \<Rightarrow> bool"
    and sees :: "'o \<Rightarrow> 's \<Rightarrow> 'x"
    and others :: "'o \<Rightarrow> 'call \<Rightarrow> bool"
  assumes step_unobserved: "others obs c \<Longrightarrow> ok s \<Longrightarrow> ok (step c s) \<and> sees obs (step c s) = sees obs s"
begin

lemma run_unobserved:
  "list_all (others obs) cs \<Longrightarrow> ok s \<Longrightarrow> ok (fold step cs s) \<and> sees obs (fold step cs s) = sees obs s"
proof (induction cs arbitrary: s)
  case (Cons c cs)
  with step_unobserved [of obs c s] Cons.IH [of "step c s"] show ?case by simp
qed simp

end

text \<open>Any number of requests, each with its key.\<close>

definition serve_keyed :: "('v, 'c, 'w) backend \<Rightarrow> pystr option \<times> api_call \<Rightarrow> ('v, 'c, 'w) site \<Rightarrow> ('v, 'c, 'w) site" where
  "serve_keyed bk c s = snd (serve_call bk (fst c) (snd c) s)"

definition serve_calls :: "('v, 'c, 'w) backend \<Rightarrow> (pystr option \<times> api_call) list \<Rightarrow> ('v, 'c, 'w) site \<Rightarrow> ('v, 'c, 'w) site" where
  "serve_calls bk = fold (serve_keyed bk)"

definition call_by_other :: "'c deployment \<Rightarrow> pystr \<Rightarrow> pystr option \<times> api_call \<Rightarrow> bool" where
  "call_by_other dp subject c \<longleftrightarrow>
     (is_guarded (snd c) \<longrightarrow>
       (case require_identity dp (fst c) of Inl _ \<Rightarrow> True | Inr i \<Rightarrow> id_subject i \<noteq> subject))"

definition calls_by_others :: "'c deployment \<Rightarrow> pystr \<Rightarrow> (pystr option \<times> api_call) list \<Rightarrow> bool" where
  "calls_by_others dp subject = list_all (call_by_other dp subject)"

interpretation scoped_site: unobserved_steps "serve_keyed bk" site_ok own_view
  "\<lambda>subject c. dp_authorizer (bk_deployment bk) = subject_authorizer \<and> call_by_other (bk_deployment bk) subject c"
  for bk :: "('v, 'c, 'w) backend"
proof
  fix subject c and s :: "('v, 'c, 'w) site"
  assume "dp_authorizer (bk_deployment bk) = subject_authorizer \<and> call_by_other (bk_deployment bk) subject c" "site_ok s"
  then show "site_ok (serve_keyed bk c s) \<and> own_view subject (serve_keyed bk c s) = own_view subject s"
    using serve_view [of s bk "snd c" "fst c" subject]
    by (auto simp: serve_keyed_def call_by_other_def view_kept_def split: sum.splits)
qed

lemma serve_calls_view:
  assumes "dp_authorizer (bk_deployment bk) = subject_authorizer" "calls_by_others (bk_deployment bk) subject calls" "site_ok s"
  shows "view_kept subject s (serve_calls bk calls s)"
  using scoped_site.run_unobserved [of bk subject calls s] assms
  by (simp add: view_kept_def serve_calls_def calls_by_others_def)

text \<open>What a subject reads through a route, from equal views.\<close>

lemma guarded_same:
  assumes "require_identity dp key = Inr i" "si_counts s = si_counts s'"
    "\<And>r counts. fst (handle i r (s\<lparr>si_counts := counts\<rparr>)) = fst (handle i r (s'\<lparr>si_counts := counts\<rparr>))"
  shows "fst (guarded dp key request handle s) = fst (guarded dp key request handle s')"
proof -
  have "raised (fst (handle i r (s\<lparr>si_counts := counts\<rparr>))) = raised (fst (handle i r (s'\<lparr>si_counts := counts\<rparr>)))"
    for r counts by (simp add: assms(3))
  then show ?thesis using assms(1,2) by (auto simp: guarded_def Let_def case_prod_beta split: sum.split)
qed

lemma same_reads:
  assumes "dp_authorizer dp = subject_authorizer" "require_identity dp key = Inr i" "id_subject i = subject"
    "site_ok s" "view_kept subject s s'" "si_counts s = si_counts s'"
  shows "fst (read_ticket dp key q1 s) = fst (read_ticket dp key q1 s')"
    "fst (read_tickets dp key status q2 s) = fst (read_tickets dp key status q2 s')"
    "fst (read_conversation dp key q3 s) = fst (read_conversation dp key q3 s')"
    "fst (read_history dp key q4 s) = fst (read_history dp key q4 s')"
proof -
  have scope: "az_scope_for (dp_authorizer dp) i = Some subject" using assms(1,3) by (simp add: subject_authorizer_def)
  have rows: "own_rows subject (si_tickets s) = own_rows subject (si_tickets s')"
    and own: "own_conversations subject (si_conversations s) = own_conversations subject (si_conversations s')"
    and turns: "own_turns subject (si_conversations s) = own_turns subject (si_conversations s')"
    using assms(5) by (simp_all add: view_kept_def own_view_def)
  have t: "distinct (map tk_id (td_tickets (si_tickets s)))" "distinct (map tk_id (td_tickets (si_tickets s')))"
    and ok: "conversation_db_ok (si_conversations s)" "conversation_db_ok (si_conversations s')"
    using assms(4,5) by (simp_all add: view_kept_def site_ok_def ticket_db_ok_def)
  note same = same_conversation [OF ok own]
  show "fst (read_ticket dp key q1 s) = fst (read_ticket dp key q1 s')"
    unfolding read_ticket_def using assms(2,6) by (rule guarded_same) (simp add: scope scoped_get t rows)
  show "fst (read_tickets dp key status q2 s) = fst (read_tickets dp key status q2 s')"
    unfolding read_tickets_def using assms(2,6) by (rule guarded_same) (simp add: scope scoped_list rows split: prod.split)
  show "fst (read_conversation dp key q3 s) = fst (read_conversation dp key q3 s')"
    unfolding read_conversation_def using assms(2,6) by (rule guarded_same) (simp add: scope same)
  have h: "map_result (\<lambda>_. \<lparr>hs_conversation_id = i, hs_messages = map message_response_of (history i limit (si_conversations s))\<rparr>)
        (get_conversation i (Some subject) (si_conversations s)) =
      map_result (\<lambda>_. \<lparr>hs_conversation_id = i, hs_messages = map message_response_of (history i limit (si_conversations s'))\<rparr>)
        (get_conversation i (Some subject) (si_conversations s'))" for i limit
  proof (cases "get_conversation i (Some subject) (si_conversations s)")
    case (Inr c)
    with same_history [OF ok(1) own turns Inr] same show ?thesis by (simp add: map_result_def)
  qed (simp add: same [symmetric] map_result_def)
  show "fst (read_history dp key q4 s) = fst (read_history dp key q4 s')"
    unfolding read_history_def using assms(2,6) by (rule guarded_same) (auto simp: scope h split: prod.split)
qed

lemma route_500 [simp]:
  "\<forall>e. x \<noteq> App e \<Longrightarrow> http_status ok (raised (Inl x)) = 500"
  by (cases x) (simp_all add: http_status_def raised_def)

lemma unavailable_503:
  "http_status ok (raised (raise_app DatabaseUnavailableError None details)) = 503"
  by (simp add: http_status_def raised_def raise_app_def handle_app_error_def ae_headers_def ae_status_def new_error_def
      DatabaseUnavailableError_def DatabaseError_def render_error_def issubclass_def RateLimitExceededError_def
      LLMRateLimitError_def LLMError_def AuthenticationError_def Let_def)

lemma route_ok [simp]: "http_status ok (raised (Inr x)) = ok"
  by (simp add: http_status_def raised_def)

lemma not_configured:
  "st_database_url s = None \<Longrightarrow> database_status make_engine probe s = Inr CS_NOT_CONFIGURED"
  by (simp add: database_status_def build_engine_def raise_app_def issubclass_def DatabaseNotConfiguredError_def new_error_def)

lemma probed:
  "st_database_url s = Some url \<Longrightarrow> \<forall>e. make_engine url \<noteq> Inl (App e) \<Longrightarrow>
   database_status make_engine probe s =
     (case make_engine url of
        Inl e \<Rightarrow> Inl e
      | Inr _ \<Rightarrow> (case probe of
          Inr _ \<Rightarrow> Inr CS_OK
        | Inl e \<Rightarrow> if sqlalchemy_failure e \<or> os_failure e then Inr CS_UNAVAILABLE else Inl e))"
  by (auto simp: database_status_def build_engine_def and_then_def split: sum.split exn.split)

text \<open>The status of the check, from what was found of the database.\<close>

lemma ready_status:
  "\<forall>a. r \<noteq> Inl (App a) \<Longrightarrow> database_status make_engine probe s = r \<Longrightarrow>
   http_status 200 (raised (ready make_engine probe ping s)) =
     (case r of Inl _ \<Rightarrow> 500 | Inr c \<Rightarrow> if c = CS_UNAVAILABLE then 503 else 200)"
  by (cases r) (auto simp: ready_def unavailable_503)

subsection \<open>Properties\<close>


text \<open>Two subjects with keys, one request each in a minute, and what the tables hold of them.\<close>

definition sample_deployment :: "counts deployment" where
  "sample_deployment =
     \<lparr>dp_authenticator = \<lparr>au_protects = True, au_authenticate = api_key_authenticate
        [\<lparr>cr_subject = str ''alice'', cr_secret = str ''key-a''\<rparr>, \<lparr>cr_subject = str ''bob'', cr_secret = str ''key-b''\<rparr>]\<rparr>,
      dp_authorizer = subject_authorizer,
      dp_check = (\<lambda>key cs. memory_check \<lparr>li_limit = 1, li_window = 60\<rparr> key 90 cs)\<rparr>"

definition sample_site :: "'v document_db \<Rightarrow> 'w \<Rightarrow> ('v, counts, 'w) site" where
  "sample_site docs w =
     \<lparr>si_counts = [], si_tickets = sample_tickets [sample_ticket 2 (str ''alice''), sample_ticket 3 (str ''bob'')],
      si_documents = docs, si_conversations = race_db [], si_metrics = [], si_world = w\<rparr>"

lemma sample_identities:
  "require_identity sample_deployment None = raise_app AuthenticationRequiredError None None"
  "require_identity sample_deployment (Some (str ''key-a'')) = api_key_identity (str ''alice'')"
  "require_identity sample_deployment (Some (str ''key-b'')) = api_key_identity (str ''bob'')"
  by (simp_all add: require_identity_def sample_deployment_def api_key_authenticate_def match_credential_def
      compare_digest_def str_def)




text \<open>
  C36: Readiness is the database's. When the driver raises nothing of the application's own, the
  readiness check answers 503 exactly when a database is configured and its probe fails with a
  database or an operating-system error, 200 exactly when none is configured or the probe
  passes, and 500 otherwise: a queue, a model provider or a limiter that is down never takes
  the process out of rotation.
\<close>

theorem readiness_is_the_databases:
  assumes "\<forall>url e. make_engine url \<noteq> Inl (App e)" "\<forall>e. probe \<noteq> Inl (App e)"
  shows "let status = http_status 200 (raised (ready make_engine probe ping s)) in
    (status = 503 \<longleftrightarrow> (\<exists>url e. st_database_url s = Some url \<and> make_engine url = Inr () \<and>
       probe = Inl e \<and> (sqlalchemy_failure e \<or> os_failure e))) \<and>
    (status = 200 \<longleftrightarrow> st_database_url s = None \<or>
       (\<exists>url. st_database_url s = Some url \<and> make_engine url = Inr () \<and> probe = Inr ())) \<and>
    status \<in> {200, 500, 503}"
proof (cases "st_database_url s")
  case None
  then show ?thesis by (simp add: ready_def not_configured)
next
  case (Some url)
  have engine: "\<forall>e. make_engine url \<noteq> Inl (App e)" using assms(1) by blast
  let ?r = "case make_engine url of
      Inl e \<Rightarrow> Inl e
    | Inr _ \<Rightarrow> (case probe of
        Inr _ \<Rightarrow> Inr CS_OK
      | Inl e \<Rightarrow> if sqlalchemy_failure e \<or> os_failure e then Inr CS_UNAVAILABLE else Inl e)"
  have "\<forall>a. ?r \<noteq> Inl (App a)" using engine assms(2) by (auto split: sum.split)
  moreover have "database_status make_engine probe s = ?r" using Some engine by (rule probed)
  ultimately have "http_status 200 (raised (ready make_engine probe ping s)) =
      (case ?r of Inl _ \<Rightarrow> 500 | Inr c \<Rightarrow> if c = CS_UNAVAILABLE then 503 else 200)" by (rule ready_status)
  then show ?thesis by (cases "make_engine url"; cases probe) (auto simp: Some)
qed

lemma readiness_is_the_databases_witness:
  "\<forall>s. http_status 200 (raised (ready (\<lambda>_. Inr ()) (Inl (OSError (str ''ConnectionRefusedError''))) (Inr True)
      (s\<lparr>st_database_url := Some (str ''postgresql+asyncpg://db'')\<rparr>))) = 503 \<and>
    http_status 200 (raised (ready (\<lambda>_. Inr ()) (Inr ()) (Inl TimeoutError) (s\<lparr>st_database_url := None\<rparr>))) = 200"
proof (intro allI conjI)
  fix s :: settings
  show "http_status 200 (raised (ready (\<lambda>_. Inr ()) (Inl (OSError (str ''ConnectionRefusedError''))) (Inr True)
      (s\<lparr>st_database_url := Some (str ''postgresql+asyncpg://db'')\<rparr>))) = 503"
    using readiness_is_the_databases [of "\<lambda>_. Inr ()" "Inl (OSError (str ''ConnectionRefusedError''))" "Inr True"
        "s\<lparr>st_database_url := Some (str ''postgresql+asyncpg://db'')\<rparr>"]
    by (simp add: Let_def)
  show "http_status 200 (raised (ready (\<lambda>_. Inr ()) (Inr ()) (Inl TimeoutError) (s\<lparr>st_database_url := None\<rparr>))) = 200"
    using readiness_is_the_databases [of "\<lambda>_. Inr ()" "Inr ()" "Inl TimeoutError" "s\<lparr>st_database_url := None\<rparr>"]
    by (simp add: Let_def)
qed

text \<open>
  The schema counts a subject's characters, the table its characters between the spaces: a
  subject of spaces passes the one and is refused by the other, which no handler renders.
\<close>

lemma blank_subjects_are_500:
  assumes "email_str email = Inr [97]" "require_identity dp key = Inr i" "dp_check dp (id_subject i) (si_counts s) = (d, counts)"
    "rl_allowed d"
  shows "http_status 201 (fst (post_ticket dp pg_lower [1] [2] now key (ticket_create_request email_str email [32] [98]) s)) = 500"
proof -
  have "ticket_create_request email_str email [32] [98] = Inr ([97], [32], [98])"
    by (simp add: ticket_create_request_def assms(1) text_field_def MAX_SUBJECT_def MAX_BODY_def Let_def)
  moreover have "\<exists>e db'. create_ticket pg_lower [1] [2] now [97] [32] [98] owner db = (Inl e, db') \<and> (\<forall>a. e \<noteq> App a)"
    for owner db
  proof -
    have "\<exists>e. create_ticket pg_lower [1] [2] now [97] [32] [98] owner db = (Inl e, db)"
      by (auto simp: create_ticket_def insert_ticket_def new_ticket_def blank_def split: prod.split sum.split)
    then show ?thesis using create_ticket_sqlalchemy by fastforce
  qed
  moreover obtain e db' where c: "create_ticket pg_lower [1] [2] now [97] [32] [98] (az_owner_for (dp_authorizer dp) i)
      (si_tickets s) = (Inl e, db')" "\<forall>a. e \<noteq> App a" using calculation(2) by blast
  ultimately have "fst (post_ticket dp pg_lower [1] [2] now key (ticket_create_request email_str email [32] [98]) s) =
      raised (map_result ticket_response_of (Inl e))"
    unfolding post_ticket_def by (simp add: guarded_admitted [OF assms(2-4)])
  then show ?thesis using c(2) by (simp add: map_result_def)
qed

end
