(* ===== verification/Schema.thy ===== *)
theory Schema
  imports Settings Tickets Escalation Conversations
begin

text \<open>
  The database schema: \<open>db/base.py\<close> and \<open>models/\<close> declare the tables, the revisions under
  \<open>alembic/versions/\<close> build them statement by statement and \<open>alembic/env.py\<close> says which database
  is meant. A statement of a revision changes a catalogue of tables the way PostgreSQL
  documents it, with its refusals; the rows are not in the catalogue, so what a table that may
  hold rows would refuse is refused. Proved: the revisions build exactly what the models
  declare, and each downgrade undoes its upgrade on every catalogue.
\<close>

subsection \<open>The catalogue\<close>

datatype column_type = Uuid_Type | Varchar nat | Text_Type | Integer_Type | Timestamptz | Vector nat | Jsonb

datatype column_default = Literal pystr | Expression string

record column =
  cl_name :: string
  cl_type :: column_type
  cl_default :: "column_default option"
  cl_nullable :: bool

datatype on_delete = Restrict | Cascade | Set_Null

datatype check_clause = Sql string | One_Of string "pystr list"

datatype table_constraint =
    Check string check_clause
  | Primary_Key string "string list"
  | Unique string "string list"
  | Foreign_Key string string string string on_delete

record index =
  ix_name :: string
  ix_columns :: "string list"
  ix_unique :: bool
  ix_using :: "string option"
  ix_ops :: "(string \<times> string) list"

record table =
  tb_name :: string
  tb_columns :: "column list"
  tb_constraints :: "table_constraint list"
  tb_indexes :: "index list"

record catalogue =
  ct_extensions :: "string list"
  ct_tables :: "table list"

fun constraint_name :: "table_constraint \<Rightarrow> string" where
  "constraint_name (Check n _) = n"
| "constraint_name (Primary_Key n _) = n"
| "constraint_name (Unique n _) = n"
| "constraint_name (Foreign_Key n _ _ _ _) = n"

fun constraint_columns :: "table_constraint \<Rightarrow> string list" where
  "constraint_columns (Check _ (Sql _)) = []"
| "constraint_columns (Check _ (One_Of c _)) = [c]"
| "constraint_columns (Primary_Key _ cs) = cs"
| "constraint_columns (Unique _ cs) = cs"
| "constraint_columns (Foreign_Key _ c _ _ _) = [c]"

text \<open>Primary keys and unique constraints are backed by an index of their name.\<close>

fun backing_index :: "table_constraint \<Rightarrow> string list" where
  "backing_index (Primary_Key n _) = [n]"
| "backing_index (Unique n _) = [n]"
| "backing_index _ = []"

fun references_of :: "table_constraint \<Rightarrow> (string \<times> string) list" where
  "references_of (Foreign_Key _ _ t c _) = [(t, c)]"
| "references_of _ = []"

definition column_names :: "table \<Rightarrow> string list" where
  "column_names tb = map cl_name (tb_columns tb)"

definition table_references :: "table \<Rightarrow> (string \<times> string) list" where
  "table_references tb = concat (map references_of (tb_constraints tb))"

text \<open>Tables and indexes share one name space.\<close>

definition relation_names :: "table \<Rightarrow> string list" where
  "relation_names tb = tb_name tb # concat (map backing_index (tb_constraints tb)) @ map ix_name (tb_indexes tb)"

definition find_table :: "string \<Rightarrow> catalogue \<Rightarrow> table option" where
  "find_table t ct = List.find (\<lambda>tb. tb_name tb = t) (ct_tables ct)"

subsection \<open>Names\<close>

text \<open>\<open>NAMING_CONVENTION\<close>\<close>

definition ix_convention :: "string \<Rightarrow> string \<Rightarrow> string" where
  "ix_convention t c = ''ix_'' @ t @ ''_'' @ c"

definition uq_convention :: "string \<Rightarrow> string \<Rightarrow> string" where
  "uq_convention t c = ''uq_'' @ t @ ''_'' @ c"

definition ck_convention :: "string \<Rightarrow> string \<Rightarrow> string" where
  "ck_convention t n = ''ck_'' @ t @ ''_'' @ n"

definition fk_convention :: "string \<Rightarrow> string \<Rightarrow> string \<Rightarrow> string" where
  "fk_convention t c referred = ''fk_'' @ t @ ''_'' @ c @ ''_'' @ referred"

definition pk_convention :: "string \<Rightarrow> string" where
  "pk_convention t = ''pk_'' @ t"

subsection \<open>Statements of a revision\<close>

text \<open>
  The items of \<open>op.create_table\<close>. An \<open>Enum(native_enum=False, create_constraint=True)\<close> is a
  VARCHAR with a CHECK, which the convention names; names in \<open>op.f\<close> are final.
\<close>

datatype table_item =
    Col string column_type "column_default option" bool
  | Enum_Col string "pystr list" string nat "column_default option"
  | Constr table_constraint

fun item_columns :: "table_item \<Rightarrow> column list" where
  "item_columns (Col n t d nullable) = [\<lparr>cl_name = n, cl_type = t, cl_default = d, cl_nullable = nullable\<rparr>]"
| "item_columns (Enum_Col n _ _ width d) = [\<lparr>cl_name = n, cl_type = Varchar width, cl_default = d, cl_nullable = False\<rparr>]"
| "item_columns (Constr _) = []"

fun item_constraints :: "string \<Rightarrow> table_item \<Rightarrow> table_constraint list" where
  "item_constraints t (Col _ _ _ _) = []"
| "item_constraints t (Enum_Col n values name _ _) = [Check (ck_convention t name) (One_Of n values)]"
| "item_constraints t (Constr k) = [k]"

definition table_of :: "string \<Rightarrow> table_item list \<Rightarrow> table" where
  "table_of t items =
     \<lparr>tb_name = t, tb_columns = concat (map item_columns items),
      tb_constraints = concat (map (item_constraints t) items), tb_indexes = []\<rparr>"

datatype ddl =
    Create_Extension string
  | Create_Table string "table_item list"
  | Drop_Table string
  | Create_Index string index
  | Drop_Index string string
  | Add_Column string column
  | Drop_Column string string

datatype ddl_error =
    Duplicate_Relation | Duplicate_Column | Duplicate_Constraint | Undefined_Table | Undefined_Column
  | Undefined_Index | Undefined_Type | Not_Null_Without_Default | Dependent_Objects

definition on_table :: "string \<Rightarrow> (table \<Rightarrow> table) \<Rightarrow> catalogue \<Rightarrow> catalogue" where
  "on_table t f ct = ct\<lparr>ct_tables := map (\<lambda>tb. if tb_name tb = t then f tb else tb) (ct_tables ct)\<rparr>"

definition taken_names :: "catalogue \<Rightarrow> string list" where
  "taken_names ct = concat (map relation_names (ct_tables ct))"

fun needs_vector :: "column_type \<Rightarrow> bool" where
  "needs_vector (Vector _) = True"
| "needs_vector _ = False"

text \<open>What a new table must not do: every error of \<open>CREATE TABLE\<close> that its parts can cause.\<close>

definition table_error :: "table \<Rightarrow> catalogue \<Rightarrow> ddl_error option" where
  "table_error tb ct =
     (if list_ex (\<lambda>n. List.member (taken_names ct) n) (relation_names tb) \<or> \<not> distinct (relation_names tb) then
        Some Duplicate_Relation
      else if \<not> distinct (column_names tb) then Some Duplicate_Column
      else if \<not> distinct (map constraint_name (tb_constraints tb)) then Some Duplicate_Constraint
      else if \<not> list_all (\<lambda>k. list_all (List.member (column_names tb)) (constraint_columns k)) (tb_constraints tb) then
        Some Undefined_Column
      else if list_ex (\<lambda>c. needs_vector (cl_type c)) (tb_columns tb) \<and> \<not> List.member (ct_extensions ct) ''vector'' then
        Some Undefined_Type
      else if \<not> list_all (\<lambda>(t, c). case find_table t ct of None \<Rightarrow> False | Some r \<Rightarrow> List.member (column_names r) c)
                 (table_references tb) then Some Undefined_Table
      else None)"

text \<open>
  Dropping a column takes the indexes and the constraints on it along; what another table
  refers to is not dropped.
\<close>

definition drop_column :: "string \<Rightarrow> table \<Rightarrow> table" where
  "drop_column c tb =
     tb\<lparr>tb_columns := filter (\<lambda>x. cl_name x \<noteq> c) (tb_columns tb),
        tb_constraints := filter (\<lambda>k. c \<notin> set (constraint_columns k)) (tb_constraints tb),
        tb_indexes := filter (\<lambda>ix. c \<notin> set (ix_columns ix)) (tb_indexes tb)\<rparr>"

fun apply_ddl :: "ddl \<Rightarrow> catalogue \<Rightarrow> ddl_error + catalogue" where
  "apply_ddl (Create_Extension e) ct =
     Inr (if List.member (ct_extensions ct) e then ct else ct\<lparr>ct_extensions := ct_extensions ct @ [e]\<rparr>)"
| "apply_ddl (Create_Table t items) ct =
     (case table_error (table_of t items) ct of
        Some e \<Rightarrow> Inl e
      | None \<Rightarrow> Inr (ct\<lparr>ct_tables := ct_tables ct @ [table_of t items]\<rparr>))"
| "apply_ddl (Drop_Table t) ct =
     (if find_table t ct = None then Inl Undefined_Table
      else if list_ex (\<lambda>tb. tb_name tb \<noteq> t \<and> List.member (map fst (table_references tb)) t) (ct_tables ct) then
        Inl Dependent_Objects
      else Inr (ct\<lparr>ct_tables := filter (\<lambda>tb. tb_name tb \<noteq> t) (ct_tables ct)\<rparr>))"
| "apply_ddl (Create_Index t ix) ct =
     (case find_table t ct of
        None \<Rightarrow> Inl Undefined_Table
      | Some tb \<Rightarrow>
          if List.member (taken_names ct) (ix_name ix) then Inl Duplicate_Relation
          else if \<not> list_all (List.member (column_names tb)) (ix_columns ix) then Inl Undefined_Column
          else Inr (on_table t (\<lambda>tb. tb\<lparr>tb_indexes := tb_indexes tb @ [ix]\<rparr>) ct))"
| "apply_ddl (Drop_Index t n) ct =
     (case find_table t ct of
        None \<Rightarrow> Inl Undefined_Table
      | Some tb \<Rightarrow>
          if \<not> List.member (map ix_name (tb_indexes tb)) n then Inl Undefined_Index
          else Inr (on_table t (\<lambda>tb. tb\<lparr>tb_indexes := filter (\<lambda>ix. ix_name ix \<noteq> n) (tb_indexes tb)\<rparr>) ct))"
| "apply_ddl (Add_Column t c) ct =
     (case find_table t ct of
        None \<Rightarrow> Inl Undefined_Table
      | Some tb \<Rightarrow>
          if List.member (column_names tb) (cl_name c) then Inl Duplicate_Column
          else if needs_vector (cl_type c) \<and> \<not> List.member (ct_extensions ct) ''vector'' then Inl Undefined_Type
          else if \<not> cl_nullable c \<and> cl_default c = None then Inl Not_Null_Without_Default
          else Inr (on_table t (\<lambda>tb. tb\<lparr>tb_columns := tb_columns tb @ [c]\<rparr>) ct))"
| "apply_ddl (Drop_Column t n) ct =
     (case find_table t ct of
        None \<Rightarrow> Inl Undefined_Table
      | Some tb \<Rightarrow>
          if \<not> List.member (column_names tb) n then Inl Undefined_Column
          else if list_ex (\<lambda>r. List.member (table_references r) (t, n)) (ct_tables ct) then Inl Dependent_Objects
          else Inr (on_table t (drop_column n) ct))"

text \<open>A revision runs in one transaction: the first refusal undoes it.\<close>

fun run_ddl :: "ddl list \<Rightarrow> catalogue \<Rightarrow> ddl_error + catalogue" where
  "run_ddl [] ct = Inr ct"
| "run_ddl (d # ds) ct = (case apply_ddl d ct of Inl e \<Rightarrow> Inl e | Inr ct1 \<Rightarrow> run_ddl ds ct1)"

subsection \<open>The revisions\<close>

record migration =
  mg_revision :: string
  mg_down :: "string option"
  mg_upgrade :: "ddl list"
  mg_downgrade :: "ddl list"

definition id_col :: table_item where
  "id_col = Col ''id'' Uuid_Type (Some (Expression ''gen_random_uuid()'')) False"

definition stamp_cols :: "table_item list" where
  "stamp_cols =
     [Col ''created_at'' Timestamptz (Some (Expression ''now()'')) False,
      Col ''updated_at'' Timestamptz (Some (Expression ''now()'')) False]"

definition plain_index :: "string \<Rightarrow> string list \<Rightarrow> index" where
  "plain_index n cs = \<lparr>ix_name = n, ix_columns = cs, ix_unique = False, ix_using = None, ix_ops = []\<rparr>"

definition baseline :: migration where
  "baseline = \<lparr>mg_revision = ''4708760a4840'', mg_down = None, mg_upgrade = [], mg_downgrade = []\<rparr>"

definition customers_and_tickets :: migration where
  "customers_and_tickets =
     \<lparr>mg_revision = ''6dd90e1db408'', mg_down = Some ''4708760a4840'',
      mg_upgrade =
        [Create_Table ''customers''
           ([id_col, Col ''email'' (Varchar 320) None False] @ stamp_cols @
            [Constr (Check ''ck_customers_email_lowercase'' (Sql ''email = lower(email)'')),
             Constr (Check ''ck_customers_email_not_blank'' (Sql ''length(btrim(email)) > 0'')),
             Constr (Primary_Key ''pk_customers'' [''id'']),
             Constr (Unique ''uq_customers_email'' [''email''])]),
         Create_Table ''tickets''
           ([id_col, Col ''customer_id'' Uuid_Type None False, Col ''subject'' (Varchar 200) None False,
             Col ''body'' Text_Type None False,
             Enum_Col ''status'' [str ''open'', str ''pending'', str ''resolved'', str ''closed''] ''status_valid'' 20
               (Some (Literal (str ''open'')))] @ stamp_cols @
            [Constr (Check ''ck_tickets_body_not_blank'' (Sql ''length(btrim(body)) > 0'')),
             Constr (Check ''ck_tickets_subject_not_blank'' (Sql ''length(btrim(subject)) > 0'')),
             Constr (Foreign_Key ''fk_tickets_customer_id_customers'' ''customer_id'' ''customers'' ''id'' Restrict),
             Constr (Primary_Key ''pk_tickets'' [''id''])]),
         Create_Index ''tickets'' (plain_index ''ix_tickets_created_at'' [''created_at'']),
         Create_Index ''tickets'' (plain_index ''ix_tickets_customer_id'' [''customer_id'']),
         Create_Index ''tickets'' (plain_index ''ix_tickets_status_created_at'' [''status'', ''created_at''])],
      mg_downgrade =
        [Drop_Index ''tickets'' ''ix_tickets_status_created_at'', Drop_Index ''tickets'' ''ix_tickets_customer_id'',
         Drop_Index ''tickets'' ''ix_tickets_created_at'', Drop_Table ''tickets'', Drop_Table ''customers'']\<rparr>"

definition documents_and_chunks :: migration where
  "documents_and_chunks =
     \<lparr>mg_revision = ''5f02b1107b3f'', mg_down = Some ''6dd90e1db408'',
      mg_upgrade =
        [Create_Extension ''vector'',
         Create_Table ''documents''
           ([id_col, Col ''title'' (Varchar 300) None False, Col ''content'' Text_Type None False] @ stamp_cols @
            [Constr (Check ''ck_documents_content_not_blank'' (Sql ''length(btrim(content)) > 0'')),
             Constr (Check ''ck_documents_title_not_blank'' (Sql ''length(btrim(title)) > 0'')),
             Constr (Primary_Key ''pk_documents'' [''id''])]),
         Create_Index ''documents'' (plain_index ''ix_documents_created_at'' [''created_at'']),
         Create_Table ''document_chunks''
           ([id_col, Col ''document_id'' Uuid_Type None False, Col ''ordinal'' Integer_Type None False,
             Col ''content'' Text_Type None False, Col ''embedding'' (Vector 384) None False] @ stamp_cols @
            [Constr (Check ''ck_document_chunks_content_not_blank'' (Sql ''length(btrim(content)) > 0'')),
             Constr (Check ''ck_document_chunks_ordinal_non_negative'' (Sql ''ordinal >= 0'')),
             Constr (Foreign_Key ''fk_document_chunks_document_id_documents'' ''document_id'' ''documents'' ''id'' Cascade),
             Constr (Primary_Key ''pk_document_chunks'' [''id'']),
             Constr (Unique ''uq_document_chunks_document_id_ordinal'' [''document_id'', ''ordinal''])]),
         Create_Index ''document_chunks'' (plain_index ''ix_document_chunks_document_id'' [''document_id'']),
         Create_Index ''document_chunks''
           \<lparr>ix_name = ''ix_document_chunks_embedding'', ix_columns = [''embedding''], ix_unique = False,
            ix_using = Some ''hnsw'', ix_ops = [(''embedding'', ''vector_cosine_ops'')]\<rparr>],
      mg_downgrade =
        [Drop_Index ''document_chunks'' ''ix_document_chunks_embedding'',
         Drop_Index ''document_chunks'' ''ix_document_chunks_document_id'', Drop_Table ''document_chunks'',
         Drop_Index ''documents'' ''ix_documents_created_at'', Drop_Table ''documents'']\<rparr>"

definition review_items :: migration where
  "review_items =
     \<lparr>mg_revision = ''73ce7d39be4c'', mg_down = Some ''5f02b1107b3f'',
      mg_upgrade =
        [Create_Table ''review_items''
           ([id_col, Col ''ticket_id'' Uuid_Type None True, Col ''message'' Text_Type None False,
             Col ''proposed_reply'' Text_Type None True, Col ''intent'' (Varchar 40) None False,
             Col ''reason'' (Varchar 40) None False,
             Enum_Col ''status'' [str ''pending'', str ''claimed'', str ''resolved''] ''review_status_valid'' 20
               (Some (Literal (str ''pending''))),
             Col ''resolution'' Text_Type None True] @ stamp_cols @
            [Constr (Check ''ck_review_items_message_not_blank'' (Sql ''length(btrim(message)) > 0'')),
             Constr (Check ''ck_review_items_reason_not_blank'' (Sql ''length(btrim(reason)) > 0'')),
             Constr (Foreign_Key ''fk_review_items_ticket_id_tickets'' ''ticket_id'' ''tickets'' ''id'' Set_Null),
             Constr (Primary_Key ''pk_review_items'' [''id''])]),
         Create_Index ''review_items'' (plain_index ''ix_review_items_status_created_at'' [''status'', ''created_at'']),
         Create_Index ''review_items'' (plain_index ''ix_review_items_ticket_id'' [''ticket_id''])],
      mg_downgrade =
        [Drop_Index ''review_items'' ''ix_review_items_ticket_id'',
         Drop_Index ''review_items'' ''ix_review_items_status_created_at'', Drop_Table ''review_items'']\<rparr>"

definition add_conversations :: migration where
  "add_conversations =
     \<lparr>mg_revision = ''6cc81eefa78f'', mg_down = Some ''73ce7d39be4c'',
      mg_upgrade =
        [Create_Table ''conversations''
           ([id_col, Col ''customer_id'' Uuid_Type None False] @ stamp_cols @
            [Constr (Foreign_Key ''fk_conversations_customer_id_customers'' ''customer_id'' ''customers'' ''id'' Restrict),
             Constr (Primary_Key ''pk_conversations'' [''id''])]),
         Create_Index ''conversations'' (plain_index ''ix_conversations_customer_id'' [''customer_id'']),
         Create_Table ''conversation_messages''
           ([id_col, Col ''conversation_id'' Uuid_Type None False, Col ''position'' Integer_Type None False,
             Enum_Col ''role'' [str ''customer'', str ''assistant''] ''message_role_valid'' 20 None,
             Col ''content'' Text_Type None False,
             Col ''token_estimate'' Integer_Type (Some (Literal (str ''0''))) False] @ stamp_cols @
            [Constr (Check ''ck_conversation_messages_content_not_blank'' (Sql ''length(btrim(content)) > 0'')),
             Constr (Check ''ck_conversation_messages_position_non_negative'' (Sql ''position >= 0'')),
             Constr (Check ''ck_conversation_messages_token_estimate_non_negative'' (Sql ''token_estimate >= 0'')),
             Constr (Foreign_Key ''fk_conversation_messages_conversation_id_conversations'' ''conversation_id''
               ''conversations'' ''id'' Cascade),
             Constr (Primary_Key ''pk_conversation_messages'' [''id'']),
             Constr (Unique ''uq_conversation_messages_conversation_id_position'' [''conversation_id'', ''position''])]),
         Create_Index ''conversation_messages''
           (plain_index ''ix_conversation_messages_conversation_id_position'' [''conversation_id'', ''position''])],
      mg_downgrade =
        [Drop_Index ''conversation_messages'' ''ix_conversation_messages_conversation_id_position'',
         Drop_Table ''conversation_messages'', Drop_Index ''conversations'' ''ix_conversations_customer_id'',
         Drop_Table ''conversations'']\<rparr>"

definition owner_column :: column where
  "owner_column = \<lparr>cl_name = ''owner_subject'', cl_type = Varchar 200, cl_default = None, cl_nullable = True\<rparr>"

definition resource_ownership :: migration where
  "resource_ownership =
     \<lparr>mg_revision = ''5aa59ba365ee'', mg_down = Some ''6cc81eefa78f'',
      mg_upgrade =
        [Add_Column ''conversations'' owner_column,
         Create_Index ''conversations'' (plain_index ''ix_conversations_owner_subject'' [''owner_subject'']),
         Add_Column ''tickets'' owner_column,
         Create_Index ''tickets'' (plain_index ''ix_tickets_owner_subject'' [''owner_subject''])],
      mg_downgrade =
        [Drop_Index ''tickets'' ''ix_tickets_owner_subject'', Drop_Column ''tickets'' ''owner_subject'',
         Drop_Index ''conversations'' ''ix_conversations_owner_subject'', Drop_Column ''conversations'' ''owner_subject'']\<rparr>"

definition message_citations :: migration where
  "message_citations =
     \<lparr>mg_revision = ''6229d20c7056'', mg_down = Some ''5aa59ba365ee'',
      mg_upgrade =
        [Add_Column ''conversation_messages''
           \<lparr>cl_name = ''citations'', cl_type = Jsonb, cl_default = Some (Expression (CHR 0x27 # ''[]'' @ CHR 0x27 # ''::jsonb'')),
            cl_nullable = False\<rparr>],
      mg_downgrade = [Drop_Column ''conversation_messages'' ''citations'']\<rparr>"

text \<open>The directory, in the order of the file names, and the order \<open>down_revision\<close> gives.\<close>

definition versions :: "migration list" where
  "versions =
     [baseline, resource_ownership, documents_and_chunks, message_citations, add_conversations, customers_and_tickets,
      review_items]"

fun script_order :: "nat \<Rightarrow> string option \<Rightarrow> migration list \<Rightarrow> migration list" where
  "script_order 0 revision ms = []"
| "script_order (Suc n) revision ms =
     (case List.find (\<lambda>m. mg_down m = revision) ms of
        None \<Rightarrow> []
      | Some m \<Rightarrow> m # script_order n (Some (mg_revision m)) ms)"

fun upgrade_through :: "migration list \<Rightarrow> catalogue \<Rightarrow> ddl_error + catalogue" where
  "upgrade_through [] ct = Inr ct"
| "upgrade_through (m # ms) ct =
     (case run_ddl (mg_upgrade m) ct of Inl e \<Rightarrow> Inl e | Inr ct1 \<Rightarrow> upgrade_through ms ct1)"

definition upgrade_head :: "migration list \<Rightarrow> catalogue \<Rightarrow> ddl_error + catalogue" where
  "upgrade_head ms = upgrade_through (script_order (length ms) None ms)"

text \<open>\<open>database_url\<close> of \<open>env.py\<close>\<close>

definition migration_url :: "pystr option \<Rightarrow> settings \<Rightarrow> pystr result" where
  "migration_url override s =
     (case override of
        Some (c # url) \<Rightarrow> Inr (c # url)
      | _ \<Rightarrow> (case st_database_url s of
                None \<Rightarrow> Inl (OtherError (str ''RuntimeError''))
              | Some url \<Rightarrow> Inr url))"

subsection \<open>The models\<close>

text \<open>A \<open>mapped_column\<close>: what the declarations of \<open>models/\<close> say of a column.\<close>

datatype orm_type = Sql_Type column_type | Enum_Type "pystr list" string nat

record orm_column =
  oc_name :: string
  oc_type :: orm_type
  oc_nullable :: bool
  oc_default :: "column_default option"
  oc_unique :: bool
  oc_index :: bool
  oc_foreign :: "(string \<times> string \<times> on_delete) option"

record orm_model =
  om_table :: string
  om_columns :: "orm_column list"
  om_checks :: "(string \<times> string) list"
  om_uniques :: "(string \<times> string list) list"
  om_indexes :: "index list"

definition mapped :: "string \<Rightarrow> column_type \<Rightarrow> orm_column" where
  "mapped n t =
     \<lparr>oc_name = n, oc_type = Sql_Type t, oc_nullable = False, oc_default = None, oc_unique = False, oc_index = False,
      oc_foreign = None\<rparr>"

definition mapped_enum :: "string \<Rightarrow> pystr list \<Rightarrow> string \<Rightarrow> nat \<Rightarrow> orm_column" where
  "mapped_enum n values name width = (mapped n Text_Type)\<lparr>oc_type := Enum_Type values name width\<rparr>"

text \<open>The mixins, with their places before and after the columns of the model.\<close>

definition uuid_primary_key :: orm_column where
  "uuid_primary_key = (mapped ''id'' Uuid_Type)\<lparr>oc_default := Some (Expression ''gen_random_uuid()'')\<rparr>"

definition timestamps :: "orm_column list" where
  "timestamps =
     [(mapped ''created_at'' Timestamptz)\<lparr>oc_default := Some (Expression ''now()'')\<rparr>,
      (mapped ''updated_at'' Timestamptz)\<lparr>oc_default := Some (Expression ''now()'')\<rparr>]"

fun orm_column_of :: "orm_column \<Rightarrow> column" where
  "orm_column_of c =
     \<lparr>cl_name = oc_name c, cl_type = (case oc_type c of Sql_Type t \<Rightarrow> t | Enum_Type _ _ width \<Rightarrow> Varchar width),
      cl_default = oc_default c, cl_nullable = oc_nullable c\<rparr>"

definition column_constraints :: "string \<Rightarrow> orm_column \<Rightarrow> table_constraint list" where
  "column_constraints t c =
     (case oc_type c of Enum_Type values name _ \<Rightarrow> [Check (ck_convention t name) (One_Of (oc_name c) values)] | _ \<Rightarrow> []) @
     (if oc_unique c then [Unique (uq_convention t (oc_name c)) [oc_name c]] else []) @
     (case oc_foreign c of
        None \<Rightarrow> []
      | Some (referred, key, action) \<Rightarrow> [Foreign_Key (fk_convention t (oc_name c) referred) (oc_name c) referred key action])"

definition table_of_model :: "orm_model \<Rightarrow> table" where
  "table_of_model m =
     (let t = om_table m; cs = uuid_primary_key # om_columns m @ timestamps in
      \<lparr>tb_name = t, tb_columns = map orm_column_of cs,
       tb_constraints =
         Primary_Key (pk_convention t) [''id''] # concat (map (column_constraints t) cs) @
         map (\<lambda>(n, sql). Check (ck_convention t n) (Sql sql)) (om_checks m) @ map (\<lambda>(n, cols). Unique n cols) (om_uniques m),
       tb_indexes =
         map (\<lambda>c. plain_index (ix_convention t (oc_name c)) [oc_name c]) (filter oc_index cs) @ om_indexes m\<rparr>)"

definition Customer_model :: orm_model where
  "Customer_model =
     \<lparr>om_table = ''customers'', om_columns = [(mapped ''email'' (Varchar EMAIL_WIDTH))\<lparr>oc_unique := True\<rparr>],
      om_checks = [(''email_lowercase'', ''email = lower(email)''), (''email_not_blank'', ''length(btrim(email)) > 0'')],
      om_uniques = [], om_indexes = []\<rparr>"

definition Ticket_model :: orm_model where
  "Ticket_model =
     \<lparr>om_table = ''tickets'',
      om_columns =
        [(mapped ''customer_id'' Uuid_Type)\<lparr>oc_foreign := Some (''customers'', ''id'', Restrict), oc_index := True\<rparr>,
         (mapped ''owner_subject'' (Varchar 200))\<lparr>oc_nullable := True, oc_index := True\<rparr>,
         mapped ''subject'' (Varchar SUBJECT_WIDTH), mapped ''body'' Text_Type,
         (mapped_enum ''status'' (map ticket_status_value [TS_OPEN, TS_PENDING, TS_RESOLVED, TS_CLOSED]) ''status_valid'' 20)
           \<lparr>oc_default := Some (Literal (ticket_status_value TS_OPEN))\<rparr>],
      om_checks = [(''subject_not_blank'', ''length(btrim(subject)) > 0''), (''body_not_blank'', ''length(btrim(body)) > 0'')],
      om_uniques = [],
      om_indexes = [plain_index ''ix_tickets_created_at'' [''created_at''],
        plain_index ''ix_tickets_status_created_at'' [''status'', ''created_at'']]\<rparr>"

definition Document_model :: orm_model where
  "Document_model =
     \<lparr>om_table = ''documents'', om_columns = [mapped ''title'' (Varchar TITLE_WIDTH), mapped ''content'' Text_Type],
      om_checks = [(''title_not_blank'', ''length(btrim(title)) > 0''), (''content_not_blank'', ''length(btrim(content)) > 0'')],
      om_uniques = [], om_indexes = [plain_index ''ix_documents_created_at'' [''created_at'']]\<rparr>"

definition DocumentChunk_model :: orm_model where
  "DocumentChunk_model =
     \<lparr>om_table = ''document_chunks'',
      om_columns =
        [(mapped ''document_id'' Uuid_Type)\<lparr>oc_foreign := Some (''documents'', ''id'', Cascade)\<rparr>,
         mapped ''ordinal'' Integer_Type, mapped ''content'' Text_Type, mapped ''embedding'' (Vector EMBEDDING_DIMENSIONS)],
      om_checks = [(''content_not_blank'', ''length(btrim(content)) > 0''), (''ordinal_non_negative'', ''ordinal >= 0'')],
      om_uniques = [(''uq_document_chunks_document_id_ordinal'', [''document_id'', ''ordinal''])],
      om_indexes = [plain_index ''ix_document_chunks_document_id'' [''document_id''],
        \<lparr>ix_name = ''ix_document_chunks_embedding'', ix_columns = [''embedding''], ix_unique = False,
         ix_using = Some ''hnsw'', ix_ops = [(''embedding'', ''vector_cosine_ops'')]\<rparr>]\<rparr>"

definition Conversation_model :: orm_model where
  "Conversation_model =
     \<lparr>om_table = ''conversations'',
      om_columns =
        [(mapped ''customer_id'' Uuid_Type)\<lparr>oc_foreign := Some (''customers'', ''id'', Restrict)\<rparr>,
         (mapped ''owner_subject'' (Varchar 200))\<lparr>oc_nullable := True, oc_index := True\<rparr>],
      om_checks = [], om_uniques = [],
      om_indexes = [plain_index ''ix_conversations_customer_id'' [''customer_id'']]\<rparr>"

definition ConversationMessage_model :: orm_model where
  "ConversationMessage_model =
     \<lparr>om_table = ''conversation_messages'',
      om_columns =
        [(mapped ''conversation_id'' Uuid_Type)\<lparr>oc_foreign := Some (''conversations'', ''id'', Cascade)\<rparr>,
         mapped ''position'' Integer_Type,
         mapped_enum ''role'' (map role_value [CUSTOMER, ASSISTANT]) ''message_role_valid'' 20,
         mapped ''content'' Text_Type, (mapped ''token_estimate'' Integer_Type)\<lparr>oc_default := Some (Literal (str ''0''))\<rparr>,
         (mapped ''citations'' Jsonb)\<lparr>oc_default := Some (Expression (CHR 0x27 # ''[]'' @ CHR 0x27 # ''::jsonb''))\<rparr>],
      om_checks = [(''content_not_blank'', ''length(btrim(content)) > 0''), (''position_non_negative'', ''position >= 0''),
        (''token_estimate_non_negative'', ''token_estimate >= 0'')],
      om_uniques = [(''uq_conversation_messages_conversation_id_position'', [''conversation_id'', ''position''])],
      om_indexes = [plain_index ''ix_conversation_messages_conversation_id_position'' [''conversation_id'', ''position'']]\<rparr>"

definition ReviewItem_model :: orm_model where
  "ReviewItem_model =
     \<lparr>om_table = ''review_items'',
      om_columns =
        [(mapped ''ticket_id'' Uuid_Type)\<lparr>oc_foreign := Some (''tickets'', ''id'', Set_Null), oc_nullable := True\<rparr>,
         mapped ''message'' Text_Type, (mapped ''proposed_reply'' Text_Type)\<lparr>oc_nullable := True\<rparr>,
         mapped ''intent'' (Varchar 40), mapped ''reason'' (Varchar 40),
         (mapped_enum ''status'' (map review_status_value [PENDING_REVIEW, CLAIMED, RESOLVED]) ''review_status_valid'' 20)
           \<lparr>oc_default := Some (Literal (review_status_value PENDING_REVIEW))\<rparr>,
         (mapped ''resolution'' Text_Type)\<lparr>oc_nullable := True\<rparr>],
      om_checks = [(''message_not_blank'', ''length(btrim(message)) > 0''), (''reason_not_blank'', ''length(btrim(reason)) > 0'')],
      om_uniques = [],
      om_indexes = [plain_index ''ix_review_items_status_created_at'' [''status'', ''created_at''],
        plain_index ''ix_review_items_ticket_id'' [''ticket_id'']]\<rparr>"

text \<open>\<open>Base.metadata\<close>\<close>

definition metadata :: "table list" where
  "metadata = map table_of_model
     [Customer_model, Ticket_model, Document_model, DocumentChunk_model, ReviewItem_model, Conversation_model,
      ConversationMessage_model]"

text \<open>The same table up to the order of its parts.\<close>

definition same_parts :: "'a list \<Rightarrow> 'a list \<Rightarrow> bool" where
  "same_parts xs ys \<longleftrightarrow> list_all (List.member ys) xs \<and> list_all (List.member xs) ys \<and> length xs = length ys"

definition same_table :: "table \<Rightarrow> table \<Rightarrow> bool" where
  "same_table a b \<longleftrightarrow> tb_name a = tb_name b \<and> same_parts (tb_columns a) (tb_columns b) \<and>
     same_parts (tb_constraints a) (tb_constraints b) \<and> same_parts (tb_indexes a) (tb_indexes b)"

definition empty_catalogue :: catalogue where
  "empty_catalogue = \<lparr>ct_extensions = [], ct_tables = []\<rparr>"

subsection \<open>Lemmas\<close>

text \<open>What is behind a statement that builds, statement by statement.\<close>

fun undo :: "ddl \<Rightarrow> ddl list" where
  "undo (Create_Table t _) = [Drop_Table t]"
| "undo (Create_Index t ix) = [Drop_Index t (ix_name ix)]"
| "undo (Add_Column t c) = [Drop_Column t (cl_name c)]"
| "undo _ = []"

fun builds :: "ddl \<Rightarrow> bool" where
  "builds (Create_Extension _) = True"
| "builds (Create_Table _ _) = True"
| "builds (Create_Index _ _) = True"
| "builds (Add_Column _ _) = True"
| "builds _ = False"

text \<open>Names are unique, and what is referred to is there.\<close>

definition table_ok :: "table \<Rightarrow> bool" where
  "table_ok tb \<longleftrightarrow> (\<forall>k \<in> set (tb_constraints tb). set (constraint_columns k) \<subseteq> set (column_names tb)) \<and>
     (\<forall>ix \<in> set (tb_indexes tb). set (ix_columns ix) \<subseteq> set (column_names tb))"

definition catalogue_ok :: "catalogue \<Rightarrow> bool" where
  "catalogue_ok ct \<longleftrightarrow> distinct (map tb_name (ct_tables ct)) \<and> (\<forall>tb \<in> set (ct_tables ct). table_ok tb) \<and>
     (\<forall>tb \<in> set (ct_tables ct). \<forall>(t, c) \<in> set (table_references tb).
        \<exists>r \<in> set (ct_tables ct). tb_name r = t \<and> c \<in> set (column_names r))"

lemma find_table_Some: "find_table t ct = Some tb \<Longrightarrow> tb \<in> set (ct_tables ct) \<and> tb_name tb = t"
  by (auto simp: find_table_def find_Some_iff)

lemma find_table_None: "find_table t ct = None \<longleftrightarrow> t \<notin> tb_name ` set (ct_tables ct)"
  by (auto simp: find_table_def find_None_iff)

lemma find_table_ext [simp]: "find_table t (ct\<lparr>ct_extensions := e\<rparr>) = find_table t ct"
  by (simp add: find_table_def)

lemma name_taken: "tb \<in> set (ct_tables ct) \<Longrightarrow> tb_name tb \<in> set (taken_names ct)"
  by (auto simp: taken_names_def relation_names_def)

lemma index_taken: "tb \<in> set (ct_tables ct) \<Longrightarrow> ix \<in> set (tb_indexes tb) \<Longrightarrow> ix_name ix \<in> set (taken_names ct)"
  by (auto simp: taken_names_def relation_names_def)

lemma on_table_names:
  assumes "\<And>tb. tb_name (f tb) = tb_name tb"
  shows "map tb_name (ct_tables (on_table t f ct)) = map tb_name (ct_tables ct)"
  using assms by (simp add: on_table_def)

text \<open>Undoing a change of a table.\<close>

lemma on_table_undo:
  assumes "\<And>tb. tb \<in> set (ct_tables ct) \<Longrightarrow> tb_name tb = t \<Longrightarrow> g (f tb) = tb" "\<And>tb. tb_name (f tb) = tb_name tb"
  shows "on_table t g ((on_table t f ct)\<lparr>ct_extensions := e\<rparr>) = ct\<lparr>ct_extensions := e\<rparr>"
proof -
  let ?undone = "(\<lambda>tb. if tb_name tb = t then g tb else tb) \<circ> (\<lambda>tb. if tb_name tb = t then f tb else tb)"
  have "map ?undone (ct_tables ct) = ct_tables ct" using assms by (intro map_idI) auto
  then show ?thesis by (simp add: on_table_def)
qed

lemma table_errorD:
  assumes "table_error tb ct = None"
  shows "\<forall>n \<in> set (relation_names tb). n \<notin> set (taken_names ct)"
    "\<forall>k \<in> set (tb_constraints tb). set (constraint_columns k) \<subseteq> set (column_names tb)"
    "\<forall>(t, c) \<in> set (table_references tb). \<exists>r \<in> set (ct_tables ct). tb_name r = t \<and> c \<in> set (column_names r)"
proof -
  from assms show "\<forall>n \<in> set (relation_names tb). n \<notin> set (taken_names ct)"
    "\<forall>k \<in> set (tb_constraints tb). set (constraint_columns k) \<subseteq> set (column_names tb)"
    by (auto simp: table_error_def list_all_iff list_ex_iff subset_iff split: if_splits)
  from assms have "\<forall>(t, c) \<in> set (table_references tb).
      case find_table t ct of None \<Rightarrow> False | Some r \<Rightarrow> c \<in> set (column_names r)"
    by (simp add: table_error_def list_all_iff case_prod_beta cong: option.case_cong split: if_splits)
  then show "\<forall>(t, c) \<in> set (table_references tb). \<exists>r \<in> set (ct_tables ct). tb_name r = t \<and> c \<in> set (column_names r)"
    using find_table_Some by (fastforce split: option.splits)
qed

lemma create_table_undo:
  assumes "catalogue_ok ct" "apply_ddl (Create_Table t items) ct = Inr ct'"
  shows "catalogue_ok ct' \<and> run_ddl [Drop_Table t] (ct'\<lparr>ct_extensions := e\<rparr>) = Inr (ct\<lparr>ct_extensions := e\<rparr>)"
proof -
  let ?tb = "table_of t items"
  from assms(2) have none: "table_error ?tb ct = None" and ct': "ct' = ct\<lparr>ct_tables := ct_tables ct @ [?tb]\<rparr>"
    by (auto split: option.splits)
  note new = table_errorD [OF none]
  have name: "tb_name ?tb = t" "tb_indexes ?tb = []" by (simp_all add: table_of_def)
  have fresh: "t \<notin> tb_name ` set (ct_tables ct)"
    using new(1) name_taken name by (auto simp: relation_names_def)
  have ok: "catalogue_ok ct'"
    using assms(1) new(2,3) fresh name unfolding catalogue_ok_def ct' by (fastforce simp: table_ok_def)
  have free: "\<not> (tb_name tb \<noteq> t \<and> List.member (map fst (table_references tb)) t)"
    if "tb \<in> set (ct_tables ct')" for tb
    using that assms(1) fresh name unfolding catalogue_ok_def ct' by fastforce
  have "find_table t ct' \<noteq> None" by (simp add: find_table_None ct' name)
  moreover have "filter (\<lambda>tb. tb_name tb \<noteq> t) (ct_tables ct') = ct_tables ct"
    using fresh by (auto simp: ct' name filter_id_conv)
  ultimately have "run_ddl [Drop_Table t] (ct'\<lparr>ct_extensions := e\<rparr>) = Inr (ct\<lparr>ct_extensions := e\<rparr>)"
    using free by (auto simp: list_ex_iff ct')
  with ok show ?thesis by simp
qed

text \<open>The changes of one table keep its name and what it refers to, and add to its parts.\<close>

lemma on_table_ok:
  assumes "catalogue_ok ct" "\<And>tb. tb_name (f tb) = tb_name tb" "\<And>tb. tb_constraints (f tb) = tb_constraints tb"
    and "\<And>tb. set (column_names tb) \<subseteq> set (column_names (f tb))"
    and "\<And>tb. tb \<in> set (ct_tables ct) \<Longrightarrow> tb_name tb = t \<Longrightarrow> table_ok (f tb)"
  shows "catalogue_ok (on_table t f ct)"
proof -
  let ?f = "\<lambda>tb. if tb_name tb = t then f tb else tb"
  have refs: "table_references (?f tb) = table_references tb" "set (column_names tb) \<subseteq> set (column_names (?f tb))"
    "tb_name (?f tb) = tb_name tb" for tb using assms(2-4) by (auto simp: table_references_def)
  have tables: "ct_tables (on_table t f ct) = map ?f (ct_tables ct)" by (simp add: on_table_def)
  have "distinct (map tb_name (ct_tables (on_table t f ct)))"
    using assms(1,2) by (simp add: on_table_names catalogue_ok_def)
  moreover have "\<forall>tb \<in> set (ct_tables (on_table t f ct)). table_ok tb"
    using assms(1,5) by (auto simp: tables catalogue_ok_def)
  moreover have "\<forall>tb \<in> set (ct_tables (on_table t f ct)). \<forall>(u, c) \<in> set (table_references tb).
      \<exists>r \<in> set (ct_tables (on_table t f ct)). tb_name r = u \<and> c \<in> set (column_names r)"
  proof (intro ballI)
    fix tb' p assume tb': "tb' \<in> set (ct_tables (on_table t f ct))" "p \<in> set (table_references tb')"
    then obtain tb where tb: "tb \<in> set (ct_tables ct)" "tb' = ?f tb" unfolding tables set_map by blast
    obtain u c where p: "p = (u, c)" by (cases p)
    from tb'(2) have "(u, c) \<in> set (table_references tb)" unfolding p tb(2) refs(1) .
    then obtain r where r: "r \<in> set (ct_tables ct)" "tb_name r = u" "c \<in> set (column_names r)"
      using assms(1) tb(1) by (fastforce simp: catalogue_ok_def)
    then have "?f r \<in> set (ct_tables (on_table t f ct)) \<and> tb_name (?f r) = u \<and> c \<in> set (column_names (?f r))"
      using refs(2,3) unfolding tables set_map by blast
    then show "case p of (u, c) \<Rightarrow> \<exists>r \<in> set (ct_tables (on_table t f ct)). tb_name r = u \<and> c \<in> set (column_names r)"
      unfolding p by blast
  qed
  ultimately show ?thesis unfolding catalogue_ok_def by blast
qed

lemma find_on_table:
  assumes "\<And>tb. tb_name (f tb) = tb_name tb"
  shows "find_table t (on_table t f ct) = map_option f (find_table t ct)"
proof -
  have "List.find (\<lambda>tb. tb_name tb = t) (map (\<lambda>tb. if tb_name tb = t then f tb else tb) tbs) =
      map_option f (List.find (\<lambda>tb. tb_name tb = t) tbs)" for tbs
    using assms by (induction tbs) auto
  then show ?thesis by (simp add: find_table_def on_table_def)
qed

lemma create_index_undo:
  assumes "catalogue_ok ct" "apply_ddl (Create_Index t ix) ct = Inr ct'"
  shows "catalogue_ok ct' \<and> run_ddl [Drop_Index t (ix_name ix)] (ct'\<lparr>ct_extensions := e\<rparr>) = Inr (ct\<lparr>ct_extensions := e\<rparr>)"
proof -
  let ?f = "\<lambda>tb. tb\<lparr>tb_indexes := tb_indexes tb @ [ix]\<rparr>"
  let ?g = "\<lambda>tb. tb\<lparr>tb_indexes := filter (\<lambda>x. ix_name x \<noteq> ix_name ix) (tb_indexes tb)\<rparr>"
  from assms(2) obtain tb where tb: "find_table t ct = Some tb" "ix_name ix \<notin> set (taken_names ct)"
      "set (ix_columns ix) \<subseteq> set (column_names tb)" and ct': "ct' = on_table t ?f ct"
    by (auto simp: list_all_iff split: option.splits if_splits)
  have one: "r = tb" if "r \<in> set (ct_tables ct)" "tb_name r = t" for r
    using that find_table_Some [OF tb(1)] assms(1) by (auto simp: catalogue_ok_def distinct_map dest: inj_onD)
  have "table_ok (?f r)" if "r \<in> set (ct_tables ct)" "tb_name r = t" for r
    using one [OF that] that assms(1) tb(3) by (fastforce simp: catalogue_ok_def table_ok_def column_names_def)
  then have ok: "catalogue_ok ct'" unfolding ct' by (intro on_table_ok [OF assms(1)]) (auto simp: column_names_def)
  have "filter (\<lambda>x. ix_name x \<noteq> ix_name ix) (tb_indexes r) = tb_indexes r" if r: "r \<in> set (ct_tables ct)" for r
  proof (intro filter_True ballI notI)
    fix x assume "x \<in> set (tb_indexes r)" "ix_name x = ix_name ix"
    with index_taken [OF r, of x] tb(2) show False by simp
  qed
  then have "?g (?f r) = r" if "r \<in> set (ct_tables ct)" for r using that by simp
  then have undone: "on_table t ?g (ct'\<lparr>ct_extensions := e\<rparr>) = ct\<lparr>ct_extensions := e\<rparr>"
    unfolding ct' by (intro on_table_undo) auto
  have "find_table t ct' = Some (?f tb)" using tb(1) by (simp add: ct' find_on_table)
  then have "run_ddl [Drop_Index t (ix_name ix)] (ct'\<lparr>ct_extensions := e\<rparr>) = Inr (ct\<lparr>ct_extensions := e\<rparr>)"
    using undone by simp
  with ok show ?thesis by simp
qed

lemma add_column_undo:
  assumes "catalogue_ok ct" "apply_ddl (Add_Column t c) ct = Inr ct'"
  shows "catalogue_ok ct' \<and> run_ddl [Drop_Column t (cl_name c)] (ct'\<lparr>ct_extensions := e\<rparr>) = Inr (ct\<lparr>ct_extensions := e\<rparr>)"
proof -
  let ?f = "\<lambda>tb. tb\<lparr>tb_columns := tb_columns tb @ [c]\<rparr>"
  let ?g = "drop_column (cl_name c)"
  from assms(2) obtain tb where tb: "find_table t ct = Some tb" "cl_name c \<notin> set (column_names tb)"
      and ct': "ct' = on_table t ?f ct"
    by (auto split: option.splits if_splits)
  have one: "r = tb" if "r \<in> set (ct_tables ct)" "tb_name r = t" for r
    using that find_table_Some [OF tb(1)] assms(1) by (auto simp: catalogue_ok_def distinct_map dest: inj_onD)
  have keep: "table_ok r" if "r \<in> set (ct_tables ct)" for r using that assms(1) by (simp add: catalogue_ok_def)
  then have "table_ok (?f r)" if "r \<in> set (ct_tables ct)" "tb_name r = t" for r
    using that by (fastforce simp: table_ok_def column_names_def)
  then have ok: "catalogue_ok ct'" unfolding ct' by (intro on_table_ok [OF assms(1)]) (auto simp: column_names_def)
  have "?g (?f r) = r" if r: "r \<in> set (ct_tables ct)" "tb_name r = t" for r
  proof -
    have new: "cl_name c \<notin> set (column_names r)" using one [OF r] tb(2) by simp
    have "filter (\<lambda>x. cl_name x \<noteq> cl_name c) (tb_columns r) = tb_columns r"
    proof (intro filter_True ballI notI)
      fix x assume "x \<in> set (tb_columns r)" "cl_name x = cl_name c"
      then have "cl_name c \<in> set (column_names r)" by (simp add: column_names_def rev_image_eqI)
      with new show False by simp
    qed
    moreover have "filter (\<lambda>k. cl_name c \<notin> set (constraint_columns k)) (tb_constraints r) = tb_constraints r"
      "filter (\<lambda>ix. cl_name c \<notin> set (ix_columns ix)) (tb_indexes r) = tb_indexes r"
      unfolding filter_id_conv using new keep [OF r(1)] by (auto simp: table_ok_def)
    ultimately show ?thesis by (simp add: drop_column_def)
  qed
  then have undone: "on_table t ?g (ct'\<lparr>ct_extensions := e\<rparr>) = ct\<lparr>ct_extensions := e\<rparr>"
    unfolding ct' by (intro on_table_undo) auto
  have "(t, cl_name c) \<notin> set (table_references r)" if "r \<in> set (ct_tables ct')" for r
  proof
    assume ref: "(t, cl_name c) \<in> set (table_references r)"
    from that obtain r0 where r0: "r0 \<in> set (ct_tables ct)" "table_references r = table_references r0"
      unfolding ct' on_table_def by (auto simp: table_references_def split: if_splits)
    with ref assms(1) obtain q where "q \<in> set (ct_tables ct)" "tb_name q = t" "cl_name c \<in> set (column_names q)"
      by (fastforce simp: catalogue_ok_def)
    with one tb(2) show False by blast
  qed
  then have free: "\<not> list_ex (\<lambda>r. List.member (table_references r) (t, cl_name c)) (ct_tables ct')"
    by (auto simp: list_ex_iff)
  have "find_table t ct' = Some (?f tb)" using tb(1) by (simp add: ct' find_on_table)
  then have "run_ddl [Drop_Column t (cl_name c)] (ct'\<lparr>ct_extensions := e\<rparr>) = Inr (ct\<lparr>ct_extensions := e\<rparr>)"
    using undone free by (simp add: column_names_def)
  with ok show ?thesis by simp
qed

lemma extension_undo:
  assumes "catalogue_ok ct" "apply_ddl (Create_Extension x) ct = Inr ct'"
  shows "catalogue_ok ct' \<and> run_ddl [] (ct'\<lparr>ct_extensions := e\<rparr>) = Inr (ct\<lparr>ct_extensions := e\<rparr>)"
  using assms by (cases "x \<in> set (ct_extensions ct)") (auto simp: catalogue_ok_def, fastforce)

lemma ddl_undo:
  assumes "builds d" "catalogue_ok ct" "apply_ddl d ct = Inr ct'"
  shows "catalogue_ok ct' \<and> run_ddl (undo d) (ct'\<lparr>ct_extensions := e\<rparr>) = Inr (ct\<lparr>ct_extensions := e\<rparr>)"
proof (cases d)
  case (Create_Extension x)
  with extension_undo [OF assms(2)] assms(3) show ?thesis by (simp only: undo.simps)
next
  case (Create_Table t items)
  with create_table_undo [OF assms(2)] assms(3) show ?thesis by (simp only: undo.simps)
next
  case (Create_Index t ix)
  with create_index_undo [OF assms(2)] assms(3) show ?thesis by (simp only: undo.simps)
next
  case (Add_Column t c)
  with add_column_undo [OF assms(2)] assms(3) show ?thesis by (simp only: undo.simps)
qed (use assms(1) in simp_all)

lemma run_ddl_append:
  "run_ddl (ds @ ds') ct = (case run_ddl ds ct of Inl e \<Rightarrow> Inl e | Inr ct1 \<Rightarrow> run_ddl ds' ct1)"
  by (induction ds arbitrary: ct) (auto split: sum.split)

lemma run_undo:
  assumes "list_all builds ds" "catalogue_ok ct" "run_ddl ds ct = Inr ct'"
  shows "catalogue_ok ct' \<and>
    run_ddl (concat (map undo (rev ds))) (ct'\<lparr>ct_extensions := e\<rparr>) = Inr (ct\<lparr>ct_extensions := e\<rparr>)"
  using assms
proof (induction ds arbitrary: ct)
  case (Cons d ds)
  then obtain ct1 where d: "apply_ddl d ct = Inr ct1" "run_ddl ds ct1 = Inr ct'" by (auto split: sum.splits)
  note 1 = ddl_undo [OF _ Cons.prems(2) d(1), of e]
  from Cons.IH [OF _ _ d(2)] 1 Cons.prems(1) show ?case by (auto simp: run_ddl_append)
qed simp

lemma find_same:
  assumes "distinct (map key xs)" "mset xs = mset ys"
  shows "List.find (\<lambda>x. key x = k) ys = List.find (\<lambda>x. key x = k) xs"
proof -
  have ys: "set ys = set xs" using assms(2) by (metis set_mset_mset)
  have one: "inj_on key (set xs)" using assms(1) by (simp add: distinct_map)
  show ?thesis
  proof (cases "List.find (\<lambda>x. key x = k) ys")
    case None
    with ys have "List.find (\<lambda>x. key x = k) xs = None" by (simp add: find_None_iff)
    with None show ?thesis by simp
  next
    case (Some y)
    then have y: "y \<in> set xs" "key y = k" using ys by (auto simp: find_Some_iff)
    then obtain x where x: "List.find (\<lambda>x. key x = k) xs = Some x"
      by (cases "List.find (\<lambda>x. key x = k) xs") (auto simp: find_None_iff)
    then have "x \<in> set xs" "key x = k" by (auto simp: find_Some_iff)
    with y one have "x = y" by (auto dest: inj_onD)
    with Some x show ?thesis by simp
  qed
qed

text \<open>The revisions: what they run and what undoes it.\<close>

lemma in_versions:
  assumes "m \<in> set versions"
  shows "list_all builds (mg_upgrade m) \<and> mg_downgrade m = concat (map undo (rev (mg_upgrade m)))"
  using assms
  by (auto simp: versions_def baseline_def customers_and_tickets_def documents_and_chunks_def review_items_def
      add_conversations_def resource_ownership_def message_citations_def plain_index_def owner_column_def)

lemma set_script_order: "set (script_order n revision ms) \<subseteq> set ms"
proof (induction n arbitrary: revision)
  case (Suc n)
  show ?case
  proof (cases "List.find (\<lambda>m. mg_down m = revision) ms")
    case (Some m)
    then have "m \<in> set ms" by (auto simp: find_Some_iff)
    with Suc Some show ?thesis by simp
  qed simp
qed simp

lemma upgrade_through_ok:
  assumes "set ms \<subseteq> set versions" "catalogue_ok ct" "upgrade_through ms ct = Inr ct'"
  shows "catalogue_ok ct'"
  using assms
proof (induction ms arbitrary: ct)
  case (Cons m ms)
  then obtain ct1 where "run_ddl (mg_upgrade m) ct = Inr ct1" "upgrade_through ms ct1 = Inr ct'"
    by (auto split: sum.splits)
  moreover from this have "catalogue_ok ct1"
    using run_undo [of "mg_upgrade m" ct ct1] in_versions [of m] Cons.prems(1,2) by simp
  ultimately show ?case using Cons.IH Cons.prems(1) by simp
qed simp

lemma script_order_same:
  assumes "mset vs = mset versions"
  shows "script_order n revision vs = script_order n revision versions"
proof -
  have "distinct (map mg_down versions)"
    by (simp add: versions_def baseline_def customers_and_tickets_def documents_and_chunks_def review_items_def
        add_conversations_def resource_ownership_def message_citations_def)
  note same = find_same [OF this assms [symmetric]]
  show ?thesis by (induction n arbitrary: revision) (simp_all add: same split: option.split)
qed

lemma versions_build:
  "case upgrade_head versions empty_catalogue of
     Inl _ \<Rightarrow> False
   | Inr ct \<Rightarrow> list_all2 same_table (ct_tables ct) metadata \<and> ct_extensions ct = [''vector'']"
  by code_simp

subsection \<open>Properties\<close>

text \<open>
  C32: The revisions build the models. In whatever order the directory lists them, following
  \<open>down_revision\<close> from an empty database runs every statement without a refusal, and
  the tables it ends with are those of \<open>Base.metadata\<close>, name for name: the same columns with their
  types, defaults and nullability, the same constraints -- the enumerations with exactly the
  values of the classes -- and the same indexes.
\<close>

theorem migrations_build_the_models:
  assumes "mset vs = mset versions"
  shows "\<exists>ct. upgrade_head vs empty_catalogue = Inr ct \<and> list_all2 same_table (ct_tables ct) metadata \<and>
    ct_extensions ct = [''vector''] \<and> catalogue_ok ct"
proof -
  have same: "upgrade_head vs = upgrade_head versions"
    by (simp add: upgrade_head_def script_order_same [OF assms] mset_eq_length [OF assms])
  obtain ct where ct: "upgrade_head versions empty_catalogue = Inr ct"
    using versions_build by (cases "upgrade_head versions empty_catalogue") simp_all
  note built = versions_build [unfolded ct sum.case]
  have "catalogue_ok empty_catalogue" by (simp add: catalogue_ok_def empty_catalogue_def)
  then have "catalogue_ok ct" by (rule upgrade_through_ok [OF set_script_order _ ct [unfolded upgrade_head_def]])
  with built ct show ?thesis unfolding same by blast
qed

lemma migrations_build_the_models_witness:
  "\<exists>ct. upgrade_head (rev versions) empty_catalogue = Inr ct \<and> list_all2 same_table (ct_tables ct) metadata"
  using migrations_build_the_models [of "rev versions"] by auto

text \<open>
  C33: Every downgrade undoes its upgrade, on every database the upgrade succeeds on and not only on
  the one the chain builds: whatever other tables, columns and indexes are there, after upgrade
  and downgrade the catalogue is what it was, except that an installed extension stays.
\<close>

theorem downgrade_undoes_upgrade:
  assumes "m \<in> set versions" "catalogue_ok ct" "run_ddl (mg_upgrade m) ct = Inr ct'"
  shows "catalogue_ok ct' \<and> run_ddl (mg_downgrade m) ct' = Inr (ct\<lparr>ct_extensions := ct_extensions ct'\<rparr>)"
proof -
  have "ct'\<lparr>ct_extensions := ct_extensions ct'\<rparr> = ct'" by simp
  with run_undo [OF _ assms(2,3), of "ct_extensions ct'"] in_versions [OF assms(1)] show ?thesis by simp
qed

lemma downgrade_undoes_upgrade_witness:
  "\<exists>ct. run_ddl (mg_upgrade customers_and_tickets) empty_catalogue = Inr ct \<and>
     run_ddl (mg_downgrade customers_and_tickets) ct = Inr (empty_catalogue\<lparr>ct_extensions := ct_extensions ct\<rparr>)"
proof -
  have "case run_ddl (mg_upgrade customers_and_tickets) empty_catalogue of Inl _ \<Rightarrow> False | Inr _ \<Rightarrow> True" by code_simp
  then obtain ct where ct: "run_ddl (mg_upgrade customers_and_tickets) empty_catalogue = Inr ct"
    by (auto split: sum.splits)
  have "customers_and_tickets \<in> set versions" "catalogue_ok empty_catalogue"
    by (simp_all add: versions_def catalogue_ok_def empty_catalogue_def)
  from downgrade_undoes_upgrade [OF this ct] ct show ?thesis by blast
qed

end
