(* ===== verification/Process.thy ===== *)
theory Process
  imports Api Schema
begin

text \<open>
  What lives as long as the process or one request: the cached objects of the factories and the
  engine's life (\<open>db/engine.py\<close>, \<open>db/session.py\<close>), the session of a request, the
  embedding and the streaming backend the settings name, and the ticket endpoint of
  \<open>api/v1/realtime.py\<close> with the handshake that spends its ticket.
\<close>

subsection \<open>Cached factories\<close>

text \<open>\<open>@lru_cache(maxsize=1)\<close> on a function without arguments: a value is kept, an exception is not.\<close>

definition cached :: "'a result \<Rightarrow> 'a option \<Rightarrow> 'a result \<times> 'a option" where
  "cached build cache =
     (case cache of
        Some x \<Rightarrow> (Inr x, Some x)
      | None \<Rightarrow> (case build of Inl e \<Rightarrow> (Inl e, None) | Inr x \<Rightarrow> (Inr x, Some x)))"

text \<open>Requests of a process: each may see other settings, none rebuilds what is there.\<close>

fun requests :: "'a result list \<Rightarrow> 'a option \<Rightarrow> 'a result list" where
  "requests [] cache = []"
| "requests (b # bs) cache = (case cached b cache of (r, cache1) \<Rightarrow> r # requests bs cache1)"

subsection \<open>The engine\<close>

text \<open>
  Engines are numbered; \<open>es_pools\<close> are those with pooled connections. \<open>dispose\<close> closes a pool and
  leaves an engine that opens a new one when it is used again, as SQLAlchemy documents.
\<close>

record engines =
  es_next :: nat
  es_engine :: "nat option"
  es_sessionmaker :: "nat option"
  es_pools :: "nat list"

definition no_engines :: engines where
  "no_engines = \<lparr>es_next = 0, es_engine = None, es_sessionmaker = None, es_pools = []\<rparr>"

definition get_engine :: "(pystr \<Rightarrow> unit result) \<Rightarrow> settings \<Rightarrow> engines \<Rightarrow> nat result \<times> engines" where
  "get_engine make_engine s es =
     (case es_engine es of
        Some n \<Rightarrow> (Inr n, es)
      | None \<Rightarrow>
          (case build_engine make_engine s of
             Inl e \<Rightarrow> (Inl e, es)
           | Inr _ \<Rightarrow> (Inr (es_next es), es\<lparr>es_next := es_next es + 1, es_engine := Some (es_next es)\<rparr>)))"

definition get_sessionmaker :: "(pystr \<Rightarrow> unit result) \<Rightarrow> settings \<Rightarrow> engines \<Rightarrow> nat result \<times> engines" where
  "get_sessionmaker make_engine s es =
     (case es_sessionmaker es of
        Some n \<Rightarrow> (Inr n, es)
      | None \<Rightarrow>
          (case get_engine make_engine s es of
             (Inl e, es1) \<Rightarrow> (Inl e, es1)
           | (Inr n, es1) \<Rightarrow> (Inr n, es1\<lparr>es_sessionmaker := Some n\<rparr>)))"

text \<open>A session that is used takes a connection of its engine's pool.\<close>

definition use_session :: "(pystr \<Rightarrow> unit result) \<Rightarrow> settings \<Rightarrow> engines \<Rightarrow> nat result \<times> engines" where
  "use_session make_engine s es =
     (case get_sessionmaker make_engine s es of
        (Inl e, es1) \<Rightarrow> (Inl e, es1)
      | (Inr n, es1) \<Rightarrow> (Inr n, es1\<lparr>es_pools := List.insert n (es_pools es1)\<rparr>))"

definition dispose_engine :: "engines \<Rightarrow> engines" where
  "dispose_engine es =
     (case es_engine es of
        None \<Rightarrow> es
      | Some n \<Rightarrow> es\<lparr>es_engine := None, es_pools := remove1 n (es_pools es)\<rparr>)"

subsection \<open>The session of a request\<close>

text \<open>
  What a handler does with its session: it changes rows, commits, or ends with an exception. The
  tables are what is committed and what the open transaction sees.
\<close>

datatype 'd session_op = Change "'d \<Rightarrow> 'd" | Commit | Throw exn

fun run_session :: "'d session_op list \<Rightarrow> 'd \<times> 'd \<Rightarrow> unit result \<times> 'd \<times> 'd" where
  "run_session [] (durable, seen) = (Inr (), durable, seen)"
| "run_session (Change f # ops) (durable, seen) = run_session ops (durable, f seen)"
| "run_session (Commit # ops) (durable, seen) = run_session ops (seen, seen)"
| "run_session (Throw e # ops) (durable, seen) = (Inl e, durable, seen)"

datatype session_call = Rollback | Close

text \<open>\<open>get_db_session\<close>: what it calls after the handler, and the tables it leaves.\<close>

definition with_db_session :: "'d session_op list \<Rightarrow> 'd \<Rightarrow> unit result \<times> session_call list \<times> 'd" where
  "with_db_session ops tables =
     (case run_session ops (tables, tables) of
        (Inl e, durable, seen) \<Rightarrow> (Inl e, [Rollback, Close], durable)
      | (Inr _, durable, seen) \<Rightarrow> (Inr (), [Close], durable))"

subsection \<open>The ticket endpoint\<close>

record realtime_ticket_response =
  tt_ticket :: pystr
  tt_expires_in :: int

text \<open>\<open>issue\<close> is the store's, with the ticket it draws and the time; the store is in the world.\<close>

definition post_ws_ticket ::
  "'c deployment \<Rightarrow> (pystr \<Rightarrow> 't \<Rightarrow> pystr result \<times> 't) \<Rightarrow> settings \<Rightarrow> pystr option \<Rightarrow> ('v, 'c, 't) site \<Rightarrow>
   realtime_ticket_response answer \<times> ('v, 'c, 't) site" where
  "post_ws_ticket dp issue st presented s =
     guarded dp presented (Inr ()) (\<lambda>i _ s.
       case issue (id_subject i) (si_world s) of
         (r, w) \<Rightarrow> (map_result (\<lambda>t. \<lparr>tt_ticket = t, tt_expires_in = st_ticket_ttl st\<rparr>) r, s\<lparr>si_world := w\<rparr>)) s"

subsection \<open>Streaming\<close>

definition build_streaming_provider ::
  "(llm_config \<Rightarrow> llm_prompt \<Rightarrow> 'w \<Rightarrow> (pystr list \<times> exn option) \<times> 'w) \<Rightarrow> settings \<Rightarrow>
   (llm_prompt \<Rightarrow> 'w \<Rightarrow> (pystr list \<times> exn option) \<times> 'w) result" where
  "build_streaming_provider groq s =
     (if st_llm_provider s = LLM_Static then Inr (static_stream DEFAULT_STATIC_STREAM_TEXT)
      else and_then (\<lambda>c. Inr (groq c)) (config_from_settings s))"

subsection \<open>Embeddings\<close>

text \<open>
  \<open>FastEmbedProvider\<close>: the model is loaded with the first text and kept; \<open>load\<close> and \<open>model\<close> are the
  library's. A vector that does not fit the column is refused.
\<close>

definition embed_fastembed ::
  "pystr \<Rightarrow> unit result \<Rightarrow> (pystr list \<Rightarrow> real list list result) \<Rightarrow> pystr list \<Rightarrow> bool \<Rightarrow>
   real list list result \<times> bool" where
  "embed_fastembed name load model texts loaded =
     (if texts = [] then (Inr [], loaded)
      else
        (case (if loaded then Inr () else load) of
           Inl e \<Rightarrow> (Inl e, False)
         | Inr _ \<Rightarrow>
             (case model texts of
                Inl e \<Rightarrow> (Inl e, True)
              | Inr vectors \<Rightarrow>
                  (case List.find (\<lambda>v. length v \<noteq> EMBEDDING_DIMENSIONS) vectors of
                     None \<Rightarrow> (Inr vectors, True)
                   | Some v \<Rightarrow>
                       (Inl (ValueError (name @ str '' returned '' @ show_nat (length v) @ str '' dimensions, expected '' @
                          show_nat EMBEDDING_DIMENSIONS)), True)))))"

text \<open>\<open>build_embedding_provider\<close>, as what its object does with texts\<close>

definition build_embedding_provider ::
  "(pystr list \<Rightarrow> bool \<Rightarrow> real list list result \<times> bool) \<Rightarrow> (pystr list \<Rightarrow> real list list) \<Rightarrow> settings \<Rightarrow>
   pystr list \<Rightarrow> bool \<Rightarrow> real list list result \<times> bool" where
  "build_embedding_provider fastembed hashing s =
     (case st_embedding_provider s of
        Embed_Fastembed \<Rightarrow> fastembed
      | Embed_Hashing \<Rightarrow> (\<lambda>texts loaded. (Inr (hashing texts), loaded)))"

text \<open>The price list of the process\<close>

definition build_pricing_table :: "settings \<Rightarrow> pricing_table result" where
  "build_pricing_table s = from_entries (st_llm_pricing s)"

subsection \<open>Lemmas\<close>

lemma hashing_width: "v \<in> set (embed_hashing alnum low digest texts) \<Longrightarrow> length v = EMBEDDING_DIMENSIONS"
  using normalise_unit by (auto simp: embed_hashing_def embed_one_def)

lemma fastembed_width:
  assumes "embed_fastembed name load model texts loaded = (Inr vs, l)" "v \<in> set vs"
  shows "length v = EMBEDDING_DIMENSIONS"
proof (cases "texts = []")
  case True
  with assms show ?thesis by (simp add: embed_fastembed_def)
next
  case False
  with assms(1) have "List.find (\<lambda>v. length v \<noteq> EMBEDDING_DIMENSIONS) vs = None"
    unfolding embed_fastembed_def by (auto split: sum.splits option.splits if_splits)
  with assms(2) show ?thesis by (simp add: find_None_iff)
qed

lemma requests_hit: "requests bs (Some x) = map (\<lambda>_. Inr x) bs"
  by (induction bs) (simp_all add: cached_def)

lemma run_session_durable:
  "run_session ops (durable, seen) = (r, durable', seen') \<Longrightarrow> Commit \<notin> set ops \<Longrightarrow> durable' = durable"
  by (induction ops "(durable, seen)" arbitrary: seen rule: run_session.induct) auto

lemma run_session_append:
  "run_session (ops @ ops') t =
     (case run_session ops t of (Inl e, t1) \<Rightarrow> (Inl e, t1) | (Inr _, t1) \<Rightarrow> run_session ops' t1)"
  by (induction ops t rule: run_session.induct) (auto split: sum.split)

text \<open>Until its first exception a handler has seen all its changes.\<close>

fun changes :: "'d session_op list \<Rightarrow> 'd \<Rightarrow> 'd" where
  "changes [] x = x"
| "changes (Change f # ops) x = changes ops (f x)"
| "changes (_ # ops) x = changes ops x"

fun throws :: "'d session_op \<Rightarrow> bool" where
  "throws (Throw _) = True"
| "throws _ = False"

lemma run_session_seen:
  "list_all (\<lambda>op. \<not> throws op) ops \<Longrightarrow> \<exists>d. run_session ops (durable, seen) = (Inr (), d, changes ops seen)"
  by (induction ops "(durable, seen)" arbitrary: durable seen rule: run_session.induct) auto

subsection \<open>Properties\<close>



text \<open>
  C12: A ticket carries one identity from a request to one socket. The ticket the endpoint hands
  out for a key is redeemed by the handshake, within its life, to the identity that key
  authenticates; the second handshake with it is refused, and so is the first one when the life is over.
\<close>

theorem ticket_carries_its_identity:
  assumes "require_identity dp key = Inr i" "id_kind i = Api_Key" "id_authenticated i" "id_subject i \<noteq> []"
    and "post_ws_ticket dp (\<lambda>u. memory_issue (of_int (st_ticket_ttl st)) t u now) st key s = (Inr response, s')" "t \<noteq> []"
  shows "tt_ticket response = t \<and> tt_expires_in response = st_ticket_ttl st \<and>
    (\<exists>spent. authenticate_socket (\<lambda>x. memory_redeem x later) True (Some t) (si_world s') =
        (Inr (if later < now + of_int (tt_expires_in response) then Some i else None), spent) \<and>
      (\<forall>again. fst (authenticate_socket (\<lambda>x. memory_redeem x again) True (Some t) spent) = Inr None))"
proof -
  obtain d counts where c: "dp_check dp (id_subject i) (si_counts s) = (d, counts)" by force
  have allowed: "rl_allowed d"
  proof (rule ccontr)
    assume "\<not> rl_allowed d"
    with assms(5) show False unfolding post_ws_ticket_def by (simp add: guarded_limited [OF assms(1) c])
  qed
  let ?w = "AList.update t (id_subject i, now + of_int (st_ticket_ttl st)) (prune_tickets now (si_world s))"
  from assms(5) have r: "response = \<lparr>tt_ticket = t, tt_expires_in = st_ticket_ttl st\<rparr>" "si_world s' = ?w"
    unfolding post_ws_ticket_def guarded_admitted [OF assms(1) c allowed]
    by (auto simp: memory_issue_def map_result_def raised_def)
  have i: "api_key_identity (id_subject i) = Inr i"
    using assms(2-4) by (cases i) (simp add: api_key_identity_def)
  have entry: "map_of ?w t = Some (id_subject i, now + of_int (st_ticket_ttl st))"
    by (simp add: update_conv')
  obtain h u where t: "t = h # u" using assms(6) by (cases t) auto
  have gone: "map_of (AList.delete t ?w) t = None" by (simp add: delete_conv')
  then have "\<forall>again. fst (authenticate_socket (\<lambda>x. memory_redeem x again) True (Some t) (AList.delete t ?w)) = Inr None"
    unfolding t by (simp add: authenticate_socket_def memory_redeem_def)
  moreover have "authenticate_socket (\<lambda>x. memory_redeem x later) True (Some t) ?w =
      (Inr (if later < now + of_int (st_ticket_ttl st) then Some i else None), AList.delete t ?w)"
    using entry i unfolding t by (auto simp: authenticate_socket_def memory_redeem_def not_less)
  ultimately show ?thesis unfolding r by auto
qed

lemma ticket_carries_its_identity_witness:
  "\<forall>docs st. \<exists>response s' spent.
     post_ws_ticket sample_deployment (\<lambda>u. memory_issue (of_int (st_ticket_ttl st)) [7] u 5) st (Some (str ''key-a''))
       (sample_site docs []) = (Inr response, s') \<and>
     fst (authenticate_socket (\<lambda>x. memory_redeem x 6) True (Some [7]) (si_world s')) =
       Inr (if (6 :: rat) < 5 + of_int (st_ticket_ttl st)
         then Some \<lparr>id_subject = str ''alice'', id_kind = Api_Key, id_authenticated = True\<rparr> else None)"
proof (intro allI)
  fix docs :: "'v document_db" and st :: settings
  let ?i = "\<lparr>id_subject = str ''alice'', id_kind = Api_Key, id_authenticated = True\<rparr>"
  let ?s = "sample_site docs ([] :: ticket_map)"
  have i: "require_identity sample_deployment (Some (str ''key-a'')) = Inr ?i"
    by (simp add: sample_identities api_key_identity_def)
  obtain d counts where c: "dp_check sample_deployment (id_subject ?i) (si_counts ?s) = (d, counts)" by force
  then have "rl_allowed d"
    by (auto simp: sample_deployment_def sample_site_def memory_check_def Let_def decide_count_def prune_def)
  note admitted = guarded_admitted [OF i c this]
  let ?r = "\<lparr>tt_ticket = [7], tt_expires_in = st_ticket_ttl st\<rparr>"
  obtain s' where issued: "post_ws_ticket sample_deployment (\<lambda>u. memory_issue (of_int (st_ticket_ttl st)) [7] u 5) st
      (Some (str ''key-a'')) ?s = (Inr ?r, s')"
    unfolding post_ws_ticket_def admitted by (simp add: memory_issue_def map_result_def raised_def)
  from ticket_carries_its_identity [OF i _ _ _ issued, of 6]
  show "\<exists>response s' spent.
     post_ws_ticket sample_deployment (\<lambda>u. memory_issue (of_int (st_ticket_ttl st)) [7] u 5) st (Some (str ''key-a''))
       ?s = (Inr response, s') \<and>
     fst (authenticate_socket (\<lambda>x. memory_redeem x 6) True (Some [7]) (si_world s')) =
       Inr (if (6 :: rat) < 5 + of_int (st_ticket_ttl st) then Some ?i else None)"
    using issued by auto
qed

text \<open>
  C31: Vectors have the type of their column. Whichever embedding backend the settings name and
  whatever the model library returns, a vector that reaches the tables has exactly the
  dimension the column of \<open>document_chunks\<close> is declared with.
\<close>

theorem vectors_fit_the_column:
  assumes "build_embedding_provider (embed_fastembed name load model) (embed_hashing alnum low digest) s texts loaded =
      (Inr vectors, l)" "v \<in> set vectors"
  shows "\<exists>c \<in> set (tb_columns (table_of_model DocumentChunk_model)).
    cl_name c = ''embedding'' \<and> cl_type c = Vector (length v) \<and> \<not> cl_nullable c"
proof -
  have "length v = EMBEDDING_DIMENSIONS"
    using assms hashing_width fastembed_width
    by (cases "st_embedding_provider s") (auto simp: build_embedding_provider_def)
  then show ?thesis by (simp add: table_of_model_def DocumentChunk_model_def mapped_def Let_def)
qed

lemma vectors_fit_the_column_witness:
  "\<forall>s. \<exists>v. (\<exists>c \<in> set (tb_columns (table_of_model DocumentChunk_model)). cl_type c = Vector (length v)) \<and>
     fst (build_embedding_provider (embed_fastembed [] (Inr ()) (\<lambda>_. Inr [])) (embed_hashing (\<lambda>_. True) (\<lambda>c. [c]) (\<lambda>_. []))
       (s\<lparr>st_embedding_provider := Embed_Hashing\<rparr>) [[]] False) = Inr [v]"
proof
  fix s :: settings
  let ?v = "embed_one (\<lambda>_. True) (\<lambda>c. [c]) (\<lambda>_. []) []"
  have built: "build_embedding_provider (embed_fastembed [] (Inr ()) (\<lambda>_. Inr [])) (embed_hashing (\<lambda>_. True) (\<lambda>c. [c]) (\<lambda>_. []))
       (s\<lparr>st_embedding_provider := Embed_Hashing\<rparr>) [[]] False = (Inr [?v], False)"
    by (simp add: build_embedding_provider_def embed_hashing_def)
  from vectors_fit_the_column [OF built] built
  show "\<exists>v. (\<exists>c \<in> set (tb_columns (table_of_model DocumentChunk_model)). cl_type c = Vector (length v)) \<and>
     fst (build_embedding_provider (embed_fastembed [] (Inr ()) (\<lambda>_. Inr [])) (embed_hashing (\<lambda>_. True) (\<lambda>c. [c]) (\<lambda>_. []))
       (s\<lparr>st_embedding_provider := Embed_Hashing\<rparr>) [[]] False) = Inr [v]"
    by force
qed

text \<open>
  After the application has shut down once, the session factory still holds the engine that was
  disposed: sessions used then give it connections again, and the next shutdown, which looks at
  the engine's own cache, leaves them open.
\<close>

lemma disposed_engine_is_reused:
  assumes "st_database_url s = Some url" "make_engine url = Inr ()"
  shows "let es1 = dispose_engine (snd (use_session make_engine s no_engines));
             es2 = dispose_engine (snd (use_session make_engine s es1))
         in es_pools es1 = [] \<and> es_engine es2 = None \<and> es_pools es2 = [0]"
  using assms
  by (simp add: use_session_def get_sessionmaker_def get_engine_def dispose_engine_def no_engines_def build_engine_def
      and_then_def Let_def)

text \<open>A failing construction is not cached: it fails on every request until the settings are mended.\<close>

lemma failures_are_not_cached:
  "requests (replicate n (Inl e) @ Inr x # bs) None = replicate n (Inl e) @ Inr x # map (\<lambda>_. Inr x) bs"
  by (induction n) (simp_all add: cached_def requests_hit)

text \<open>Accepted settings always give a streaming backend.\<close>

lemma streaming_backend_total:
  assumes "Settings show_float raw = Inr s"
  shows "\<exists>p. build_streaming_provider groq s = Inr p"
proof -
  have "settings_ok s" using assms unfolding Settings_Inr by blast
  from LLMConfig_settings [OF this] show ?thesis
    by (auto simp: build_streaming_provider_def)
qed

end
