(* ===== verification/Spec2Isabelle.thy ===== *)
theory Spec2Isabelle
  imports Tracing RedisJobs RateLimit Auth Policy Agent Workflows Assistant Realtime Suites Redaction Process
begin

text \<open>
  A verification development for the backend of NexaAssist (\<open>src/backend\<close>), a service that answers
  customer messages: over HTTP or a socket a message is classified, routed to a capability,
  checked by policy, handed to a person when the criteria say so, and recorded in a conversation.
  Around that pipeline are documents with grounded answers, an agent with tools, workflows,
  background jobs, tickets, authentication, rate limits, tracing, accounting and an evaluation
  harness.

  \<^bold>\<open>The theories and the code.\<close> Definitions carry the names of the functions and classes they
  translate; paths are under \<open>src/backend/app/\<close>.

  \<^item> \<open>Prelude\<close>: Python text as lists of code points with the string methods the code calls, Python
    values, results \<open>exn + 'a\<close>, and the lemma collections. \<open>Errors\<close>: \<open>core/exceptions.py\<close> and every
    package's \<open>errors.py\<close>; a class is the record of its attributes, a subclass an update of it.
    \<open>Registry\<close>: the interface of the registries. \<open>Paging\<close>: newest first, limit and offset.
  \<^item> \<open>Metrics\<close>, \<open>Cost\<close>, \<open>Tracing\<close>: \<open>observability/\<close> -- attribute sanitising and the metric store, the
    price list and the ledger, spans on a stack of open handles with the traced wrappers.
  \<^item> \<open>Jobs\<close>, \<open>Worker\<close>, \<open>Redis\<close>, \<open>RedisJobs\<close>: \<open>jobs/\<close> -- a job and the in-memory queue (\<open>mem_enqueue\<close>,
    \<open>mem_dequeue\<close>, \<open>mem_complete\<close>, \<open>mem_fail\<close>), the handler registry and the worker over any queue, the
    commands of a Redis server, and the durable queue as the pipelines it sends.
  \<^item> \<open>RateLimit\<close> (\<open>ratelimit/\<close>, \<open>api/v1/limits.py\<close>) and \<open>Auth\<close> (\<open>auth/\<close>, the handshake of
    \<open>api/v1/realtime.py\<close>): the limiters, authenticators, ownership and single-use tickets.
  \<^item> \<open>Intent\<close>, \<open>Policy\<close>, \<open>Routing\<close>, \<open>Escalation\<close>, \<open>Conversations\<close>, \<open>Assistant\<close>: \<open>services/\<close>, \<open>policy/\<close>,
    \<open>routing/\<close>, \<open>escalation/\<close> and the tables behind them -- one message from its analysis to the
    reply, the review queue, the turns of a conversation and the context window.
  \<^item> \<open>Tools\<close>, \<open>Agent\<close>, \<open>Workflows\<close>, \<open>Llm\<close>, \<open>Documents\<close>: \<open>tools/\<close>, \<open>agent/\<close>, \<open>workflows/\<close>, \<open>llm/\<close>, \<open>rag/\<close>,
    \<open>services/document.py\<close> and \<open>services/answer.py\<close>.
  \<^item> \<open>Tickets\<close>, \<open>Domain\<close>: \<open>services/ticket.py\<close>, \<open>services/customer.py\<close> and the tools and jobs over them.
  \<^item> \<open>Realtime\<close>: \<open>realtime/\<close> and the socket endpoint. \<open>Api\<close>: the other routes of \<open>api/v1/\<close>, the bounds of
    \<open>schemas/\<close>, \<open>db/health.py\<close> and \<open>observability/diagnostics.py\<close>. \<open>Process\<close>: cached factories, the engine,
    the session of a request, the ticket endpoint, the configured embedder.
  \<^item> \<open>Settings\<close>: \<open>core/config.py\<close> and the factories. \<open>Redaction\<close>: \<open>core/logging.py\<close>. \<open>Schema\<close>: \<open>db/base.py\<close>,
    \<open>models/\<close> and the revisions under \<open>alembic/versions/\<close>. \<open>Evaluation\<close>, \<open>Suites\<close>: \<open>evaluation/\<close>.

  \<^bold>\<open>How code is read.\<close> A class with state is a record and each method a function from the state to
  a result and the next state; the tables are lists of rows in the order they were stored, whose
  inserts refuse what the constraints of the models refuse. Every \<open>raise\<close> is a value of \<open>exn\<close>. Code
  that runs concurrently on shared tables is a step relation: the steps of \<open>Tickets\<close> (first contacts
  of one customer), \<open>Conversations\<close> (appends to one conversation), \<open>Realtime\<close> (slots) and \<open>Jobs\<close> are
  those between two awaits that touch the tables. Times, drawn ids, and what models, SDKs, the
  model library, the Redis server and the driver return are arguments; what the code relies on is a
  named hypothesis or the assumption of a locale. Numbers that are floats in the code are \<open>rat\<close> (\<open>real\<close>
  for embeddings), integers are \<open>int\<close> as in Python, and the widths the database has are written out.

  \<^bold>\<open>Contracts.\<close> A client proves its lemmas in a locale and each provider discharges it:
  \<open>registry\<close> (tools, intent handlers, job handlers), \<open>job_queue\<close> (in memory, Redis), \<open>redis_server\<close>,
  \<open>fixed_window\<close> (both limiters), \<open>ticket_store\<close> (both stores), \<open>ownership\<close> (both authorizers),
  \<open>llm_provider\<close>, \<open>decision_provider\<close> and \<open>streaming_provider\<close> (Groq by lemma, the static ones by
  interpretation), and \<open>unobserved_steps\<close> (a run of other callers on the served tables).

  \<^bold>\<open>What is shown.\<close>
  \<^item> Replies: whatever the capabilities say, a reply -- also over a socket -- carries no promise of money,
    names its sources only when unchanged, and an escalated one says so (\<open>Policy\<close>, \<open>Routing\<close>,
    \<open>Escalation\<close>, \<open>Assistant\<close>, \<open>Realtime\<close> and here); citations are of retrieved chunks.
  \<^item> State: the life cycle of jobs and the refinement of the queue by its Redis form; gapless
    conversations, one customer per address and at most one claim of a review under every
    interleaving; slots that are never leaked; tickets that open one socket.
  \<^item> Privacy: reads are scoped to the caller, no sequence of other callers' requests can be observed,
    refused calls change nothing, spans and metrics hold no prose, provider failures no provider
    text and log messages no registered secret.
  \<^item> Bounds and ends: limiters admit exactly the limit per window, cost is within a microdollar, the
    context window fits; agent runs, drains and racing requests end, and every frame is answered.
  \<^item> Configuration: accepted settings assemble, scoped settings authenticate, the revisions build the
    tables the models declare and every downgrade undoes its upgrade.

  \<^bold>\<open>Recursion and bounds.\<close> The loops of the code are structural recursions over what they consume:
  a drain counts its budget down, the agent its remaining steps, a stream its deltas, a socket the
  texts its client sends, a script order the number of revisions -- each bound is the code's own or the
  length of its input, so nothing is cut off. \<open>Prelude.split_ws\<close> and the chunking of text have measures.

  \<^bold>\<open>Where the model shows a defect\<close>, a lemma states it: for instance \<open>Domain.agent_lookup_ignores_ownership\<close>,
  \<open>Redaction.tracebacks_are_not_redacted\<close>, \<open>Redaction.basic_credentials_survive\<close>,
  \<open>Settings.malformed_keys_are_accepted\<close>, \<open>Api.blank_subjects_are_500\<close>, \<open>Process.disposed_engine_is_reused\<close>,
  \<open>Conversations.tiny_budget_overflows\<close> and \<open>RedisJobs.redis_missing_job_escapes\<close>.

  \<^bold>\<open>Not modelled.\<close> The assembly of FastAPI in \<open>main.py\<close> and \<open>api/v1/router.py\<close> and the health route, which
  answers constants; the text of the prompts; Pydantic's conversion of JSON to Python values, of
  which only the declared bounds are here; cancellation and other exceptions outside \<open>Exception\<close>; the
  rounding of floats and the 28-digit context of \<open>Decimal\<close>; PostgreSQL and Redis beyond the documented
  effect of what is sent to them; the event loop and contexts of the migration runner; the
  \<open>updated_at\<close> columns; the web client, the containers, the scripts and the tests.
\<close>

subsection \<open>Properties of the whole pipeline\<close>

text \<open>
  C1: Whatever the capabilities behind the router produce, the assistant never promises
  money. With the wired router, the reply that is sent -- after policy, and after the notice
  an escalation appends -- matches no commitment pattern; a complaint, a message without a
  category and an unresolved one are escalated and get the hand-off to a person word for
  word; a reply that policy changed carries no sources and is escalated.
\<close>

theorem assistant_reply_is_safe:
  assumes "spaces_are_not_words wide" "ih_name kb \<noteq> []" "ih_name ag \<noteq> []"
    and "build_router wide kb ag min_confidence = Inr (sv_router sv)"
    and "respond sv message conversation_id scope (db, w) = (Inr r, db', w')"
  shows "\<not> commits wide (ar_reply r) \<and>
    (ar_intent r \<in> {COMPLAINT, OTHER} \<or> \<not> ar_handled r \<longrightarrow> ar_escalated r \<and> ar_reply r = REVIEW_REPLY) \<and>
    (ar_policy_modified r \<longrightarrow> ar_escalated r \<and> ar_citations r = []) \<and>
    (ar_escalated r \<longrightarrow> contains (str ''support agent'') (lower (ar_reply r)))"
  by (rule reply_is_safe [OF assms])

text \<open>The sample capabilities of the router behind a classifier that always says billing.\<close>

definition sample_assistant :: "nat router \<Rightarrow> nat assistant" where
  "sample_assistant rt =
     \<lparr>sv_analyze = (\<lambda>_ w. (Inr sample_analysis, w)), sv_router = rt,
      sv_enqueue = (\<lambda>_ _ _ _ _ w. (Inl IntegrityError, w)), sv_min_confidence = 1 / 2\<rparr>"

lemma sample_response:
  assumes "build_router wide sample_kb sample_agent (1 / 2) = Inr rt"
  shows "\<exists>r w'. respond (sample_assistant rt) (str ''q'') None scope (db, 0) = (Inr r, db, w') \<and> ar_confidence r = 9 / 10"
proof -
  from sample_route [OF assms] obtain routed where routed: "route rt (str ''q'') sample_analysis 0 = (Inr routed, 0 + 1 + 1)"
    by blast
  have confidence: "rd_confidence (rr_decision routed) = 9 / 10"
    using route_decision(2) [OF routed] by (simp add: sample_analysis_def)
  moreover have "rr_reply routed \<noteq> []" using route_reply_ne [OF routed] assms by (auto simp: build_router_Inr [OF sample_names])
  ultimately have "\<exists>h w'. consider_handoff (sv_enqueue (sample_assistant rt)) (1 / 2) (str ''q'') routed None (0 + 1 + 1) = (Inr h, w')"
    by (intro consider_handoff_total) (auto simp: sample_assistant_def)
  then obtain h w' where
    "consider_handoff (sv_enqueue (sample_assistant rt)) (1 / 2) (str ''q'') routed None (0 + 1 + 1) = (Inr h, w')" by blast
  then have "answer_message (sample_assistant rt) (str ''q'') 0 = (Inr (routed, h), w')"
    using routed by (simp add: answer_message_def sample_assistant_def)
  then show ?thesis by (simp add: respond_def record_exchange_def compose_reply_def confidence)
qed

lemma assistant_reply_is_safe_witness:
  "\<exists>rt r w'. build_router (\<lambda>_. False) sample_kb sample_agent (1 / 2) = Inr rt \<and>
     respond (sample_assistant rt) (str ''q'') None None (race_db [], 0) = (Inr r, race_db [], w') \<and>
     \<not> commits (\<lambda>_. False) (ar_reply r)"
proof -
  obtain rt where rt: "build_router (\<lambda>_. False) sample_kb sample_agent (1 / 2) = Inr rt"
    using build_router_Inr [OF sample_names] by blast
  then have rt': "build_router (\<lambda>_. False) sample_kb sample_agent (1 / 2) = Inr (sv_router (sample_assistant rt))"
    by (simp add: sample_assistant_def)
  from sample_response [OF rt] obtain r w' where
    r: "respond (sample_assistant rt) (str ''q'') None None (race_db [], 0) = (Inr r, race_db [], w')" by blast
  have "spaces_are_not_words (\<lambda>_. False)" by (simp add: spaces_are_not_words_def)
  from assistant_reply_is_safe [OF this sample_names rt' r] rt r show ?thesis by blast
qed

text \<open>
  C2: An exchange is recorded as it happened. With a conversation the caller may not see,
  nothing runs and nothing is stored; with a blank message the insert is refused before the
  pipeline runs. Otherwise the customer's turn is stored first and stays whatever happens, and
  a reply adds exactly one turn, the text that is sent with the sources that are returned. The
  positions stay gapless.
\<close>

theorem exchange_recorded_in_order:
  assumes "gapless db" "respond sv message (Some i) scope (db, w) = (out, db', w')"
  shows "gapless db' \<and>
    (case get_conversation i scope db of
       Inl e \<Rightarrow> out = Inl e \<and> db' = db \<and> w' = w
     | Inr _ \<Rightarrow>
         if blank message then out = Inl IntegrityError \<and> db' = db \<and> w' = w
         else let n = int (length (turns_of i db)); asked = new_turn i n CUSTOMER message [] in
           (case out of
              Inl _ \<Rightarrow> cd_turns db' = cd_turns db @ [asked]
            | Inr r \<Rightarrow> cd_turns db' = cd_turns db @ [asked, new_turn i (n + 1) ASSISTANT (ar_reply r) (ar_citations r)]))"
proof (cases "get_conversation i scope db")
  case (Inl e)
  with assms show ?thesis by (auto simp: respond_def record_exchange_def append_turn_def)
next
  case (Inr c)
  note first = append_turn_gapless [OF assms(1) Inr, of CUSTOMER message "[]"]
  show ?thesis
  proof (cases "blank message")
    case True
    with assms Inr show ?thesis by (auto simp: respond_def record_exchange_def first Let_def)
  next
    case False
    with respond_recorded [OF assms(1) Inr False assms(2)] Inr show ?thesis by simp
  qed
qed

text \<open>A classifier that times out: the question stays recorded.\<close>

definition failing_assistant :: "nat assistant" where
  "failing_assistant =
     \<lparr>sv_analyze = (\<lambda>_ w. (Inl TimeoutError, w)),
      sv_router = \<lparr>rt_table = [], rt_fallback = fallback_handler, rt_min_confidence = 1 / 2, rt_enforcer = None\<rparr>,
      sv_enqueue = (\<lambda>_ _ _ _ _ w. (Inl IntegrityError, w)), sv_min_confidence = 1 / 2\<rparr>"

lemma race_db_gapless: "gapless (race_db [])"
  by (simp add: gapless_def turns_of_def race_db_def)

lemma exchange_recorded_in_order_witness:
  "\<exists>db' w'. respond failing_assistant (str ''q'') (Some (str ''v'')) None (race_db [], 0) = (Inl TimeoutError, db', w') \<and>
     cd_turns db' = [new_turn (str ''v'') 0 CUSTOMER (str ''q'') []]"
proof -
  have get: "get_conversation (str ''v'') None (race_db []) = Inr (hd (cd_conversations (race_db [])))"
    by (simp add: get_conversation_def race_db_def)
  have "\<not> blank (str ''q'')" by (simp add: blank_def str_def)
  with append_turn_gapless [OF race_db_gapless get, of CUSTOMER "str ''q''" "[]"]
  obtain db' w' where r: "respond failing_assistant (str ''q'') (Some (str ''v'')) None (race_db [], 0) = (Inl TimeoutError, db', w')"
    by (simp add: respond_def record_exchange_def answer_message_def failing_assistant_def Let_def)
  from exchange_recorded_in_order [OF race_db_gapless r] get \<open>\<not> blank (str ''q'')\<close>
  have "cd_turns db' = [new_turn (str ''v'') 0 CUSTOMER (str ''q'') []]"
    by (simp add: Let_def) (simp add: race_db_def turns_of_def)
  with r show ?thesis by blast
qed

subsection \<open>The same pipeline over a socket\<close>

text \<open>
  C3: What a socket finishes saying is what policy approved. With a database and the wired router, a
  completion for a question is grounded and the deltas before it are its text cut in pieces; that text
  is the reply of the pipeline, so it matches no commitment pattern, and when it says the exchange was
  handed over it mentions the support agent.
\<close>

theorem socket_answer_is_safe:
  assumes "spaces_are_not_words wide" "ih_name kb \<noteq> []" "ih_name ag \<noteq> []"
    and "build_router wide kb ag min_confidence = Inr (sv_router sv)"
    and "sr_answerer sr = Some (session_answerer True sv scope)" "\<not> lv_busy s"
    and "stream_answer system sr question conversation_id s = (r, s')"
    and "Complete cf \<in> set (drop (length (lv_sent s)) (lv_sent s'))"
  shows "\<not> commits wide (cf_text cf) \<and> cf_grounded cf \<and>
    drop (length (lv_sent s)) (lv_sent s') = map Delta (chunk (cf_text cf) 24) @ [Complete cf] \<and>
    (cf_escalated cf \<longrightarrow> contains (str ''support agent'') (lower (cf_text cf)))"
proof -
  let ?s = "s\<lparr>lv_busy := True\<rparr>"
  let ?aw = "session_answerer True sv scope"
  from assms(5-7) obtain s1 where run: "answer_grounded ?aw question conversation_id ?s = (r, s1)"
    and s': "lv_sent s' = lv_sent s1"
    by (auto simp: stream_answer_def session_answerer_def Let_def split: prod.splits)
  from assms(8) s' have "Complete cf \<in> set (drop (length (lv_sent ?s)) (lv_sent s1))" by simp
  from grounded_completion [OF run this] obtain reply w where
    reply: "respond sv question conversation_id scope (lv_world s) = (Inr reply, w)" and
    cf: "cf_text cf = ar_reply reply" "cf_grounded cf" "cf_escalated cf = ar_escalated reply"
      "drop (length (lv_sent s)) (lv_sent s1) = map Delta (chunk (ar_reply reply) 24) @ [Complete cf]"
    by (auto simp: session_answerer_def)
  obtain db w0 db' w' where "lv_world s = (db, w0)" "w = (db', w')" by (metis prod.exhaust)
  with reply have "respond sv question conversation_id scope (db, w0) = (Inr reply, db', w')" by simp
  from reply_is_safe [OF assms(1-4) this] cf s' show ?thesis by simp
qed

definition socket_live :: "(conversation_db \<times> nat) live" where
  "socket_live = \<lparr>lv_sent = [], lv_budget = None, lv_inbox = [], lv_closed = None, lv_busy = False, lv_world = (race_db [], 0)\<rparr>"

definition socket_streamer :: "nat router \<Rightarrow> (conversation_db \<times> nat) streamer" where
  "socket_streamer rt = \<lparr>sr_stream = (\<lambda>_ w. (([], None), w)), sr_recorder = None,
     sr_answerer = Some (session_answerer True (sample_assistant rt) None)\<rparr>"

lemma send_all_stays: "lv_budget s = None \<Longrightarrow> send_all fs s = (Inr (), s\<lparr>lv_sent := lv_sent s @ fs\<rparr>)"
  by (induction fs arbitrary: s) (simp_all add: send_frame_def)

lemma socket_answer_is_safe_witness:
  "\<exists>rt r s' cf. build_router (\<lambda>_. False) sample_kb sample_agent (1 / 2) = Inr rt \<and>
     stream_answer [] (socket_streamer rt) (str ''q'') None socket_live = (r, s') \<and>
     last (lv_sent s') = Complete cf \<and> \<not> commits (\<lambda>_. False) (cf_text cf)"
proof -
  obtain rt where rt: "build_router (\<lambda>_. False) sample_kb sample_agent (1 / 2) = Inr rt"
    using build_router_Inr [OF sample_names] by blast
  then have rt': "build_router (\<lambda>_. False) sample_kb sample_agent (1 / 2) = Inr (sv_router (sample_assistant rt))"
    by (simp add: sample_assistant_def)
  from sample_response [OF rt] obtain p w' where
    p: "respond (sample_assistant rt) (str ''q'') None None (race_db [], 0) = (Inr p, race_db [], w')" by blast
  obtain r s' where run: "stream_answer [] (socket_streamer rt) (str ''q'') None socket_live = (r, s')" by force
  with p have sent: "\<exists>cf. lv_sent s' = map Delta (chunk (ar_reply p) 24) @ [Complete cf]"
    by (auto simp: stream_answer_def socket_streamer_def session_answerer_def answer_grounded_def socket_live_def
        send_all_stays send_frame_def Let_def)
  then obtain cf where cf: "lv_sent s' = map Delta (chunk (ar_reply p) 24) @ [Complete cf]" by blast
  have "spaces_are_not_words (\<lambda>_. False)" by (simp add: spaces_are_not_words_def)
  moreover have "sr_answerer (socket_streamer rt) = Some (session_answerer True (sample_assistant rt) None)"
    by (simp add: socket_streamer_def)
  moreover have "\<not> lv_busy socket_live" "Complete cf \<in> set (drop (length (lv_sent socket_live)) (lv_sent s'))"
    by (simp_all add: socket_live_def cf)
  ultimately have "\<not> commits (\<lambda>_. False) (cf_text cf)"
    using socket_answer_is_safe [OF _ sample_names rt' _ _ run] by blast
  with rt run cf show ?thesis by auto
qed

subsection \<open>The same pipeline over HTTP\<close>

text \<open>
  C4: An answered request is safe, bounded and counted once. When the message route of the wired
  assistant answers, its caller was identified; the reply matches no commitment pattern and says so
  when a person was asked; it is a reply of the pipeline with a confidence in the unit interval and the
  trace id of its own request; exactly one pair of metrics is recorded, labelled with the decision
  that was sent; tickets and documents are as before, and so are the conversations unless the
  request named one.
\<close>

theorem http_answer_is_safe_and_counted:
  assumes "spaces_are_not_words wide" "ih_name kb \<noteq> []" "ih_name ag \<noteq> []"
    and "build_router wide kb ag min_confidence = Inr (sv_router sv)"
    and "post_message dp sv trace_id seconds key request s = (Inr m, s')"
  shows "(\<exists>i. require_identity dp key = Inr i) \<and> \<not> commits wide (ar_reply m) \<and>
    (ar_escalated m \<longrightarrow> contains (str ''support agent'') (lower (ar_reply m))) \<and>
    0 \<le> ar_confidence m \<and> ar_confidence m \<le> 1 \<and> am_trace_id m = trace_id \<and>
    si_metrics s' = si_metrics s @ request_metrics (assistant_reply.truncate m) seconds \<and>
    si_tickets s' = si_tickets s \<and> si_documents s' = si_documents s \<and>
    (ar_conversation_id m = None \<longrightarrow> si_conversations s' = si_conversations s)"
  using assms(5)
proof (rule post_message_Inr)
  fix i message ci r db w counts
  assume i: "require_identity dp key = Inr i"
    and r: "respond sv message ci (az_scope_for (dp_authorizer dp) i) (si_conversations s, si_world s) = (Inr r, db, w)"
    and m: "AssistantMessageResponse r trace_id = Inr m"
    and s': "s' = s\<lparr>si_counts := counts, si_conversations := db, si_world := w, si_metrics := si_metrics s @ request_metrics r seconds\<rparr>"
  from m have confidence: "0 \<le> ar_confidence r" "ar_confidence r \<le> 1"
    and m': "m = assistant_reply.extend r \<lparr>am_trace_id = trace_id\<rparr>" by (simp_all add: AssistantMessageResponse_Inr)
  have same: "ar_reply m = ar_reply r" "ar_escalated m = ar_escalated r" "ar_confidence m = ar_confidence r"
    "ar_conversation_id m = ar_conversation_id r" "am_trace_id m = trace_id" "assistant_reply.truncate m = r"
    by (simp_all add: m' assistant_reply.defs)
  have "ar_conversation_id r = None \<longrightarrow> db = si_conversations s"
    using r by (auto simp: respond_def record_exchange_def compose_reply_def split: option.splits prod.splits sum.splits)
  with reply_is_safe [OF assms(1-4) r] confidence i show ?thesis by (simp add: same s')
qed

lemma http_answer_is_safe_and_counted_witness:
  "\<forall>docs. \<exists>rt m s'. build_router (\<lambda>_. False) sample_kb sample_agent (1 / 2) = Inr rt \<and>
     post_message sample_deployment (sample_assistant rt) (Some (str ''t'')) 2 (Some (str ''key-a''))
       (Inr (str ''q'', None)) (sample_site docs 0) = (Inr m, s') \<and>
     \<not> commits (\<lambda>_. False) (ar_reply m) \<and> length (si_metrics s') = 2"
proof
  fix docs :: "'v document_db"
  let ?s = "sample_site docs (0 :: nat)"
  obtain rt where rt: "build_router (\<lambda>_. False) sample_kb sample_agent (1 / 2) = Inr rt"
    using build_router_Inr [OF sample_names] by blast
  then have rt': "build_router (\<lambda>_. False) sample_kb sample_agent (1 / 2) = Inr (sv_router (sample_assistant rt))"
    by (simp add: sample_assistant_def)
  let ?i = "\<lparr>id_subject = str ''alice'', id_kind = Api_Key, id_authenticated = True\<rparr>"
  have i: "require_identity sample_deployment (Some (str ''key-a'')) = Inr ?i"
    by (simp add: sample_identities api_key_identity_def)
  obtain d counts where c: "dp_check sample_deployment (id_subject ?i) (si_counts ?s) = (d, counts)" by force
  then have "rl_allowed d"
    by (auto simp: sample_deployment_def sample_site_def memory_check_def Let_def decide_count_def prune_def)
  note admitted = guarded_admitted [OF i c this]
  obtain r w' where r: "respond (sample_assistant rt) (str ''q'') None (az_scope_for (dp_authorizer sample_deployment) ?i)
      (race_db [], 0) = (Inr r, race_db [], w')" "ar_confidence r = 9 / 10"
    using sample_response [OF rt] by blast
  then obtain m where m: "AssistantMessageResponse r (Some (str ''t'')) = Inr m"
    by (simp add: AssistantMessageResponse_Inr)
  obtain s' where run: "post_message sample_deployment (sample_assistant rt) (Some (str ''t'')) 2 (Some (str ''key-a''))
       (Inr (str ''q'', None)) ?s = (Inr m, s')"
    unfolding post_message_def admitted using r(1) m by (simp add: sample_site_def raised_def)
  have "spaces_are_not_words (\<lambda>_. False)" by (simp add: spaces_are_not_words_def)
  from http_answer_is_safe_and_counted [OF this sample_names rt' run] rt run
  show "\<exists>rt m s'. build_router (\<lambda>_. False) sample_kb sample_agent (1 / 2) = Inr rt \<and>
     post_message sample_deployment (sample_assistant rt) (Some (str ''t'')) 2 (Some (str ''key-a''))
       (Inr (str ''q'', None)) ?s = (Inr m, s') \<and>
     \<not> commits (\<lambda>_. False) (ar_reply m) \<and> length (si_metrics s') = 2"
    by (intro exI [of _ rt] exI [of _ m] exI [of _ s']) (simp add: request_metrics_def sample_site_def)
qed

end
